(* ===== verification/Prelude.thy ===== *)
theory Prelude
  imports Main "HOL-Library.Word"
begin

text \<open>
  Shared material of the development: the machine integer types of the C sources, the result
  type of a C function (it returns, it never returns, or it accesses memory outside an object),
  byte buffers with bounds-checked accesses, and the byte order of multi byte fields.

  The collections: \<open>res_simps\<close> evaluates results, \<open>safe_intros\<close> carries the proofs that
  a function stays inside its objects, \<open>wire_simps\<close> evaluates wire messages, \<open>buf_simps\<close>
  buffer updates, \<open>inv_intros\<close> holds one preservation lemma per operation.
\<close>

unbundle bit_operations_syntax

named_theorems res_simps
named_theorems safe_intros
named_theorems wire_simps
named_theorems buf_simps
named_theorems inv_intros

section \<open>Machine integers\<close>

type_synonym u8 = "8 word"
type_synonym u16 = "16 word"
type_synonym u32 = "32 word"
type_synonym u64 = "64 word"

section \<open>Results of C functions\<close>

text \<open>
  A call ends in one of three ways. \<open>Done x\<close>: it returns, \<open>x\<close> holds its value and the state it
  leaves. \<open>NoReturn\<close>: it never returns (it waits for a silent peer, or it loops). \<open>Fault\<close>: it
  reads or writes outside an object, which C leaves undefined.
\<close>

datatype 'a res = Done 'a | NoReturn | Fault

fun bind_res :: "'a res \<Rightarrow> ('a \<Rightarrow> 'b res) \<Rightarrow> 'b res" where
  "bind_res (Done x) f = f x"
| "bind_res NoReturn f = NoReturn"
| "bind_res Fault f = Fault"

lemma bind_res_cong [fundef_cong]:
  "m = m' \<Longrightarrow> (\<And>x. m' = Done x \<Longrightarrow> f x = f' x) \<Longrightarrow> bind_res m f = bind_res m' f'"
  by (cases m') auto

lemma bind_res_Done_iff [res_simps]:
  "bind_res m f = Done y \<longleftrightarrow> (\<exists>x. m = Done x \<and> f x = Done y)"
  by (cases m) auto

lemma bind_res_DoneE:
  assumes "bind_res m f = Done y"
  obtains x where "m = Done x" "f x = Done y"
  using assms by (cases m) auto

lemma bind_res_Fault_iff [res_simps]:
  "bind_res m f = Fault \<longleftrightarrow> m = Fault \<or> (\<exists>x. m = Done x \<and> f x = Fault)"
  by (cases m) auto

lemma bind_res_assoc: "bind_res (bind_res m f) g = bind_res m (\<lambda>x. bind_res (f x) g)"
  by (cases m) auto

lemma bind_res_Done_right [simp]: "bind_res m Done = m"
  by (cases m) auto

text \<open>
  \<open>safe P m\<close>: the call does not fault, and \<open>P\<close> holds of what it returns, if it returns.
  \<open>returns P m\<close>: it returns, and \<open>P\<close> holds.
\<close>

fun safe :: "('a \<Rightarrow> bool) \<Rightarrow> 'a res \<Rightarrow> bool" where
  "safe P (Done x) = P x"
| "safe P NoReturn = True"
| "safe P Fault = False"

fun returns :: "('a \<Rightarrow> bool) \<Rightarrow> 'a res \<Rightarrow> bool" where
  "returns P (Done x) = P x"
| "returns P NoReturn = False"
| "returns P Fault = False"

lemma safe_bind: "safe (\<lambda>x. safe Q (f x)) m \<Longrightarrow> safe Q (bind_res m f)"
  by (cases m) auto

lemma safe_bind_iff: "safe Q (bind_res m f) \<longleftrightarrow> safe (\<lambda>x. safe Q (f x)) m"
  by (cases m) auto

lemma safe_mono: "safe P m \<Longrightarrow> (\<And>x. m = Done x \<Longrightarrow> P x \<Longrightarrow> Q x) \<Longrightarrow> safe Q m"
  by (cases m) auto

lemma safe_conj: "safe P m \<Longrightarrow> safe Q m \<Longrightarrow> safe (\<lambda>x. P x \<and> Q x) m"
  by (cases m) auto

lemma safe_bindI:
  "safe P m \<Longrightarrow> (\<And>x. m = Done x \<Longrightarrow> P x \<Longrightarrow> safe Q (f x)) \<Longrightarrow> safe Q (bind_res m f)"
  by (cases m) auto

lemma safeD: "safe P m \<Longrightarrow> m = Done x \<Longrightarrow> P x"
  by simp

lemma safe_not_Fault: "safe P m \<Longrightarrow> m \<noteq> Fault"
  by (cases m) auto

lemma safe_iff: "safe P m \<longleftrightarrow> m \<noteq> Fault \<and> (\<forall>x. m = Done x \<longrightarrow> P x)"
  by (cases m) auto

lemma returns_iff: "returns P m \<longleftrightarrow> (\<exists>x. m = Done x \<and> P x)"
  by (cases m) auto

lemma returns_safe: "returns P m \<Longrightarrow> safe P m"
  by (cases m) auto

lemma returns_bindI:
  "returns P m \<Longrightarrow> (\<And>x. m = Done x \<Longrightarrow> P x \<Longrightarrow> returns Q (f x)) \<Longrightarrow> returns Q (bind_res m f)"
  by (cases m) auto

lemma returns_mono: "returns P m \<Longrightarrow> (\<And>x. m = Done x \<Longrightarrow> P x \<Longrightarrow> Q x) \<Longrightarrow> returns Q m"
  by (cases m) auto

text \<open>
  \<open>runs l P m\<close>: the call does not fault, \<open>P\<close> holds of what it returns, and under the condition \<open>l\<close>
  it returns.
\<close>

definition runs :: "bool \<Rightarrow> ('a \<Rightarrow> bool) \<Rightarrow> 'a res \<Rightarrow> bool" where
  "runs l P m \<longleftrightarrow> safe P m \<and> (l \<longrightarrow> m \<noteq> NoReturn)"

lemma runs_Done [simp]: "runs l P (Done x) \<longleftrightarrow> P x"
  by (simp add: runs_def)

lemma returns_runs: "returns P m \<Longrightarrow> runs l P m"
  by (cases m) (auto simp: runs_def)

lemma runs_bindI:
  "runs l P m \<Longrightarrow> (\<And>x. m = Done x \<Longrightarrow> P x \<Longrightarrow> runs l Q (f x)) \<Longrightarrow> runs l Q (bind_res m f)"
  by (cases m) (auto simp: runs_def)

lemma runs_mono: "runs l P m \<Longrightarrow> (\<And>x. m = Done x \<Longrightarrow> P x \<Longrightarrow> Q x) \<Longrightarrow> runs l Q m"
  by (cases m) (auto simp: runs_def)

lemma runs_bind_returnsI:
  "returns P m \<Longrightarrow> (\<And>x. m = Done x \<Longrightarrow> P x \<Longrightarrow> runs l Q (f x)) \<Longrightarrow> runs l Q (bind_res m f)"
  by (cases m) (auto simp: runs_def)

section \<open>Byte buffers\<close>

text \<open>
  An object of known size is a list; an access outside the list is a \<open>Fault\<close>. \<open>overwrite\<close>
  overwrites a part of a buffer, as \<open>memcpy\<close> and \<open>memmove\<close> do.
\<close>

definition nth_res :: "'a list \<Rightarrow> nat \<Rightarrow> 'a res" where
  "nth_res xs i = (if i < length xs then Done (xs ! i) else Fault)"

definition segment :: "'a list \<Rightarrow> nat \<Rightarrow> nat \<Rightarrow> 'a list" where
  "segment xs off n = take n (drop off xs)"

definition overwrite :: "'a list \<Rightarrow> nat \<Rightarrow> 'a list \<Rightarrow> 'a list" where
  "overwrite xs off ys = take off xs @ ys @ drop (off + length ys) xs"

definition read_mem :: "'a list \<Rightarrow> nat \<Rightarrow> nat \<Rightarrow> 'a list res" where
  "read_mem xs off n = (if off + n \<le> length xs then Done (segment xs off n) else Fault)"

definition write_mem :: "'a list \<Rightarrow> nat \<Rightarrow> 'a list \<Rightarrow> 'a list res" where
  "write_mem xs off ys = (if off + length ys \<le> length xs then Done (overwrite xs off ys) else Fault)"

lemma nth_res_Done [simp]: "i < length xs \<Longrightarrow> nth_res xs i = Done (xs ! i)"
  by (simp add: nth_res_def)

lemma read_mem_Done [simp]: "off + n \<le> length xs \<Longrightarrow> read_mem xs off n = Done (segment xs off n)"
  by (simp add: read_mem_def)

lemma write_mem_Done [simp]:
  "off + length ys \<le> length xs \<Longrightarrow> write_mem xs off ys = Done (overwrite xs off ys)"
  by (simp add: write_mem_def)

lemma nth_res_Done_iff [res_simps]: "nth_res xs i = Done y \<longleftrightarrow> i < length xs \<and> y = xs ! i"
  by (auto simp: nth_res_def)

lemma read_mem_Done_iff [res_simps]:
  "read_mem xs off n = Done ys \<longleftrightarrow> off + n \<le> length xs \<and> ys = segment xs off n"
  by (auto simp: read_mem_def)

lemma write_mem_Done_iff [res_simps]:
  "write_mem xs off ys = Done zs \<longleftrightarrow> off + length ys \<le> length xs \<and> zs = overwrite xs off ys"
  by (auto simp: write_mem_def)

lemma length_segment [simp]: "off + n \<le> length xs \<Longrightarrow> length (segment xs off n) = n"
  by (simp add: segment_def)

lemma length_segment_le: "length (segment xs off n) \<le> n"
  by (simp add: segment_def)

lemma segment_0 [simp]: "segment xs 0 n = take n xs"
  by (simp add: segment_def)

lemma nth_segment [simp]: "i < n \<Longrightarrow> off + n \<le> length xs \<Longrightarrow> segment xs off n ! i = xs ! (off + i)"
  by (simp add: segment_def)

lemma length_overwrite [simp]: "off + length ys \<le> length xs \<Longrightarrow> length (overwrite xs off ys) = length xs"
  by (simp add: overwrite_def)

lemma segment_overwrite [simp]: "off + length ys \<le> length xs \<Longrightarrow> segment (overwrite xs off ys) off (length ys) = ys"
  by (simp add: segment_def overwrite_def)

lemma take_overwrite_0 [simp]: "take (length ys) (overwrite xs 0 ys) = ys"
  by (simp add: overwrite_def)

lemma take_overwrite_0_le: "n \<le> length ys \<Longrightarrow> take n (overwrite xs 0 ys) = take n ys"
  by (simp add: overwrite_def)

lemma overwrite_Nil [simp]: "off \<le> length xs \<Longrightarrow> overwrite xs off [] = xs"
  by (simp add: overwrite_def)

lemma nth_overwrite:
  assumes "off + length ys \<le> length xs" and "i < length xs"
  shows "overwrite xs off ys ! i = (if off \<le> i \<and> i < off + length ys then ys ! (i - off) else xs ! i)"
  using assms by (auto simp: overwrite_def nth_append min_def)

lemma take_overwrite_append:
  assumes "off + length ys \<le> length xs"
  shows "take (off + length ys) (overwrite xs off ys) = take off xs @ ys"
  using assms by (simp add: overwrite_def)

section \<open>Byte order\<close>

text \<open>
  The host is little endian (\<open>src/lib/usbip_protocol_definitions.h\<close>, \<open>gud_protocol.h\<close>): a field
  of a struct is stored with its low byte first.
\<close>

definition le16 :: "u8 \<Rightarrow> u8 \<Rightarrow> u16" where
  "le16 lo hi = push_bit 8 (ucast hi) OR ucast lo"

definition le32 :: "u8 \<Rightarrow> u8 \<Rightarrow> u8 \<Rightarrow> u8 \<Rightarrow> u32" where
  "le32 b0 b1 b2 b3 =
     push_bit 24 (ucast b3) OR push_bit 16 (ucast b2) OR push_bit 8 (ucast b1) OR ucast b0"

definition le_bytes16 :: "u16 \<Rightarrow> u8 list" where
  "le_bytes16 x = [ucast x, ucast (drop_bit 8 x)]"

definition le_bytes32 :: "u32 \<Rightarrow> u8 list" where
  "le_bytes32 x = [ucast x, ucast (drop_bit 8 x), ucast (drop_bit 16 x), ucast (drop_bit 24 x)]"

definition le64 :: "u32 \<Rightarrow> u32 \<Rightarrow> u64" where
  "le64 lo hi = push_bit 32 (ucast hi) OR ucast lo"

definition le_bytes64 :: "u64 \<Rightarrow> u8 list" where
  "le_bytes64 x = le_bytes32 (ucast x) @ le_bytes32 (ucast (drop_bit 32 x))"

text \<open>A field of a memory image, at its offset.\<close>

definition u16_at :: "u8 list \<Rightarrow> nat \<Rightarrow> u16" where
  "u16_at bs i = le16 (bs ! i) (bs ! (i + 1))"

definition u32_at :: "u8 list \<Rightarrow> nat \<Rightarrow> u32" where
  "u32_at bs i = le32 (bs ! i) (bs ! (i + 1)) (bs ! (i + 2)) (bs ! (i + 3))"

definition u64_at :: "u8 list \<Rightarrow> nat \<Rightarrow> u64" where
  "u64_at bs i = le64 (u32_at bs i) (u32_at bs (i + 4))"

lemma length_le_bytes [simp]:
  "length (le_bytes16 x) = 2" "length (le_bytes32 y) = 4" "length (le_bytes64 z) = 8"
  by (simp_all add: le_bytes16_def le_bytes32_def le_bytes64_def)

lemma le16_ucast [simp]: "le16 (ucast x) (ucast (drop_bit 8 x)) = x"
  unfolding le16_def by (rule bit_word_eqI) (auto simp: bit_simps)

lemma ucast_le16 [simp]:
  "ucast (le16 a b) = a" "ucast (drop_bit 8 (le16 a b)) = b"
  unfolding le16_def
  by (rule bit_word_eqI, auto simp: bit_simps dest: bit_imp_le_length)+

lemma le32_ucast [simp]:
  "le32 (ucast x) (ucast (drop_bit 8 x)) (ucast (drop_bit 16 x)) (ucast (drop_bit 24 x)) = x"
    (is "?l = x")
proof (rule bit_word_eqI)
  fix n assume "n < LENGTH(32)"
  then consider "n < 8" | "8 \<le> n \<and> n < 16" | "16 \<le> n \<and> n < 24" | "24 \<le> n \<and> n < 32"
    by fastforce
  then show "bit ?l n = bit x n"
    by cases (auto simp: le32_def bit_simps)
qed

lemma ucast_le32 [simp]:
  "ucast (le32 a b c d) = a" "ucast (drop_bit 8 (le32 a b c d)) = b"
  "ucast (drop_bit 16 (le32 a b c d)) = c" "ucast (drop_bit 24 (le32 a b c d)) = d"
  unfolding le32_def
  by (rule bit_word_eqI, auto simp: bit_simps dest: bit_imp_le_length)+

lemma le_bytes_le [simp]:
  "le_bytes16 (le16 a b) = [a, b]" "le_bytes32 (le32 a b c d) = [a, b, c, d]"
  by (simp_all add: le_bytes16_def le_bytes32_def)

lemma le64_ucast [simp]: "le64 (ucast x) (ucast (drop_bit 32 x)) = x"
  unfolding le64_def by (rule bit_word_eqI) (auto simp: bit_simps)

lemma ucast_le64 [simp]: "ucast (le64 a b) = a" "ucast (drop_bit 32 (le64 a b)) = b"
  unfolding le64_def
  by (rule bit_word_eqI, auto simp: bit_simps dest: bit_imp_le_length)+

lemma segment_Cons_conv: "i < length xs \<Longrightarrow> segment xs i (Suc n) = xs ! i # segment xs (Suc i) n"
  by (simp add: segment_def Cons_nth_drop_Suc [symmetric])

lemma segment_append_segment: "segment xs i m @ segment xs (i + m) n = segment xs i (m + n)"
  by (simp add: segment_def take_add add.commute)

lemma segment_append_left [simp]: "i + n \<le> length xs \<Longrightarrow> segment (xs @ ys) i n = segment xs i n"
  by (simp add: segment_def)

lemma segment_append_right [simp]: "length xs \<le> i \<Longrightarrow> segment (xs @ ys) i n = segment ys (i - length xs) n"
  by (simp add: segment_def)

lemma segment_full [simp]: "length xs = n \<Longrightarrow> segment xs 0 n = xs"
  by simp

lemma le_bytes16_u16_at [simp]: "i + 2 \<le> length bs \<Longrightarrow> le_bytes16 (u16_at bs i) = segment bs i 2"
  by (simp add: u16_at_def segment_Cons_conv numeral_2_eq_2) (simp add: segment_def)

lemma le_bytes32_u32_at [simp]: "i + 4 \<le> length bs \<Longrightarrow> le_bytes32 (u32_at bs i) = segment bs i 4"
  by (simp add: u32_at_def segment_Cons_conv eval_nat_numeral) (simp add: segment_def)

lemma le_bytes64_u64_at [simp]: "i + 8 \<le> length bs \<Longrightarrow> le_bytes64 (u64_at bs i) = segment bs i 8"
  using segment_append_segment [of bs i 4 4] by (simp add: le_bytes64_def u64_at_def)

lemma u16_at_le_bytes [simp]: "u16_at (le_bytes16 x @ bs) 0 = x"
  by (simp add: u16_at_def le_bytes16_def)

lemma u32_at_le_bytes [simp]: "u32_at (le_bytes32 x @ bs) 0 = x"
  by (simp add: u32_at_def le_bytes32_def numeral_2_eq_2 numeral_3_eq_3)

lemma u16_at_append [simp]: "length as \<le> i \<Longrightarrow> u16_at (as @ bs) i = u16_at bs (i - length as)"
  by (simp add: u16_at_def nth_append Suc_diff_le)

lemma u32_at_append [simp]: "length as \<le> i \<Longrightarrow> u32_at (as @ bs) i = u32_at bs (i - length as)"
  by (simp add: u32_at_def nth_append Suc_diff_le)

lemma u64_at_append [simp]: "length as \<le> i \<Longrightarrow> u64_at (as @ bs) i = u64_at bs (i - length as)"
  by (simp add: u64_at_def)

lemma u64_at_le_bytes [simp]: "u64_at (le_bytes64 x @ bs) 0 = x"
  by (simp add: u64_at_def le_bytes64_def)

lemma u_at_le_bytes_only [simp]:
  "u16_at (le_bytes16 x) 0 = x" "u32_at (le_bytes32 y) 0 = y" "u64_at (le_bytes64 z) 0 = z"
  using u16_at_le_bytes [of x "[]"] u32_at_le_bytes [of y "[]"] u64_at_le_bytes [of z "[]"]
  by simp_all

text \<open>Network byte order is the reverse.\<close>

definition be_bytes16 :: "u16 \<Rightarrow> u8 list" where
  "be_bytes16 x = rev (le_bytes16 x)"

definition be_bytes32 :: "u32 \<Rightarrow> u8 list" where
  "be_bytes32 x = rev (le_bytes32 x)"

lemma length_be_bytes [simp]: "length (be_bytes16 x) = 2" "length (be_bytes32 y) = 4"
  by (simp_all add: be_bytes16_def be_bytes32_def)

lemma be_bytes32_0 [simp]: "be_bytes32 0 = [0, 0, 0, 0]"
  by (simp add: be_bytes32_def le_bytes32_def)

lemma be_bytes32_eq_iff [simp]: "be_bytes32 x = be_bytes32 y \<longleftrightarrow> x = y"
proof
  assume "be_bytes32 x = be_bytes32 y"
  then have "u32_at (le_bytes32 x @ []) 0 = u32_at (le_bytes32 y @ []) 0"
    by (simp only: be_bytes32_def rev_is_rev_conv)
  then show "x = y" by (simp only: u32_at_le_bytes)
qed simp

lemma unat_le16: "unat (le16 a b) = unat a + 256 * unat b"
proof -
  have "le16 a b = push_bit 8 (ucast b) + ucast a"
    unfolding le16_def
    by (rule disjunctive_add [symmetric]) (auto simp: bit_simps dest: bit_imp_le_length)
  also have "unat \<dots> = unat a + 256 * unat b"
    using unsigned_less [of a, where ?'a = nat] unsigned_less [of b, where ?'a = nat]
    by (simp add: push_bit_eq_mult unat_word_ariths unsigned_ucast_eq take_bit_eq_mod)
  finally show ?thesis .
qed

lemma unat_and_mask_less: "unat ((x :: 'a::len word) AND 15) < 16"
proof -
  have "unat (x AND mask 4) < 2 ^ 4"
    unfolding take_bit_eq_mask [symmetric] unsigned_take_bit_eq by (rule take_bit_nat_less_exp)
  then show ?thesis by (simp add: mask_eq_exp_minus_1)
qed

lemma unat_less_256 [simp]: "unat (x :: u8) < 256"
  using unsigned_less [of x, where ?'a = nat] by simp

lemma unat_of_nat_less: "n < 2 ^ LENGTH('a) \<Longrightarrow> unat (of_nat n :: 'a::len word) = n"
  by (simp add: unat_of_nat)

end
