(* ===== verification/Wire.thy ===== *)
theory Wire
  imports Prelude
begin

text \<open>
  The messages of the USB/IP protocol, \<open>src/lib/usbip_protocol_definitions.h\<close>. A packed struct is a
  record with the values its fields hold in memory; \<open>*_bytes\<close> is its memory image on the little
  endian host, which is what the server writes to the socket, and \<open>*_of\<close> the struct found in the
  bytes read from the socket. Fields keep their C names behind a prefix per struct.
\<close>

section \<open>Byte order conversion\<close>

definition SWAP16 :: "u16 \<Rightarrow> u16" where
  "SWAP16 x = le16 (ucast (drop_bit 8 x)) (ucast x)"

definition SWAP32 :: "u32 \<Rightarrow> u32" where
  "SWAP32 x = le32 (ucast (drop_bit 24 x)) (ucast (drop_bit 16 x)) (ucast (drop_bit 8 x)) (ucast x)"

lemma SWAP_SWAP [simp]: "SWAP16 (SWAP16 x) = x" "SWAP32 (SWAP32 y) = y"
  by (simp_all add: SWAP16_def SWAP32_def)

lemma le_bytes_SWAP [simp]:
  "le_bytes16 (SWAP16 x) = be_bytes16 x" "le_bytes32 (SWAP32 y) = be_bytes32 y"
  by (simp_all add: SWAP16_def SWAP32_def be_bytes16_def be_bytes32_def)
     (simp_all add: le_bytes16_def le_bytes32_def)

lemma SWAP32_0 [simp]: "SWAP32 0 = 0"
  by (simp add: SWAP32_def le32_def)

lemma SWAP32_eq_iff [simp]: "SWAP32 x = SWAP32 y \<longleftrightarrow> x = y"
  using SWAP_SWAP(2) by metis

section \<open>Operation and command codes\<close>

abbreviation (input) OP_REQ_DEVLIST :: u16 where "OP_REQ_DEVLIST \<equiv> 0x8005"
abbreviation (input) OP_REP_DEVLIST :: u16 where "OP_REP_DEVLIST \<equiv> 0x0005"
abbreviation (input) OP_REQ_IMPORT :: u16 where "OP_REQ_IMPORT \<equiv> 0x8003"
abbreviation (input) OP_REP_IMPORT :: u16 where "OP_REP_IMPORT \<equiv> 0x0003"

abbreviation (input) USBIP_CMD_SUBMIT :: u32 where "USBIP_CMD_SUBMIT \<equiv> 1"
abbreviation (input) USBIP_CMD_UNLINK :: u32 where "USBIP_CMD_UNLINK \<equiv> 2"
abbreviation (input) USBIP_RET_SUBMIT :: u32 where "USBIP_RET_SUBMIT \<equiv> 3"
abbreviation (input) USBIP_RET_UNLINK :: u32 where "USBIP_RET_UNLINK \<equiv> 4"

section \<open>Messages\<close>

record usbip_device_id_t =
  di_path :: "u8 list"    \<comment> \<open>char path[256]\<close>
  di_bus_id :: "u8 list"  \<comment> \<open>char bus_id[32]\<close>
  di_busnum :: u32
  di_devnum :: u32
  di_speed :: u32

definition usbip_device_id_bytes :: "usbip_device_id_t \<Rightarrow> u8 list" where
  "usbip_device_id_bytes d = di_path d @ di_bus_id d @
     le_bytes32 (di_busnum d) @ le_bytes32 (di_devnum d) @ le_bytes32 (di_speed d)"

record usbip_device_descriptor_t =
  dd_idVendor :: u16
  dd_idProduct :: u16
  dd_bcdDevice :: u16
  dd_bDeviceClass :: u8
  dd_bDeviceSubClass :: u8
  dd_bDeviceProtocol :: u8
  dd_bConfigurationValue :: u8
  dd_bNumConfigurations :: u8
  dd_bNumInterfaces :: u8

definition usbip_device_descriptor_bytes :: "usbip_device_descriptor_t \<Rightarrow> u8 list" where
  "usbip_device_descriptor_bytes d =
     le_bytes16 (dd_idVendor d) @ le_bytes16 (dd_idProduct d) @ le_bytes16 (dd_bcdDevice d) @
     [dd_bDeviceClass d, dd_bDeviceSubClass d, dd_bDeviceProtocol d,
      dd_bConfigurationValue d, dd_bNumConfigurations d, dd_bNumInterfaces d]"

record usbip_interface_descriptor_t =
  id_bInterfaceClass :: u8
  id_bInterfaceSubClass :: u8
  id_bInterfaceProtocol :: u8
  id_padding :: u8

definition usbip_interface_descriptor_bytes :: "usbip_interface_descriptor_t \<Rightarrow> u8 list" where
  "usbip_interface_descriptor_bytes d =
     [id_bInterfaceClass d, id_bInterfaceSubClass d, id_bInterfaceProtocol d, id_padding d]"

record op_req_head_t =
  rq_version :: u16
  rq_command_code :: u16
  rq_status :: u32

definition op_req_head_of :: "u8 list \<Rightarrow> op_req_head_t" where
  "op_req_head_of bs =
     \<lparr>rq_version = u16_at bs 0, rq_command_code = u16_at bs 2, rq_status = u32_at bs 4\<rparr>"

definition op_req_head_bytes :: "op_req_head_t \<Rightarrow> u8 list" where
  "op_req_head_bytes h =
     le_bytes16 (rq_version h) @ le_bytes16 (rq_command_code h) @ le_bytes32 (rq_status h)"

record op_rep_head_t =
  rp_version :: u16
  rp_reply_code :: u16
  rp_status :: u32

definition op_rep_head_bytes :: "op_rep_head_t \<Rightarrow> u8 list" where
  "op_rep_head_bytes h =
     le_bytes16 (rp_version h) @ le_bytes16 (rp_reply_code h) @ le_bytes32 (rp_status h)"

record usbip_header_basic_t =
  hb_command :: u32
  hb_seqnum :: u32
  hb_devid :: u32
  hb_direction :: u32
  hb_ep :: u32

definition usbip_header_basic_of :: "u8 list \<Rightarrow> usbip_header_basic_t" where
  "usbip_header_basic_of bs =
     \<lparr>hb_command = u32_at bs 0, hb_seqnum = u32_at bs 4, hb_devid = u32_at bs 8,
      hb_direction = u32_at bs 12, hb_ep = u32_at bs 16\<rparr>"

definition usbip_header_basic_bytes :: "usbip_header_basic_t \<Rightarrow> u8 list" where
  "usbip_header_basic_bytes h =
     le_bytes32 (hb_command h) @ le_bytes32 (hb_seqnum h) @ le_bytes32 (hb_devid h) @
     le_bytes32 (hb_direction h) @ le_bytes32 (hb_ep h)"

record usbip_cmd_submit_t =
  cs_transfer_flags :: u32
  cs_transfer_buffer_length :: u32
  cs_start_frame :: u32
  cs_number_of_packets :: u32
  cs_interval :: u32
  cs_setup :: "u8 list"  \<comment> \<open>uint8_t setup[8]\<close>

definition usbip_cmd_submit_of :: "u8 list \<Rightarrow> usbip_cmd_submit_t" where
  "usbip_cmd_submit_of bs =
     \<lparr>cs_transfer_flags = u32_at bs 0, cs_transfer_buffer_length = u32_at bs 4,
      cs_start_frame = u32_at bs 8, cs_number_of_packets = u32_at bs 12,
      cs_interval = u32_at bs 16, cs_setup = segment bs 20 8\<rparr>"

definition usbip_cmd_submit_bytes :: "usbip_cmd_submit_t \<Rightarrow> u8 list" where
  "usbip_cmd_submit_bytes c =
     le_bytes32 (cs_transfer_flags c) @ le_bytes32 (cs_transfer_buffer_length c) @
     le_bytes32 (cs_start_frame c) @ le_bytes32 (cs_number_of_packets c) @
     le_bytes32 (cs_interval c) @ cs_setup c"

record usbip_ret_submit_t =
  rs_status :: u32
  rs_actual_length :: u32
  rs_start_frame :: u32
  rs_number_of_packets :: u32
  rs_error_count :: u32
  rs_padding :: u64

definition usbip_ret_submit_bytes :: "usbip_ret_submit_t \<Rightarrow> u8 list" where
  "usbip_ret_submit_bytes r =
     le_bytes32 (rs_status r) @ le_bytes32 (rs_actual_length r) @ le_bytes32 (rs_start_frame r) @
     le_bytes32 (rs_number_of_packets r) @ le_bytes32 (rs_error_count r) @ le_bytes64 (rs_padding r)"

record usbip_iso_packet_descriptor_t =
  ip_offset :: u32
  ip_length :: u32
  ip_actual_length :: u32
  ip_status :: u32

definition usbip_iso_packet_descriptor_of :: "u8 list \<Rightarrow> nat \<Rightarrow> usbip_iso_packet_descriptor_t" where
  "usbip_iso_packet_descriptor_of bs i =
     \<lparr>ip_offset = u32_at bs i, ip_length = u32_at bs (i + 4),
      ip_actual_length = u32_at bs (i + 8), ip_status = u32_at bs (i + 12)\<rparr>"

definition usbip_iso_packet_descriptor_bytes :: "usbip_iso_packet_descriptor_t \<Rightarrow> u8 list" where
  "usbip_iso_packet_descriptor_bytes p =
     le_bytes32 (ip_offset p) @ le_bytes32 (ip_length p) @
     le_bytes32 (ip_actual_length p) @ le_bytes32 (ip_status p)"

record usbip_cmd_unlink_t =
  cu_unlink_seqnum :: u32
  cu_padding :: "u8 list"  \<comment> \<open>uint8_t padding[24]\<close>

definition usbip_cmd_unlink_of :: "u8 list \<Rightarrow> usbip_cmd_unlink_t" where
  "usbip_cmd_unlink_of bs = \<lparr>cu_unlink_seqnum = u32_at bs 0, cu_padding = segment bs 4 24\<rparr>"

definition usbip_cmd_unlink_bytes :: "usbip_cmd_unlink_t \<Rightarrow> u8 list" where
  "usbip_cmd_unlink_bytes c = le_bytes32 (cu_unlink_seqnum c) @ cu_padding c"

record usbip_ret_unlink_t =
  ru_status :: u32
  ru_padding :: "u8 list"  \<comment> \<open>uint8_t padding[24]\<close>

definition usbip_ret_unlink_bytes :: "usbip_ret_unlink_t \<Rightarrow> u8 list" where
  "usbip_ret_unlink_bytes r = le_bytes32 (ru_status r) @ ru_padding r"

section \<open>Sizes of the structs\<close>

lemmas message_bytes_defs =
  usbip_device_id_bytes_def usbip_device_descriptor_bytes_def usbip_interface_descriptor_bytes_def
  op_req_head_bytes_def op_rep_head_bytes_def usbip_header_basic_bytes_def
  usbip_cmd_submit_bytes_def usbip_ret_submit_bytes_def usbip_iso_packet_descriptor_bytes_def
  usbip_cmd_unlink_bytes_def usbip_ret_unlink_bytes_def

lemmas message_of_defs =
  op_req_head_of_def usbip_header_basic_of_def usbip_cmd_submit_of_def
  usbip_iso_packet_descriptor_of_def usbip_cmd_unlink_of_def

lemma sizeof_messages [simp]:
  "length (usbip_device_descriptor_bytes a) = 12"
  "length (usbip_interface_descriptor_bytes b) = 4"
  "length (op_req_head_bytes c) = 8"
  "length (op_rep_head_bytes d) = 8"
  "length (usbip_header_basic_bytes e) = 20"
  "length (usbip_ret_submit_bytes f) = 28"
  "length (usbip_iso_packet_descriptor_bytes g) = 16"
  by (simp_all add: message_bytes_defs)

section \<open>Round trips\<close>

lemma op_req_head_of_bytes [wire_simps]: "op_req_head_of (op_req_head_bytes h) = h"
  by (simp add: op_req_head_of_def op_req_head_bytes_def)

lemma usbip_header_basic_of_bytes [wire_simps]:
  "usbip_header_basic_of (usbip_header_basic_bytes h) = h"
  by (simp add: usbip_header_basic_of_def usbip_header_basic_bytes_def)

lemma usbip_cmd_submit_of_bytes [wire_simps]:
  "length (cs_setup c) = 8 \<Longrightarrow> usbip_cmd_submit_of (usbip_cmd_submit_bytes c) = c"
  by (simp add: usbip_cmd_submit_of_def usbip_cmd_submit_bytes_def)

lemma usbip_cmd_unlink_of_bytes [wire_simps]:
  "length (cu_padding c) = 24 \<Longrightarrow> usbip_cmd_unlink_of (usbip_cmd_unlink_bytes c) = c"
  by (simp add: usbip_cmd_unlink_of_def usbip_cmd_unlink_bytes_def)

lemma usbip_iso_packet_descriptor_of_bytes [wire_simps]:
  "usbip_iso_packet_descriptor_of (usbip_iso_packet_descriptor_bytes p @ bs) 0 = p"
  by (simp add: usbip_iso_packet_descriptor_of_def usbip_iso_packet_descriptor_bytes_def)

lemma usbip_iso_packet_descriptor_of_append [wire_simps]:
  "length as \<le> i \<Longrightarrow>
   usbip_iso_packet_descriptor_of (as @ bs) i = usbip_iso_packet_descriptor_of bs (i - length as)"
  by (simp add: usbip_iso_packet_descriptor_of_def)

lemma length_cs_setup_of [simp]: "length bs = 28 \<Longrightarrow> length (cs_setup (usbip_cmd_submit_of bs)) = 8"
  by (simp add: usbip_cmd_submit_of_def)

lemma op_req_head_bytes_of: "length bs = 8 \<Longrightarrow> op_req_head_bytes (op_req_head_of bs) = bs"
  using segment_append_segment [of bs 0 2 2] segment_append_segment [of bs 0 4 4]
  by (simp add: op_req_head_of_def op_req_head_bytes_def flip: append_assoc numeral_2_eq_2)

lemma usbip_header_basic_bytes_of:
  "length bs = 20 \<Longrightarrow> usbip_header_basic_bytes (usbip_header_basic_of bs) = bs"
  using segment_append_segment [of bs 0 4 4] segment_append_segment [of bs 0 8 4]
    segment_append_segment [of bs 0 12 4] segment_append_segment [of bs 0 16 4]
  by (simp add: usbip_header_basic_of_def usbip_header_basic_bytes_def flip: append_assoc)

lemma usbip_cmd_submit_bytes_of:
  "length bs = 28 \<Longrightarrow> usbip_cmd_submit_bytes (usbip_cmd_submit_of bs) = bs"
  using segment_append_segment [of bs 0 4 4] segment_append_segment [of bs 0 8 4]
    segment_append_segment [of bs 0 12 4] segment_append_segment [of bs 0 16 4]
    segment_append_segment [of bs 0 20 8]
  by (simp add: usbip_cmd_submit_of_def usbip_cmd_submit_bytes_def flip: append_assoc)

lemma usbip_cmd_unlink_bytes_of:
  "length bs = 28 \<Longrightarrow> usbip_cmd_unlink_bytes (usbip_cmd_unlink_of bs) = bs"
  using segment_append_segment [of bs 0 4 24]
  by (simp add: usbip_cmd_unlink_of_def usbip_cmd_unlink_bytes_def)

end
