(* ===== verification/Tcpip.thy ===== *)
theory Tcpip
  imports Prelude
begin

text \<open>
  The TCP connection of the server, \<open>src/lib/tcpip_server.c\<close>. The record \<open>net\<close> holds the file's
  static variables and, for the operating system behind them, scripts of the results its calls will
  give: an environment that answers each \<open>read\<close>, \<open>write\<close>, \<open>ppoll\<close>, \<open>select\<close> and \<open>accept\<close> as
  the scripts say. \<open>sent\<close> collects what the current client's socket has accepted.

  A \<open>Rd_data\<close> entry is a run of bytes that arrives together; a \<open>read\<close> takes as much of it as it
  asked for. \<open>Rd_stop\<close> and \<open>Wr_stop\<close> are a \<open>tcpip_server_stop\<close> of another thread or of the signal
  handler, seen by the next loop test. The end of file of a closed connection stays. When the
  script of the reads is used up the client stays silent, and the loop of \<open>tcpip_server_read\<close>, which
  treats a receive timeout as nothing at all, does not return.
\<close>

section \<open>State\<close>

datatype rd_event =
    Rd_data "u8 list"
  | Rd_eagain
  | Rd_eintr
  | Rd_error
  | Rd_eof
  | Rd_stop

datatype wr_event =
    Wr_accept nat
  | Wr_eagain
  | Wr_error
  | Wr_stop

record accept_event =
  ae_select :: int
  ae_accept :: int
  ae_rd :: "rd_event list"
  ae_wr :: "wr_event list"
  ae_poll :: "(int \<times> u16) list"

record net =
  server_socket :: int
  client_socket :: int
  stop_server :: bool
  rd_script :: "rd_event list"
  wr_script :: "wr_event list"
  poll_script :: "(int \<times> u16) list"  \<comment> \<open>result of \<open>ppoll\<close>, \<open>fds[0].revents\<close>\<close>
  accept_script :: "accept_event list"
  sent :: "u8 list"

section \<open>Opening and closing\<close>

text \<open>What \<open>socket\<close>, \<open>inet_pton\<close>, \<open>bind\<close> and \<open>listen\<close> return.\<close>

record open_results =
  or_socket :: int
  or_inet_pton :: int
  or_bind :: int
  or_listen :: int

definition tcpip_server_close :: "net \<Rightarrow> net" where
  "tcpip_server_close n =
     (if server_socket n \<ge> 0 then n\<lparr>server_socket := -1\<rparr> else n)"

definition tcpip_server_open :: "open_results \<Rightarrow> net \<Rightarrow> bool \<times> net" where
  "tcpip_server_open r n =
     (let n = n\<lparr>server_socket := or_socket r\<rparr> in
      if server_socket n < 0 then (False, n)
      else if or_inet_pton r \<noteq> 1 then (False, tcpip_server_close n)
      else if or_bind r < 0 then (False, tcpip_server_close n)
      else if or_listen r < 0 then (False, tcpip_server_close n)
      else (True, n))"

definition tcpip_server_stop :: "net \<Rightarrow> net" where
  "tcpip_server_stop n = n\<lparr>stop_server := True\<rparr>"

definition tcpip_server_close_client :: "net \<Rightarrow> net" where
  "tcpip_server_close_client n =
     (if client_socket n \<ge> 0 then n\<lparr>client_socket := -1\<rparr> else n)"

text \<open>
  A new connection brings its own scripts. An empty \<open>accept_script\<close> is a \<open>select\<close> that times out.
\<close>

definition tcpip_server_wait_for_client :: "net \<Rightarrow> bool \<times> net" where
  "tcpip_server_wait_for_client n =
     (case accept_script n of
        [] \<Rightarrow> (False, n)
      | e # es \<Rightarrow>
          let n = n\<lparr>accept_script := es\<rparr> in
          if ae_select e > 0 then
            (let n = n\<lparr>client_socket := ae_accept e\<rparr> in
             if client_socket n > 0
             then (True, n\<lparr>rd_script := ae_rd e, wr_script := ae_wr e, poll_script := ae_poll e,
                           sent := []\<rparr>)
             else (False, n))
          else (False, n))"

section \<open>Waiting, reading and writing\<close>

text \<open>The \<open>struct timespec\<close> given to \<open>ppoll\<close>, as seconds and nanoseconds.\<close>

definition wait_timespec :: "u64 \<Rightarrow> u64 \<times> u64" where
  "wait_timespec timeout_us = (timeout_us div 1000000, (timeout_us mod 1000000) * 1000)"

definition tcpip_server_wait_for_data :: "net \<Rightarrow> bool \<times> net" where
  "tcpip_server_wait_for_data n =
     (if stop_server n then (False, n)
      else case poll_script n of
        [] \<Rightarrow> (False, n)
      | (result, revents) # ps \<Rightarrow>
          (let n = n\<lparr>poll_script := ps\<rparr> in
           if result \<le> 0 then (False, n) else (revents \<noteq> 0, n)))"

text \<open>
  The loop of \<open>tcpip_server_read\<close>: \<open>acc\<close> holds the \<open>length\<close> bytes read so far, \<open>k\<close> is
  \<open>read_size - length\<close>. The result is the returned \<open>bool\<close>, the bytes now in the buffer, and
  what is left of the stop flag and the script.
\<close>

fun read_loop :: "bool \<Rightarrow> rd_event list \<Rightarrow> nat \<Rightarrow> u8 list \<Rightarrow> (bool \<times> u8 list \<times> bool \<times> rd_event list) res" where
  "read_loop stop es 0 acc = Done (True, acc, stop, es)"
| "read_loop True es (Suc k) acc = Done (False, acc, True, es)"
| "read_loop False [] (Suc k) acc = NoReturn"
| "read_loop False (Rd_stop # es) (Suc k) acc = Done (False, acc, True, es)"
| "read_loop False (Rd_eagain # es) (Suc k) acc = read_loop False es (Suc k) acc"
| "read_loop False (Rd_eintr # es) (Suc k) acc = read_loop False es (Suc k) acc"
| "read_loop False (Rd_error # es) (Suc k) acc = Done (False, acc, False, es)"
| "read_loop False (Rd_eof # es) (Suc k) acc = Done (False, acc, False, Rd_eof # es)"
| "read_loop False (Rd_data bs # es) (Suc k) acc =
     (if bs = [] then read_loop False es (Suc k) acc
      else if length bs \<le> Suc k then read_loop False es (Suc k - length bs) (acc @ bs)
      else Done (True, acc @ take (Suc k) bs, False, Rd_data (drop (Suc k) bs) # es))"

definition tcpip_server_read :: "nat \<Rightarrow> net \<Rightarrow> (bool \<times> u8 list \<times> net) res" where
  "tcpip_server_read read_size n =
     bind_res (read_loop (stop_server n) (rd_script n) read_size [])
       (\<lambda>(status, bytes, stop, es). Done (status, bytes, n\<lparr>stop_server := stop, rd_script := es\<rparr>))"

text \<open>
  The loop of \<open>tcpip_server_write\<close> over the bytes still to write. When the script is used up the
  socket accepts everything.
\<close>

fun write_loop :: "bool \<Rightarrow> wr_event list \<Rightarrow> u8 list \<Rightarrow> u8 list \<Rightarrow> bool \<times> u8 list \<times> bool \<times> wr_event list" where
  "write_loop stop es [] out = (True, out, stop, es)"
| "write_loop True es (b # bs) out = (False, out, True, es)"
| "write_loop False [] (b # bs) out = (True, out @ (b # bs), False, [])"
| "write_loop False (Wr_stop # es) (b # bs) out = (False, out, True, es)"
| "write_loop False (Wr_eagain # es) (b # bs) out = (False, out, False, es)"
| "write_loop False (Wr_error # es) (b # bs) out = (False, out, False, es)"
| "write_loop False (Wr_accept m # es) (b # bs) out =
     (if m = 0 then (False, out, False, es)
      else write_loop False es (drop m (b # bs)) (out @ take m (b # bs)))"

definition tcpip_server_write :: "u8 list \<Rightarrow> net \<Rightarrow> bool \<times> net" where
  "tcpip_server_write bytes n =
     (case write_loop (stop_server n) (wr_script n) bytes (sent n) of
        (status, out, stop, es) \<Rightarrow> (status, n\<lparr>stop_server := stop, wr_script := es, sent := out\<rparr>))"

section \<open>The byte streams behind the scripts\<close>

text \<open>
  \<open>arriving\<close> is what the client will have delivered when the connection ends or falls silent, and
  \<open>silent\<close> says that the connection does not end: the script only holds data and timeouts.
\<close>

fun arriving :: "rd_event list \<Rightarrow> u8 list" where
  "arriving [] = []"
| "arriving (Rd_data bs # es) = bs @ arriving es"
| "arriving (Rd_eagain # es) = arriving es"
| "arriving (Rd_eintr # es) = arriving es"
| "arriving (Rd_error # es) = []"
| "arriving (Rd_eof # es) = []"
| "arriving (Rd_stop # es) = []"

fun silent :: "rd_event list \<Rightarrow> bool" where
  "silent [] = True"
| "silent (Rd_data bs # es) = silent es"
| "silent (Rd_eagain # es) = silent es"
| "silent (Rd_eintr # es) = silent es"
| "silent (Rd_error # es) = False"
| "silent (Rd_eof # es) = False"
| "silent (Rd_stop # es) = False"

definition input :: "net \<Rightarrow> u8 list" where
  "input n = (if stop_server n then [] else arriving (rd_script n))"

lemma read_loop_True:
  "read_loop stop es k acc = Done (True, bs, stop', es') \<Longrightarrow>
   (if stop then k = 0 \<and> bs = acc \<and> stop' \<and> es' = es
    else \<not> stop' \<and> k \<le> length (arriving es) \<and> bs = acc @ take k (arriving es) \<and>
      arriving es' = drop k (arriving es) \<and> silent es' = silent es)"
proof (induction stop es k acc rule: read_loop.induct)
  case (9 bs es k acc)
  then show ?case by (auto split: if_splits)
qed auto

lemma read_loop_False:
  "read_loop stop es k acc = Done (False, bs, stop', es') \<Longrightarrow>
   (if stop then 0 < k \<and> bs = acc \<and> stop'
    else length (arriving es) < k \<and> bs = acc @ arriving es \<and> \<not> silent es)"
proof (induction stop es k acc rule: read_loop.induct)
  case (9 bs es k acc)
  then show ?case by (auto split: if_splits)
qed auto

lemma read_loop_NoReturn_iff:
  "read_loop stop es k acc = NoReturn \<longleftrightarrow> \<not> stop \<and> length (arriving es) < k \<and> silent es"
proof (induction stop es k acc rule: read_loop.induct)
  case (9 bs es k acc)
  then show ?case by auto
qed auto

lemma read_loop_no_Fault: "read_loop stop es k acc \<noteq> Fault"
proof (induction stop es k acc rule: read_loop.induct)
  case (9 bs es k acc)
  then show ?case by auto
qed auto

lemma read_loop_eof:
  "read_loop stop es k acc = Done (st, bs, stop', es') \<Longrightarrow> Rd_eof \<in> set es \<Longrightarrow> stop' \<or> Rd_eof \<in> set es' \<or> \<not> st"
proof (induction stop es k acc rule: read_loop.induct)
  case (9 bs es k acc)
  then show ?case by (auto split: if_splits)
qed auto

lemma write_loop_spec:
  "write_loop stop es bs out = (st, out', stop', es') \<Longrightarrow>
   \<exists>k \<le> length bs. out' = out @ take k bs \<and> (st \<longleftrightarrow> k = length bs) \<and> (stop \<longrightarrow> stop')"
proof (induction stop es bs out rule: write_loop.induct)
  case (7 m es b bs out)
  show ?case
  proof (cases "m = 0")
    case True
    with "7.prems" show ?thesis by (intro exI [of _ 0]) auto
  next
    case False
    with "7.prems" have "write_loop False es (drop m (b # bs)) (out @ take m (b # bs)) = (st, out', stop', es')"
      by simp
    from "7.IH" [OF False this] obtain k where k: "k \<le> length (drop m (b # bs))"
      "out' = (out @ take m (b # bs)) @ take k (drop m (b # bs))" "st \<longleftrightarrow> k = length (drop m (b # bs))"
      by auto
    let ?k = "min m (length (b # bs)) + k"
    have "out' = out @ take ?k (b # bs)"
      using k(2) by (simp add: take_add min_def flip: append_assoc) 
    moreover have "?k \<le> length (b # bs)" "st \<longleftrightarrow> ?k = length (b # bs)"
      using k(1,3) by (auto simp: min_def)
    ultimately show ?thesis by auto
  qed
qed (auto intro: exI [of _ 0])

section \<open>The contract of the transport\<close>

text \<open>
  \<open>and_then r f\<close> is the idiom \<^verbatim>\<open>if (status) { status = f(...); }\<close> of the callers.
\<close>

fun and_then :: "bool \<times> 's \<Rightarrow> ('s \<Rightarrow> bool \<times> 's) \<Rightarrow> bool \<times> 's" where
  "and_then (status, s) f = (if status then f s else (False, s))"

text \<open>
  What the protocol layer relies on: a successful read returns exactly the next bytes of the input
  and leaves the rest, a read never faults, a successful write appends exactly its bytes to the
  output and a failed one a part of them. The parameters are the two operations and, of a state,
  the input still to be read and the output written so far.
\<close>

locale transport =
  fixes rd :: "nat \<Rightarrow> 'n \<Rightarrow> (bool \<times> u8 list \<times> 'n) res"
    and wr :: "u8 list \<Rightarrow> 'n \<Rightarrow> bool \<times> 'n"
    and inp :: "'n \<Rightarrow> u8 list"
    and outp :: "'n \<Rightarrow> u8 list"
  assumes rd_True: "rd k n = Done (True, bs, n') \<Longrightarrow>
      k \<le> length (inp n) \<and> bs = take k (inp n) \<and> inp n' = drop k (inp n)"
    and rd_outp: "rd k n = Done (st, bs, n') \<Longrightarrow> outp n' = outp n"
    and rd_False: "rd k n = Done (False, bs, n') \<Longrightarrow> length (inp n) < k \<and> bs = inp n"
    and rd_no_Fault: "rd k n \<noteq> Fault"
    and wr_outp: "wr bs n = (st, n') \<Longrightarrow>
      \<exists>j \<le> length bs. outp n' = outp n @ take j bs \<and> (st \<longleftrightarrow> j = length bs)"
    and wr_inp: "wr bs n = (True, n') \<Longrightarrow> inp n' = inp n"
begin

lemma rd_length: "rd k n = Done (st, bs, n') \<Longrightarrow> length bs \<le> k \<and> (st \<longrightarrow> length bs = k)"
  by (cases st) (auto dest: rd_True rd_False)

lemma rd_safe: "safe (\<lambda>(st, bs, n'). length bs \<le> k \<and> (st \<longrightarrow> length bs = k) \<and> outp n' = outp n) (rd k n)"
  using rd_no_Fault [of k n] rd_length [of k n] rd_outp [of k n]
  by (cases "rd k n") auto

lemma wr_True: "wr bs n = (True, n') \<Longrightarrow> outp n' = outp n @ bs \<and> inp n' = inp n"
  using wr_outp [of bs n True n'] wr_inp [of bs n n'] by auto

lemma wr_prefix: "\<exists>j \<le> length bs. outp (snd (wr bs n)) = outp n @ take j bs"
  using wr_outp [of bs n "fst (wr bs n)" "snd (wr bs n)"] by auto

text \<open>Two reads in a row take consecutive parts of the input: message framing.\<close>

lemma rd_rd:
  assumes "rd k n = Done (True, bs, n1)" and "rd m n1 = Done (True, cs, n2)"
  shows "bs @ cs = take (k + m) (inp n) \<and> inp n2 = drop (k + m) (inp n)"
  using rd_True [OF assms(1)] rd_True [OF assms(2)] by (simp add: take_add add.commute)

text \<open>A message written in parts reaches the client whole, or the status is false.\<close>

lemma wr_wr_True:
  assumes "and_then (wr as n) (wr bs) = (True, n')"
  shows "outp n' = outp n @ as @ bs \<and> inp n' = inp n"
proof -
  obtain st n1 where 1: "wr as n = (st, n1)" by (cases "wr as n")
  with assms have "st" "wr bs n1 = (True, n')" by (auto split: if_splits)
  with 1 show ?thesis using wr_True [of as n n1] wr_True [of bs n1 n'] by simp
qed

lemma wr_wr_prefix: "\<exists>j \<le> length (as @ bs). outp (snd (and_then (wr as n) (wr bs))) = outp n @ take j (as @ bs)"
proof -
  obtain st n1 where 1: "wr as n = (st, n1)" by (cases "wr as n")
  show ?thesis
  proof (cases st)
    case False
    obtain j where "j \<le> length as" "outp (snd (wr as n)) = outp n @ take j as"
      using wr_prefix by blast
    with 1 False show ?thesis by (intro exI [of _ j]) simp
  next
    case True
    then have "outp n1 = outp n @ as" using 1 wr_True [of as n n1] by simp
    moreover obtain j where "j \<le> length bs" "outp (snd (wr bs n1)) = outp n1 @ take j bs"
      using wr_prefix by blast
    ultimately show ?thesis using 1 True by (intro exI [of _ "length as + j"]) simp
  qed
qed

end

lemma tcpip_server_read_True:
  "tcpip_server_read k n = Done (True, bs, n') \<Longrightarrow>
   k \<le> length (input n) \<and> bs = take k (input n) \<and> input n' = drop k (input n)"
  by (auto simp: tcpip_server_read_def input_def res_simps dest!: read_loop_True split: if_splits)

lemma tcpip_server_read_False:
  "tcpip_server_read k n = Done (False, bs, n') \<Longrightarrow> length (input n) < k \<and> bs = input n"
  by (auto simp: tcpip_server_read_def input_def res_simps dest!: read_loop_False split: if_splits)

lemma tcpip_server_write_spec:
  "tcpip_server_write bs n = (st, n') \<Longrightarrow>
   \<exists>j \<le> length bs. sent n' = sent n @ take j bs \<and> (st \<longleftrightarrow> j = length bs)"
  by (auto simp: tcpip_server_write_def split: prod.splits dest!: write_loop_spec)

lemma write_loop_True_stop:
  "write_loop stop es bs out = (True, out', stop', es') \<Longrightarrow> stop' = stop"
  by (induction stop es bs out rule: write_loop.induct) (auto split: if_splits)

interpretation tcp: transport tcpip_server_read tcpip_server_write input sent
proof
  show "tcpip_server_read k n = Done (st, bs, n') \<Longrightarrow> sent n' = sent n" for k n st bs n'
    by (auto simp: tcpip_server_read_def res_simps)
  show "tcpip_server_read k n \<noteq> Fault" for k n
    by (auto simp: tcpip_server_read_def res_simps read_loop_no_Fault)
  show "tcpip_server_write bs n = (True, n') \<Longrightarrow> input n' = input n" for bs n n'
    by (auto simp: tcpip_server_write_def input_def split: prod.splits dest!: write_loop_True_stop)
qed (fact tcpip_server_read_True tcpip_server_read_False tcpip_server_write_spec)+

section \<open>Properties\<close>

lemma tcpip_server_read_NoReturn_iff:
  "tcpip_server_read k n = NoReturn \<longleftrightarrow>
   \<not> stop_server n \<and> length (input n) < k \<and> silent (rd_script n)"
proof -
  have "tcpip_server_read k n = NoReturn \<longleftrightarrow> read_loop (stop_server n) (rd_script n) k [] = NoReturn"
    by (cases "read_loop (stop_server n) (rd_script n) k []")
      (auto simp: tcpip_server_read_def split: prod.splits)
  then show ?thesis by (auto simp: read_loop_NoReturn_iff input_def)
qed

lemma tcpip_server_read_Done:
  "tcpip_server_read k n \<noteq> NoReturn \<Longrightarrow>
   \<exists>n'. tcpip_server_read k n = Done (k \<le> length (input n), take k (input n), n') \<and>
      (k \<le> length (input n) \<longrightarrow> input n' = drop k (input n)) \<and> sent n' = sent n"
proof (cases "tcpip_server_read k n")
  case (Done x)
  then obtain st bs n' where "tcpip_server_read k n = Done (st, bs, n')" by (cases x) auto
  then show ?thesis
    using tcp.rd_True [of k n bs n'] tcp.rd_False [of k n bs n'] tcp.rd_outp [of k n st bs n']
    by (cases st) auto
qed (simp_all add: tcp.rd_no_Fault)

text \<open>
  C30. \<open>tcpip_server_read\<close> reads exactly \<open>k\<close> bytes: whatever the segments, timeouts and
  interrupted calls the bytes arrive in, it returns true with the next \<open>k\<close> bytes of the stream and
  leaves the rest unread. It returns false only when the connection ended or the server was stopped
  before \<open>k\<close> bytes arrived, and it never gives up on a client that is only silent.
\<close>

theorem tcpip_server_read_exact:
  "(k \<le> length (input n) \<longrightarrow>
      (\<exists>n'. tcpip_server_read k n = Done (True, take k (input n), n') \<and>
         input n' = drop k (input n) \<and> sent n' = sent n)) \<and>
   (length (input n) < k \<and> (stop_server n \<or> \<not> silent (rd_script n)) \<longrightarrow>
      (\<exists>n'. tcpip_server_read k n = Done (False, input n, n'))) \<and>
   (length (input n) < k \<and> \<not> stop_server n \<and> silent (rd_script n) \<longrightarrow>
      tcpip_server_read k n = NoReturn)"
  using tcpip_server_read_NoReturn_iff [of k n] tcpip_server_read_Done [of k n]
  by auto

theorem tcpip_server_read_exact_witness:
  "\<exists>n'. tcpip_server_read 3 \<lparr>server_socket = 3, client_socket = 4, stop_server = False,
       rd_script = [Rd_data [1, 2], Rd_eagain, Rd_data [3, 4], Rd_eof], wr_script = [], poll_script = [],
       accept_script = [], sent = []\<rparr> = Done (True, [1, 2, 3], n') \<and> input n' = [4]"
proof -
  let ?n = "\<lparr>server_socket = 3, client_socket = 4, stop_server = False,
       rd_script = [Rd_data [1, 2], Rd_eagain, Rd_data [3, 4], Rd_eof], wr_script = [], poll_script = [],
       accept_script = [], sent = []\<rparr>"
  have "input ?n = [1, 2, 3, 4]" by (simp add: input_def)
  then show ?thesis using tcpip_server_read_exact [of 3 ?n] by (auto simp: eval_nat_numeral)
qed

text \<open>
  C31. \<open>tcpip_server_write\<close> appends a part of its bytes to the stream to the client, in order, and
  returns true exactly when that part is all of them, however the socket splits the write.
\<close>

theorem tcpip_server_write_prefix:
  "\<exists>st n' j. tcpip_server_write bs n = (st, n') \<and> j \<le> length bs \<and>
     sent n' = sent n @ take j bs \<and> (st \<longleftrightarrow> j = length bs)"
  using tcpip_server_write_spec [of bs n] by (cases "tcpip_server_write bs n") blast

text \<open>
  The timeout of \<open>tcpip_server_wait_for_data\<close> keeps its value as a \<open>struct timespec\<close>: the
  nanoseconds are in range and seconds and nanoseconds add up to the microseconds asked for.
\<close>

lemma wait_timespec_exact:
  "case wait_timespec t of (tv_sec, tv_nsec) \<Rightarrow>
     unat tv_nsec < 1000000000 \<and> unat tv_sec * 1000000000 + unat tv_nsec = unat t * 1000"
proof -
  have m: "unat (t mod 1000000) = unat t mod 1000000" and d: "unat (t div 1000000) = unat t div 1000000"
    by (simp_all add: unat_mod_distrib unat_div_distrib)
  have "unat t mod 1000000 * 1000 < 2 ^ 64"
    using mod_less_divisor [of 1000000 "unat t"] by simp
  then have n: "unat ((t mod 1000000) * 1000) = unat t mod 1000000 * 1000"
    by (simp add: unat_word_ariths m)
  have "unat t div 1000000 * 1000000000 + unat t mod 1000000 * 1000 = unat t * 1000"
    using div_mult_mod_eq [of "unat t" 1000000] by linarith
  moreover have "unat t mod 1000000 < 1000000" by simp
  ultimately show ?thesis by (simp add: wait_timespec_def n d)
qed

end
