(* ===== verification/Device.thy ===== *)
theory Device
  imports Prelude
begin

text \<open>
  The device side of the server, \<open>src/lib/usbip_device.c\<close>: the endpoint buffers, the calls into the
  device's callbacks and the standard control requests. The record \<open>device\<close> holds the file's static
  variables (the counter of the event file descriptor stands for \<open>ep_data_event_fd\<close>) and, as
  \<open>app\<close>, the variables of the device program behind the callbacks. The two thread local flags only
  matter to \<open>usbip_device_transmit\<close>, where they are the argument \<open>may_wait\<close>; everything the server
  thread calls, the callbacks included, runs with \<open>may_wait = False\<close>. Messages printed on the
  terminal are left out.
\<close>

section \<open>State\<close>

abbreviation (input) NUMBER_OF_ENDPOINTS :: nat where "NUMBER_OF_ENDPOINTS \<equiv> 16"
abbreviation (input) ENDPOINT_MAX_DATA_LENGTH :: nat where "ENDPOINT_MAX_DATA_LENGTH \<equiv> 512"

record device_endpoint_data_t =
  ep_data :: "u8 list"  \<comment> \<open>uint8_t data[ENDPOINT_MAX_DATA_LENGTH]\<close>
  ep_data_length :: nat

record 'd device =
  device_stopped :: bool
  endpoint_data :: "device_endpoint_data_t list"
  ep_data_event :: u64
  configuration_value :: u8
  control_answered :: bool
  reset_generation :: u32
  app :: 'd

text \<open>
  \<open>usbip_device_t\<close> of \<open>include/usbip_server_api.h\<close>. The descriptors are the bytes behind the
  pointers, a callback that may be \<open>NULL\<close> is an option, an optional string is a \<open>const char *\<close>. A
  callback receives the bytes behind its data pointer and their length as the C function does. The
  isochronous callback returns its result and the bytes it wrote to the buffer.
\<close>

record 'd usbip_device_t =
  device_desc :: "u8 list"
  config_desc :: "u8 list"
  langid_desc :: "u8 list"
  usb_strings :: "(u8 \<times> string option) list option"
  control_data_callback :: "u8 list \<Rightarrow> u8 list \<Rightarrow> nat \<Rightarrow> 'd device \<Rightarrow> 'd device res"
  ep_data_callback :: "(u8 \<Rightarrow> u8 list \<Rightarrow> nat \<Rightarrow> 'd device \<Rightarrow> 'd device res) option"
  reset_callback :: "('d device \<Rightarrow> 'd device res) option"
  iso_in_callback :: "(u8 \<Rightarrow> nat \<Rightarrow> 'd device \<Rightarrow> (nat \<times> u8 list \<times> 'd device) res) option"

text \<open>The static initialisers; \<open>usbip_device_init\<close> creates the event descriptor with counter 0.\<close>

definition init_device :: "'d \<Rightarrow> 'd device" where
  "init_device a =
     \<lparr>device_stopped = False,
      endpoint_data = replicate NUMBER_OF_ENDPOINTS
        \<lparr>ep_data = replicate ENDPOINT_MAX_DATA_LENGTH 0, ep_data_length = 0\<rparr>,
      ep_data_event = 0, configuration_value = 0, control_answered = False,
      reset_generation = 0, app = a\<rparr>"

section \<open>The event file descriptor\<close>

text \<open>A \<open>write\<close> of 1 fails when the counter is at its maximum; a \<open>read\<close> takes the counter back to 0.\<close>

definition event_write :: "'d device \<Rightarrow> 'd device" where
  "event_write d =
     (if ep_data_event d < 0xfffffffffffffffe then d\<lparr>ep_data_event := ep_data_event d + 1\<rparr> else d)"

definition usbip_device_clear_event :: "'d device \<Rightarrow> 'd device" where
  "usbip_device_clear_event d = d\<lparr>ep_data_event := 0\<rparr>"

section \<open>Reset, stop and the device callbacks\<close>

definition clear_endpoint_data :: "'d device \<Rightarrow> 'd device" where
  "clear_endpoint_data d =
     d\<lparr>endpoint_data := map (\<lambda>e. e\<lparr>ep_data_length := 0\<rparr>) (endpoint_data d)\<rparr>"

definition usbip_device_reset :: "'d usbip_device_t \<Rightarrow> 'd device \<Rightarrow> 'd device res" where
  "usbip_device_reset usb_device d =
     (let d = clear_endpoint_data d;
          d = d\<lparr>configuration_value := 0, control_answered := False,
                reset_generation := reset_generation d + 1\<rparr>;
          d = usbip_device_clear_event d
      in case reset_callback usb_device of None \<Rightarrow> Done d | Some callback \<Rightarrow> callback d)"

definition usbip_device_stop :: "'d device \<Rightarrow> 'd device" where
  "usbip_device_stop d = clear_endpoint_data (d\<lparr>device_stopped := True\<rparr>)"

text \<open>The caller checks that the callback is set; a call through \<open>NULL\<close> is a fault.\<close>

definition usbip_device_receive ::
  "'d usbip_device_t \<Rightarrow> u8 \<Rightarrow> u8 list \<Rightarrow> nat \<Rightarrow> 'd device \<Rightarrow> 'd device res" where
  "usbip_device_receive usb_device ep data data_length d =
     (case ep_data_callback usb_device of
        None \<Rightarrow> Fault
      | Some callback \<Rightarrow> callback ep data data_length d)"

text \<open>The bytes are those the callback wrote at the start of the buffer.\<close>

definition usbip_device_iso_in ::
  "'d usbip_device_t \<Rightarrow> u8 \<Rightarrow> nat \<Rightarrow> 'd device \<Rightarrow> (nat \<times> u8 list \<times> 'd device) res" where
  "usbip_device_iso_in usb_device ep max_length d =
     bind_res
       (case iso_in_callback usb_device of
          None \<Rightarrow> Done (0, [], d)
        | Some callback \<Rightarrow> callback ep max_length d)
       (\<lambda>(len, bytes, d). Done (if len < max_length then len else max_length, bytes, d))"

section \<open>Transmitting\<close>

text \<open>
  \<open>usbip_device_transmit\<close> holds the mutex from its first look at the endpoint to its last, except
  inside \<open>pthread_cond_wait\<close>. \<open>transmit_attempt\<close> is one such stretch, up to the return or to the
  next wait; \<open>generation\<close> is the value of \<open>reset_generation\<close> when the call began.
\<close>

datatype transmit_result = Tr_wait | Tr_return bool

definition transmit_store ::
  "nat \<Rightarrow> u8 list \<Rightarrow> nat \<Rightarrow> 'd device \<Rightarrow> (transmit_result \<times> 'd device) res" where
  "transmit_store ep_masked data data_length d =
     (let e = endpoint_data d ! ep_masked in
      bind_res
        (if data_length > 0
         then bind_res (read_mem data 0 data_length) (\<lambda>bytes. write_mem (ep_data e) 0 bytes)
         else Done (ep_data e))
        (\<lambda>bytes.
           let e = e\<lparr>ep_data := bytes, ep_data_length := data_length\<rparr>;
               d = d\<lparr>endpoint_data := (endpoint_data d)[ep_masked := e],
                     control_answered := (if ep_masked = 0 then True else control_answered d)\<rparr>
           in Done (Tr_return True, d)))"

definition transmit_attempt ::
  "bool \<Rightarrow> u32 \<Rightarrow> u8 \<Rightarrow> u8 list \<Rightarrow> nat \<Rightarrow> 'd device \<Rightarrow> (transmit_result \<times> 'd device) res" where
  "transmit_attempt may_wait generation ep data data_length d =
     (let ep_masked = unat (ep AND 0xf);
          data_length = (if data_length > ENDPOINT_MAX_DATA_LENGTH then ENDPOINT_MAX_DATA_LENGTH
                         else data_length);
          replace = (ep_masked = 0);
          unread = ep_data_length (endpoint_data d ! ep_masked)
      in
      if \<not> replace \<and> may_wait \<and> \<not> device_stopped d \<and> unread > 0 then Done (Tr_wait, d)
      else
        let stopped = device_stopped d;
            was_reset = (generation \<noteq> reset_generation d)
        in
        if \<not> stopped \<and> \<not> was_reset \<and> (replace \<or> unread = 0)
        then transmit_store ep_masked data data_length d
        else Done (Tr_return False, d))"

text \<open>What the call does after it has unlocked the mutex: a stored transfer wakes the server thread.\<close>

definition transmit_finish :: "u8 \<Rightarrow> transmit_result \<Rightarrow> 'd device \<Rightarrow> bool \<times> 'd device" where
  "transmit_finish ep r d =
     (let stored = (r = Tr_return True)
      in (stored, if stored \<and> unat (ep AND 0xf) \<noteq> 0 then event_write d else d))"

text \<open>The call as made on the server thread or in a critical section, where it never waits.\<close>

definition usbip_device_transmit ::
  "u8 \<Rightarrow> u8 list \<Rightarrow> nat \<Rightarrow> 'd device \<Rightarrow> (bool \<times> 'd device) res" where
  "usbip_device_transmit ep data data_length d =
     bind_res (transmit_attempt False (reset_generation d) ep data data_length d)
       (\<lambda>(r, d). Done (transmit_finish ep r d))"

section \<open>Fetching\<close>

text \<open>\<open>buffer\<close> is the whole object behind the pointer; the result has its new contents.\<close>

definition usbip_device_fetch_ep_data ::
  "u8 \<Rightarrow> u8 list \<Rightarrow> nat \<Rightarrow> 'd device \<Rightarrow> (nat \<times> u8 list \<times> 'd device) res" where
  "usbip_device_fetch_ep_data ep buffer max_length d =
     (let ep_masked = unat (ep AND 0xf);
          e = endpoint_data d ! ep_masked;
          available = ep_data_length e;
          len = (if max_length < available then max_length else available);
          remaining = available - len
      in
      bind_res (read_mem (ep_data e) 0 len) (\<lambda>bytes.
      bind_res (write_mem buffer 0 bytes) (\<lambda>buffer.
        let remaining = (if ep_masked = 0 then 0 else remaining) in
        bind_res (read_mem (ep_data e) len remaining) (\<lambda>rest.
        bind_res (write_mem (ep_data e) 0 rest) (\<lambda>data.
          Done (len, buffer,
                d\<lparr>endpoint_data := (endpoint_data d)[ep_masked :=
                     e\<lparr>ep_data := data, ep_data_length := remaining\<rparr>]\<rparr>))))))"

definition usbip_device_fetch_control_reply ::
  "u8 list \<Rightarrow> nat \<Rightarrow> 'd device \<Rightarrow> (bool \<times> nat \<times> u8 list \<times> 'd device) res" where
  "usbip_device_fetch_control_reply buffer max_length d =
     (let answered = control_answered d;
          d = d\<lparr>control_answered := False\<rparr>
      in bind_res (usbip_device_fetch_ep_data 0 buffer max_length d)
           (\<lambda>(len, buffer, d). Done (answered, len, buffer, d)))"

section \<open>Control requests\<close>

abbreviation (input) USB_DESCRIPTOR_TYPE_DEVICE :: u8 where "USB_DESCRIPTOR_TYPE_DEVICE \<equiv> 0x01"
abbreviation (input) USB_DESCRIPTOR_TYPE_CONFIGURATION :: u8 where "USB_DESCRIPTOR_TYPE_CONFIGURATION \<equiv> 0x02"
abbreviation (input) USB_DESCRIPTOR_TYPE_STRING :: u8 where "USB_DESCRIPTOR_TYPE_STRING \<equiv> 0x03"
abbreviation (input) USB_DESCRIPTOR_TYPE_INTERFACE :: u8 where "USB_DESCRIPTOR_TYPE_INTERFACE \<equiv> 0x04"
abbreviation (input) USB_DESCRIPTOR_TYPE_ENDPOINT :: u8 where "USB_DESCRIPTOR_TYPE_ENDPOINT \<equiv> 0x05"
abbreviation (input) USB_DESCRIPTOR_TYPE_DEVICE_QUALIFIER :: u8 where
  "USB_DESCRIPTOR_TYPE_DEVICE_QUALIFIER \<equiv> 0x06"
abbreviation (input) USB_DESCRIPTOR_TYPE_OTHER_SPEED_CONFIGURATION :: u8 where
  "USB_DESCRIPTOR_TYPE_OTHER_SPEED_CONFIGURATION \<equiv> 0x07"
abbreviation (input) USB_DESCRIPTOR_TYPE_HID :: u8 where "USB_DESCRIPTOR_TYPE_HID \<equiv> 0x21"
abbreviation (input) USB_DESCRIPTOR_TYPE_REPORT :: u8 where "USB_DESCRIPTOR_TYPE_REPORT \<equiv> 0x22"

abbreviation (input) USB_REQUEST_GET_STATUS :: u8 where "USB_REQUEST_GET_STATUS \<equiv> 0"
abbreviation (input) USB_REQUEST_CLEAR_FEATURE :: u8 where "USB_REQUEST_CLEAR_FEATURE \<equiv> 1"
abbreviation (input) USB_REQUEST_SET_FEATURE :: u8 where "USB_REQUEST_SET_FEATURE \<equiv> 3"
abbreviation (input) USB_REQUEST_GET_DESCRIPTOR :: u8 where "USB_REQUEST_GET_DESCRIPTOR \<equiv> 6"
abbreviation (input) USB_REQUEST_GET_CONFIGURATION :: u8 where "USB_REQUEST_GET_CONFIGURATION \<equiv> 8"
abbreviation (input) USB_REQUEST_SET_CONFIGURATION :: u8 where "USB_REQUEST_SET_CONFIGURATION \<equiv> 9"
abbreviation (input) USB_REQUEST_GET_INTERFACE :: u8 where "USB_REQUEST_GET_INTERFACE \<equiv> 10"
abbreviation (input) USB_REQUEST_SET_INTERFACE :: u8 where "USB_REQUEST_SET_INTERFACE \<equiv> 11"

text \<open>Walking past the end of a string table without a terminating entry is a fault.\<close>

fun string_walk :: "(u8 \<times> string option) list \<Rightarrow> u8 \<Rightarrow> string option res" where
  "string_walk [] index = Fault"
| "string_walk ((str_id, str) # rest) index =
     (if str_id = index then Done str
      else if str_id = 0 then Done None
      else string_walk rest index)"

definition get_string :: "'d usbip_device_t \<Rightarrow> u8 \<Rightarrow> string option res" where
  "get_string usb_device index =
     (case usb_strings usb_device of None \<Rightarrow> Done None | Some table \<Rightarrow> string_walk table index)"

definition control_callback ::
  "'d usbip_device_t \<Rightarrow> u8 list \<Rightarrow> u8 list \<Rightarrow> nat \<Rightarrow> 'd device \<Rightarrow> 'd device res" where
  "control_callback usb_device setup buffer len d =
     control_data_callback usb_device setup buffer len d"

text \<open>
  One endpoint descriptor as a full speed host sees it: the body of the loop of
  \<open>build_other_speed_config\<close>, with \<open>desc\<close> pointing at \<open>buffer[idx]\<close>. The loop only runs it with
  seven bytes in range.
\<close>

definition full_speed_interrupt_interval :: "u8 \<Rightarrow> u8" where
  "full_speed_interrupt_interval bInterval =
     (let exponent = (if bInterval > 16 then 16 else bInterval);
          interval_ms = (2 ^ (unat exponent - 1)) div 8 :: nat
      in if interval_ms < 1 then 1 else if interval_ms > 255 then 255 else of_nat interval_ms)"

definition other_speed_endpoint :: "nat \<Rightarrow> u8 list \<Rightarrow> u8 list" where
  "other_speed_endpoint idx buffer =
     (let transfer_type = buffer ! (idx + 3) AND 0x03;
          is_endpoint = (buffer ! (idx + 1) = USB_DESCRIPTOR_TYPE_ENDPOINT)
      in
      if is_endpoint \<and> (transfer_type = 2 \<or> transfer_type = 3) then
        (let buffer = (if unat (le16 (buffer ! (idx + 4)) (buffer ! (idx + 5))) > 64
                       then buffer[idx + 4 := 64, idx + 5 := 0] else buffer)
         in if transfer_type = 3 \<and> buffer ! (idx + 6) > 0
            then buffer[idx + 6 := full_speed_interrupt_interval (buffer ! (idx + 6))]
            else buffer)
      else if is_endpoint \<and> transfer_type = 1 then
        (let max_packet_size = le16 (buffer ! (idx + 4)) (buffer ! (idx + 5)) AND 0x07ff;
             max_packet_size = (if max_packet_size > 1023 then 1023 else max_packet_size)
         in buffer[idx + 4 := ucast (max_packet_size AND 0xff),
                   idx + 5 := ucast (drop_bit 8 max_packet_size),
                   idx + 6 := (if buffer ! (idx + 6) > 3 then buffer ! (idx + 6) - 3 else 1)])
      else buffer)"

lemma other_speed_endpoint_nth_less [simp]:
  "i < idx + 4 \<Longrightarrow> other_speed_endpoint idx buffer ! i = buffer ! i"
  by (simp add: other_speed_endpoint_def Let_def)

lemma length_other_speed_endpoint [simp]:
  "length (other_speed_endpoint idx buffer) = length buffer"
  by (simp add: other_speed_endpoint_def Let_def)

function other_speed_loop :: "nat \<Rightarrow> nat \<Rightarrow> u8 list \<Rightarrow> u8 list" where
  "other_speed_loop total_length idx buffer =
     (if idx + 7 \<le> total_length \<and> buffer ! idx > 0
      then let buffer = other_speed_endpoint idx buffer
           in other_speed_loop total_length (idx + unat (buffer ! idx)) buffer
      else buffer)"
  by pat_completeness auto
termination
  by (relation "measure (\<lambda>(total_length, idx, buffer). total_length - idx)")
     (auto simp: word_less_nat_alt)

declare other_speed_loop.simps [simp del]

definition config_total_length :: "u8 list \<Rightarrow> nat res" where
  "config_total_length config =
     bind_res (nth_res config 3) (\<lambda>hi. bind_res (nth_res config 2) (\<lambda>lo. Done (unat (le16 lo hi))))"

text \<open>\<open>buffer\<close> is the caller's array of \<open>buffer_length\<close> bytes; the result has its new contents.\<close>

definition build_other_speed_config :: "u8 list \<Rightarrow> u8 list \<Rightarrow> (nat \<times> u8 list) res" where
  "build_other_speed_config config buffer =
     bind_res (config_total_length config) (\<lambda>total_length.
       let total_length = (if total_length > length buffer then length buffer else total_length) in
       bind_res (read_mem config 0 total_length) (\<lambda>bytes.
       bind_res (write_mem buffer 0 bytes) (\<lambda>buffer.
       bind_res (write_mem buffer 1 [USB_DESCRIPTOR_TYPE_OTHER_SPEED_CONFIGURATION]) (\<lambda>buffer.
         Done (total_length, other_speed_loop total_length 0 buffer)))))"

text \<open>The string descriptor built for a string: two bytes of header, then UTF-16 units.\<close>

definition string_descriptor :: "string \<Rightarrow> u8 list" where
  "string_descriptor str =
     (let string_len = (if length str > 126 then 126 else length str)
      in [of_nat (2 * string_len + 2), 3] @
         concat (map (\<lambda>c. [of_char c, 0]) (take string_len str)))"

text \<open>
  \<open>device_request\<close> discards the result of \<open>usbip_device_transmit\<close>. The array
  \<open>other_speed_desc\<close> starts with unknown contents, here zeroes: only bytes that
  \<open>build_other_speed_config\<close> wrote are transmitted.
\<close>

definition transmit_reply :: "u8 list \<Rightarrow> nat \<Rightarrow> 'd device \<Rightarrow> (bool \<times> 'd device) res" where
  "transmit_reply data tx_length d =
     bind_res (usbip_device_transmit 0 data tx_length d) (\<lambda>(stored, d). Done (True, d))"

definition get_descriptor ::
  "'d usbip_device_t \<Rightarrow> u8 list \<Rightarrow> nat \<Rightarrow> 'd device \<Rightarrow> (bool \<times> 'd device) res" where
  "get_descriptor usb_device setup req_size d =
     (let bDescriptorType = setup ! 3;
          bDescriptorIndex = setup ! 2;
          dev = device_desc usb_device
      in
      if bDescriptorType = USB_DESCRIPTOR_TYPE_DEVICE then
        bind_res (nth_res dev 0) (\<lambda>b.
          let desc_length = unat b in
          transmit_reply dev (if req_size < desc_length then req_size else desc_length) d)
      else if bDescriptorType = USB_DESCRIPTOR_TYPE_CONFIGURATION then
        bind_res (config_total_length (config_desc usb_device)) (\<lambda>desc_length.
          transmit_reply (config_desc usb_device)
            (if req_size < desc_length then req_size else desc_length) d)
      else if bDescriptorType = USB_DESCRIPTOR_TYPE_DEVICE_QUALIFIER then
        bind_res (nth_res dev 3) (\<lambda>bcdUSB_hi.
          if bcdUSB_hi \<ge> 0x02 then
            bind_res (read_mem dev 2 6) (\<lambda>fields.
            bind_res (nth_res dev 17) (\<lambda>bNumConfigurations.
              let qualifier_desc =
                    [10, USB_DESCRIPTOR_TYPE_DEVICE_QUALIFIER] @ fields @ [bNumConfigurations, 0]
              in transmit_reply qualifier_desc (if req_size < 10 then req_size else 10) d))
          else Done (True, d))
      else if bDescriptorType = USB_DESCRIPTOR_TYPE_OTHER_SPEED_CONFIGURATION then
        bind_res (nth_res dev 3) (\<lambda>bcdUSB_hi.
          if bcdUSB_hi \<ge> 0x02 then
            bind_res (build_other_speed_config (config_desc usb_device)
                        (replicate ENDPOINT_MAX_DATA_LENGTH 0)) (\<lambda>(desc_length, other_speed_desc).
              transmit_reply other_speed_desc
                (if req_size < desc_length then req_size else desc_length) d)
          else Done (True, d))
      else if bDescriptorType = USB_DESCRIPTOR_TYPE_STRING then
        (if bDescriptorIndex = 0 then
           bind_res (nth_res (langid_desc usb_device) 0) (\<lambda>b.
             transmit_reply (langid_desc usb_device)
               (if req_size < unat b then req_size else unat b) d)
         else
           bind_res (get_string usb_device bDescriptorIndex) (\<lambda>str.
             case str of
               None \<Rightarrow> Done (True, d)
             | Some str \<Rightarrow>
                 let string_buffer = string_descriptor str;
                     len = unat (string_buffer ! 0)
                 in transmit_reply string_buffer (if req_size < len then req_size else len) d))
      else Done (True, d))"

definition device_request ::
  "'d usbip_device_t \<Rightarrow> u8 list \<Rightarrow> u8 list \<Rightarrow> nat \<Rightarrow> 'd device \<Rightarrow> (bool \<times> 'd device) res" where
  "device_request usb_device setup buffer req_size d =
     (let bmRequestType = setup ! 0;
          bRequest = setup ! 1;
          bfDataDirection = bmRequestType AND 0x80
      in
      if bfDataDirection \<noteq> 0 then
        (if bRequest = USB_REQUEST_GET_STATUS then
           bind_res (nth_res (config_desc usb_device) 7) (\<lambda>bmAttributes.
             let self_powered = (if bmAttributes AND 0x40 \<noteq> 0 then 0x01 else 0x00)
             in transmit_reply [self_powered, 0x00] 2 d)
         else if bRequest = USB_REQUEST_GET_DESCRIPTOR then
           get_descriptor usb_device setup req_size d
         else if bRequest = USB_REQUEST_GET_CONFIGURATION then
           transmit_reply [configuration_value d] 1 d
         else Done (True, d))
      else if bRequest = USB_REQUEST_SET_CONFIGURATION then
        bind_res (control_callback usb_device setup buffer req_size
                    (d\<lparr>configuration_value := setup ! 2\<rparr>)) (\<lambda>d. Done (True, d))
      else Done (False, d))"

definition endpoint_request :: "u8 list \<Rightarrow> 'd device \<Rightarrow> (bool \<times> 'd device) res" where
  "endpoint_request setup d =
     (let bRequest = setup ! 1 in
      if bRequest = USB_REQUEST_GET_STATUS then transmit_reply [0x00, 0x00] 2 d
      else if bRequest = USB_REQUEST_CLEAR_FEATURE \<or> bRequest = USB_REQUEST_SET_FEATURE
      then Done (True, d)
      else Done (False, d))"

definition interface_request ::
  "'d usbip_device_t \<Rightarrow> u8 list \<Rightarrow> u8 list \<Rightarrow> nat \<Rightarrow> 'd device \<Rightarrow> 'd device res" where
  "interface_request usb_device setup buffer req_size d =
     control_callback usb_device setup buffer req_size d"

definition usbip_device_control ::
  "'d usbip_device_t \<Rightarrow> u8 list \<Rightarrow> u8 list \<Rightarrow> nat \<Rightarrow> 'd device \<Rightarrow> (bool \<times> 'd device) res" where
  "usbip_device_control usb_device setup buffer len d =
     (let d = d\<lparr>endpoint_data := (endpoint_data d)[0 := (endpoint_data d ! 0)\<lparr>ep_data_length := 0\<rparr>],
                control_answered := False\<rparr>;
          bmRequestType = setup ! 0;
          bfType = drop_bit 5 bmRequestType AND 0x03;
          bfRecipient = bmRequestType AND 0x1f
      in
      if bfType \<noteq> 0 then
        bind_res (control_callback usb_device setup buffer len d) (\<lambda>d. Done (True, d))
      else if bfRecipient = 0 then device_request usb_device setup buffer len d
      else if bfRecipient = 1 then
        bind_res (interface_request usb_device setup buffer len d) (\<lambda>d. Done (True, d))
      else if bfRecipient = 2 then endpoint_request setup d
      else Done (False, d))"

section \<open>Invariant and abstraction\<close>

definition wf_endpoint :: "device_endpoint_data_t \<Rightarrow> bool" where
  "wf_endpoint e \<longleftrightarrow> length (ep_data e) = ENDPOINT_MAX_DATA_LENGTH \<and>
     ep_data_length e \<le> ENDPOINT_MAX_DATA_LENGTH"

definition wf_device :: "'d device \<Rightarrow> bool" where
  "wf_device d \<longleftrightarrow> length (endpoint_data d) = NUMBER_OF_ENDPOINTS \<and>
     list_all wf_endpoint (endpoint_data d)"

text \<open>What the host has not fetched yet from endpoint \<open>i\<close>.\<close>

definition unread :: "'d device \<Rightarrow> nat \<Rightarrow> u8 list" where
  "unread d i = take (ep_data_length (endpoint_data d ! i)) (ep_data (endpoint_data d ! i))"

abbreviation ep_index :: "u8 \<Rightarrow> nat" where
  "ep_index ep \<equiv> unat (ep AND 0xf)"

lemma ep_index_less [simp]: "ep_index ep < 16"
  by (rule unat_and_mask_less)

lemma wf_device_nth: "wf_device d \<Longrightarrow> i < 16 \<Longrightarrow> wf_endpoint (endpoint_data d ! i)"
  by (simp add: wf_device_def list_all_length)

lemma length_unread: "wf_device d \<Longrightarrow> i < 16 \<Longrightarrow> length (unread d i) = ep_data_length (endpoint_data d ! i)"
  using wf_device_nth [of d i] by (simp add: unread_def wf_endpoint_def)

lemma length_unread_le: "wf_device d \<Longrightarrow> i < 16 \<Longrightarrow> length (unread d i) \<le> 512"
  using wf_device_nth [of d i] by (simp add: unread_def wf_endpoint_def)

lemma unread_Nil_iff: "wf_device d \<Longrightarrow> i < 16 \<Longrightarrow> unread d i = [] \<longleftrightarrow> ep_data_length (endpoint_data d ! i) = 0"
  using length_unread [of d i] by (metis length_0_conv)

lemma wf_device_update:
  "wf_device d \<Longrightarrow> wf_endpoint e \<Longrightarrow>
   wf_device (d\<lparr>endpoint_data := (endpoint_data d)[i := e]\<rparr>)"
  by (auto simp: wf_device_def list_all_iff dest: set_update_subset_insert [THEN subsetD])

lemma wf_device_frame [simp]:
  "wf_device (d\<lparr>control_answered := b\<rparr>) = wf_device d"
  "wf_device (d\<lparr>configuration_value := c\<rparr>) = wf_device d"
  "wf_device (d\<lparr>reset_generation := g\<rparr>) = wf_device d"
  "wf_device (d\<lparr>device_stopped := b\<rparr>) = wf_device d"
  "wf_device (d\<lparr>ep_data_event := v\<rparr>) = wf_device d"
  "wf_device (d\<lparr>app := a\<rparr>) = wf_device d"
  "wf_device (event_write d) = wf_device d"
  "wf_device (usbip_device_clear_event d) = wf_device d"
  by (simp_all add: wf_device_def event_write_def usbip_device_clear_event_def)

lemma unread_frame [simp]:
  "unread (d\<lparr>control_answered := b\<rparr>) = unread d"
  "unread (d\<lparr>configuration_value := c\<rparr>) = unread d"
  "unread (d\<lparr>reset_generation := g\<rparr>) = unread d"
  "unread (d\<lparr>device_stopped := b\<rparr>) = unread d"
  "unread (d\<lparr>ep_data_event := v\<rparr>) = unread d"
  "unread (d\<lparr>app := a\<rparr>) = unread d"
  "unread (event_write d) = unread d"
  "unread (usbip_device_clear_event d) = unread d"
  by (simp_all add: fun_eq_iff unread_def event_write_def usbip_device_clear_event_def)

lemma unread_update:
  "wf_device d \<Longrightarrow> i < 16 \<Longrightarrow>
   unread (d\<lparr>endpoint_data := (endpoint_data d)[i := e]\<rparr>) =
     (unread d)(i := take (ep_data_length e) (ep_data e))"
  by (auto simp: fun_eq_iff unread_def wf_device_def nth_list_update)

lemma wf_clear_endpoint_data [simp]: "wf_device d \<Longrightarrow> wf_device (clear_endpoint_data d)"
  by (auto simp: wf_device_def clear_endpoint_data_def list_all_length wf_endpoint_def)

lemma unread_clear_endpoint_data [simp]:
  "wf_device d \<Longrightarrow> i < 16 \<Longrightarrow> unread (clear_endpoint_data d) i = []"
  by (simp add: unread_def clear_endpoint_data_def wf_device_def)

lemma event_write_pos [simp]: "0 < ep_data_event (event_write d)"
proof (cases "ep_data_event d < 0xfffffffffffffffe")
  case True
  then have "ep_data_event d + 1 \<noteq> 0" by (auto simp: add_eq_0_iff2)
  with True show ?thesis by (simp add: event_write_def word_gt_0)
next
  case False
  then have "ep_data_event d \<noteq> 0" by auto
  with False show ?thesis by (simp add: event_write_def word_gt_0)
qed

lemma event_write_frame:
  "control_answered (event_write d) = control_answered d"
  "device_stopped (event_write d) = device_stopped d"
  "reset_generation (event_write d) = reset_generation d"
  "configuration_value (event_write d) = configuration_value d"
  "app (event_write d) = app d"
  "endpoint_data (event_write d) = endpoint_data d"
  by (simp_all add: event_write_def)

section \<open>Transmitting and fetching\<close>

text \<open>The length a transmit stores.\<close>

abbreviation cut_length :: "nat \<Rightarrow> nat" where
  "cut_length n \<equiv> min n ENDPOINT_MAX_DATA_LENGTH"

lemma transmit_store_spec:
  assumes "wf_device d" and "i < 16" and "n \<le> 512" and "n \<le> length data"
  shows "\<exists>d'. transmit_store i data n d = Done (Tr_return True, d') \<and> wf_device d' \<and>
     unread d' = (unread d)(i := take n data) \<and>
     control_answered d' = (i = 0 \<or> control_answered d) \<and>
     device_stopped d' = device_stopped d \<and> reset_generation d' = reset_generation d \<and>
     configuration_value d' = configuration_value d \<and> app d' = app d \<and>
     ep_data_event d' = ep_data_event d"
proof -
  let ?e = "endpoint_data d ! i"
  let ?e' = "?e\<lparr>ep_data := overwrite (ep_data ?e) 0 (take n data), ep_data_length := n\<rparr>"
  have e: "length (ep_data ?e) = 512" "ep_data_length ?e \<le> 512"
    using wf_device_nth [OF assms(1,2)] by (simp_all add: wf_endpoint_def)
  have s0: "n = 0 \<Longrightarrow> overwrite (ep_data ?e) 0 (take n data) = ep_data ?e"
    by (simp add: overwrite_def)
  have wf': "wf_endpoint ?e'"
    using e assms(3,4) by (simp add: wf_endpoint_def)
  have t: "take n (overwrite (ep_data ?e) 0 (take n data)) = take n data"
    using assms(4) take_overwrite_0 [of "take n data" "ep_data ?e"] by simp
  let ?d' = "d\<lparr>endpoint_data := (endpoint_data d)[i := ?e'], control_answered := (if i = 0 then True else control_answered d)\<rparr>"
  have "transmit_store i data n d = Done (Tr_return True, ?d')"
    using e assms(3,4) s0 by (auto simp: transmit_store_def Let_def)
  moreover have "wf_device ?d'"
    using wf_device_update [OF assms(1) wf', of i] by auto
  moreover have "unread ?d' = (unread d)(i := take n data)"
    using unread_update [OF assms(1,2), of ?e'] t by auto
  ultimately show ?thesis by (intro exI [of _ ?d']) auto
qed

lemma transmit_attempt_cases:
  assumes wf: "wf_device d" and data: "cut_length n \<le> length data" and i: "i = ep_index ep"
  shows
    "0 < i \<and> may_wait \<and> \<not> device_stopped d \<and> unread d i \<noteq> [] \<Longrightarrow>
       transmit_attempt may_wait g ep data n d = Done (Tr_wait, d)" (is "?wait \<Longrightarrow> _")
    "\<not> (0 < i \<and> may_wait \<and> \<not> device_stopped d \<and> unread d i \<noteq> []) \<Longrightarrow>
       device_stopped d \<or> g \<noteq> reset_generation d \<or> (0 < i \<and> unread d i \<noteq> []) \<Longrightarrow>
       transmit_attempt may_wait g ep data n d = Done (Tr_return False, d)"
    "\<not> device_stopped d \<Longrightarrow> g = reset_generation d \<Longrightarrow> i = 0 \<or> unread d i = [] \<Longrightarrow>
       transmit_attempt may_wait g ep data n d = transmit_store i data (cut_length n) d"
  using unread_Nil_iff [OF wf, of i] unfolding i
  by (auto simp: transmit_attempt_def Let_def min_def)

text \<open>
  What one attempt does to the endpoints: it leaves them alone unless it stores, and it stores only
  in an empty endpoint (endpoint 0 always), on a running device, and not across a reset.
\<close>

lemma transmit_attempt_spec:
  assumes wf: "wf_device d" and data: "cut_length n \<le> length data"
  shows "returns (\<lambda>(r, d').
     wf_device d' \<and> device_stopped d' = device_stopped d \<and> reset_generation d' = reset_generation d \<and>
     configuration_value d' = configuration_value d \<and> app d' = app d \<and>
     (r \<noteq> Tr_return True \<longrightarrow> d' = d) \<and>
     (r = Tr_wait \<longleftrightarrow> 0 < ep_index ep \<and> may_wait \<and> \<not> device_stopped d \<and> unread d (ep_index ep) \<noteq> []) \<and>
     (r = Tr_return True \<longleftrightarrow> \<not> device_stopped d \<and> g = reset_generation d \<and>
        (ep_index ep = 0 \<or> unread d (ep_index ep) = [])) \<and>
     (r = Tr_return True \<longrightarrow>
        unread d' = (unread d)(ep_index ep := take (cut_length n) data) \<and>
        control_answered d' = (ep_index ep = 0 \<or> control_answered d)) \<and>
     ep_data_event d' = ep_data_event d)
     (transmit_attempt may_wait g ep data n d)"
proof -
  let ?i = "ep_index ep"
  note c = transmit_attempt_cases [OF wf data refl, where ep = ep]
  consider
      (wait) "0 < ?i \<and> may_wait \<and> \<not> device_stopped d \<and> unread d ?i \<noteq> []"
    | (fail) "\<not> (0 < ?i \<and> may_wait \<and> \<not> device_stopped d \<and> unread d ?i \<noteq> [])"
        "device_stopped d \<or> g \<noteq> reset_generation d \<or> (0 < ?i \<and> unread d ?i \<noteq> [])"
    | (store) "\<not> device_stopped d" "g = reset_generation d" "?i = 0 \<or> unread d ?i = []"
    by (metis gr0I)
  then show ?thesis
  proof cases
    case wait
    then show ?thesis using wf by (simp add: c(1))
  next
    case fail
    then show ?thesis using wf by (subst c(2)) auto
  next
    case store
    obtain d' where "transmit_store ?i data (cut_length n) d = Done (Tr_return True, d')"
      and "wf_device d'" "unread d' = (unread d)(?i := take (cut_length n) data)"
        "control_answered d' = (?i = 0 \<or> control_answered d)"
        "device_stopped d' = device_stopped d" "reset_generation d' = reset_generation d"
        "configuration_value d' = configuration_value d" "app d' = app d"
        "ep_data_event d' = ep_data_event d"
      using transmit_store_spec [OF wf ep_index_less, of "cut_length n" data ep] data by auto
    with store show ?thesis unfolding c(3) [OF store] by simp
  qed
qed

lemma usbip_device_transmit_spec:
  assumes "wf_device d" and "cut_length n \<le> length data"
  shows "returns (\<lambda>(stored, d').
     wf_device d' \<and> device_stopped d' = device_stopped d \<and> reset_generation d' = reset_generation d \<and>
     configuration_value d' = configuration_value d \<and> app d' = app d \<and>
     (stored \<longleftrightarrow> \<not> device_stopped d \<and> (ep_index ep = 0 \<or> unread d (ep_index ep) = [])) \<and>
     (\<not> stored \<longrightarrow> d' = d) \<and>
     (stored \<longrightarrow>
        unread d' = (unread d)(ep_index ep := take (cut_length n) data) \<and>
        control_answered d' = (ep_index ep = 0 \<or> control_answered d) \<and>
        (0 < ep_index ep \<longrightarrow> 0 < ep_data_event d')))
     (usbip_device_transmit ep data n d)"
  unfolding usbip_device_transmit_def
  by (rule returns_bindI [OF transmit_attempt_spec [OF assms]])
    (cases "ep_index ep = 0"; auto simp: transmit_finish_def Let_def event_write_frame)

lemma usbip_device_transmit_returns:
  "wf_device d \<Longrightarrow> cut_length n \<le> length data \<Longrightarrow>
   returns (\<lambda>(stored, d'). wf_device d') (usbip_device_transmit ep data n d)"
  by (rule returns_mono [OF usbip_device_transmit_spec]) auto

lemma usbip_device_fetch_ep_data_spec:
  assumes wf: "wf_device d" and buf: "min m (length (unread d (ep_index ep))) \<le> length buffer"
  shows "returns (\<lambda>(len, buffer', d').
     len = min m (length (unread d (ep_index ep))) \<and>
     length buffer' = length buffer \<and> take len buffer' = take len (unread d (ep_index ep)) \<and>
     drop len buffer' = drop len buffer \<and>
     wf_device d' \<and>
     unread d' = (unread d)(ep_index ep :=
       (if ep_index ep = 0 then [] else drop len (unread d (ep_index ep)))) \<and>
     device_stopped d' = device_stopped d \<and> reset_generation d' = reset_generation d \<and>
     configuration_value d' = configuration_value d \<and> app d' = app d \<and>
     control_answered d' = control_answered d \<and> ep_data_event d' = ep_data_event d)
     (usbip_device_fetch_ep_data ep buffer m d)"
proof -
  let ?i = "ep_index ep"
  let ?e = "endpoint_data d ! ?i"
  let ?len = "min m (ep_data_length ?e)"
  let ?rest = "if ?i = 0 then 0 else ep_data_length ?e - ?len"
  let ?data = "overwrite (ep_data ?e) 0 (segment (ep_data ?e) ?len ?rest)"
  let ?e' = "?e\<lparr>ep_data := ?data, ep_data_length := ?rest\<rparr>"
  have e: "length (ep_data ?e) = 512" "ep_data_length ?e \<le> 512"
    using wf_device_nth [OF wf ep_index_less] by (simp_all add: wf_endpoint_def)
  have u: "length (unread d ?i) = ep_data_length ?e"
    using length_unread [OF wf ep_index_less] .
  with buf have b: "?len \<le> length buffer" by simp
  have rl: "?len + ?rest \<le> 512" using e by auto
  have wf': "wf_endpoint ?e'" using e rl by (auto simp: wf_endpoint_def)
  have "length (segment (ep_data ?e) ?len ?rest) = ?rest" using e rl by simp
  then have td: "take ?rest ?data = segment (ep_data ?e) ?len ?rest"
    using take_overwrite_0 [of "segment (ep_data ?e) ?len ?rest" "ep_data ?e"] by simp
  have td': "take ?rest ?data = (if ?i = 0 then [] else drop ?len (unread d ?i))"
    unfolding td by (auto simp: segment_def unread_def drop_take min_def)
  have tk: "take ?len (ep_data ?e) = take ?len (unread d ?i)"
    by (simp add: unread_def)
  have steps: "(if m < ep_data_length ?e then m else ep_data_length ?e) = ?len"
    "read_mem (ep_data ?e) 0 ?len = Done (take ?len (ep_data ?e))"
    "write_mem buffer 0 (take ?len (ep_data ?e)) = Done (overwrite buffer 0 (take ?len (ep_data ?e)))"
    "read_mem (ep_data ?e) ?len ?rest = Done (segment (ep_data ?e) ?len ?rest)"
    "write_mem (ep_data ?e) 0 (segment (ep_data ?e) ?len ?rest) = Done ?data"
    using e rl b by (auto simp: min_def)
  have r: "usbip_device_fetch_ep_data ep buffer m d = Done (?len, overwrite buffer 0 (take ?len (ep_data ?e)),
      d\<lparr>endpoint_data := (endpoint_data d)[?i := ?e']\<rparr>)"
    unfolding usbip_device_fetch_ep_data_def Let_def steps bind_res.simps ..
  show ?thesis
    unfolding r using wf_device_update [OF wf wf', of ?i] unread_update [OF wf ep_index_less [of ep], of ?e'] u b e td' tk
      take_overwrite_0 [of "take ?len (ep_data ?e)" buffer]
    by (simp add: overwrite_def)
qed

section \<open>The contract of a device program\<close>

text \<open>
  Descriptors a device may be served with: the arrays hold the bytes their length fields announce
  and the string table is terminated.
\<close>

definition wf_descriptors :: "'d usbip_device_t \<Rightarrow> bool" where
  "wf_descriptors ud \<longleftrightarrow>
     18 \<le> length (device_desc ud) \<and> unat (device_desc ud ! 0) \<le> length (device_desc ud) \<and>
     9 \<le> length (config_desc ud) \<and>
     unat (le16 (config_desc ud ! 2) (config_desc ud ! 3)) \<le> length (config_desc ud) \<and>
     langid_desc ud \<noteq> [] \<and> unat (langid_desc ud ! 0) \<le> length (langid_desc ud) \<and>
     (case usb_strings ud of None \<Rightarrow> True | Some table \<Rightarrow> list_ex (\<lambda>(str_id, str). str_id = 0) table)"

definition dev_inv :: "('d \<Rightarrow> bool) \<Rightarrow> 'd device \<Rightarrow> bool" where
  "dev_inv I d \<longleftrightarrow> wf_device d \<and> I (app d)"

text \<open>
  What the library relies on in a device program: its descriptors are well formed, its callbacks
  return, keep the endpoint buffers and the program's own invariant \<open>I\<close>, and the isochronous
  callback writes at most the bytes it was offered.
\<close>

locale device_program =
  fixes ud :: "'d usbip_device_t" and I :: "'d \<Rightarrow> bool"
  assumes descriptors: "wf_descriptors ud"
    and control: "dev_inv I d \<Longrightarrow> length setup = 8 \<Longrightarrow> n \<le> length data \<Longrightarrow>
      returns (dev_inv I) (control_data_callback ud setup data n d)"
    and ep_data: "dev_inv I d \<Longrightarrow> n \<le> length data \<Longrightarrow> ep_data_callback ud = Some callback \<Longrightarrow>
      returns (dev_inv I) (callback ep data n d)"
    and reset: "dev_inv I d \<Longrightarrow> reset_callback ud = Some rcallback \<Longrightarrow> returns (dev_inv I) (rcallback d)"
    and iso_in: "dev_inv I d \<Longrightarrow> iso_in_callback ud = Some icallback \<Longrightarrow>
      returns (\<lambda>(len, bytes, d'). length bytes \<le> m \<and> dev_inv I d') (icallback ep m d)"

lemma config_total_length_Done:
  "4 \<le> length config \<Longrightarrow> config_total_length config = Done (unat (le16 (config ! 2) (config ! 3)))"
  by (simp add: config_total_length_def)

lemma length_other_speed_loop [simp]:
  "length (other_speed_loop t idx buffer) = length buffer"
  by (induction t idx buffer rule: other_speed_loop.induct) (subst other_speed_loop.simps, simp add: Let_def)

lemma build_other_speed_config_Done:
  assumes "4 \<le> length config" and "unat (le16 (config ! 2) (config ! 3)) \<le> length config"
    and "2 \<le> length buffer"
  shows "build_other_speed_config config buffer =
    (let t = min (unat (le16 (config ! 2) (config ! 3))) (length buffer)
     in Done (t, other_speed_loop t 0 (overwrite (overwrite buffer 0 (take t config)) 1 [7])))"
  using assms
  by (simp add: build_other_speed_config_def config_total_length_Done Let_def min_def)

lemma string_walk_Done: "list_ex (\<lambda>(str_id, str). str_id = 0) table \<Longrightarrow> \<exists>r. string_walk table index = Done r"
  by (induction table index rule: string_walk.induct) auto

lemma length_string_descriptor: "length (string_descriptor str) = 2 * min (length str) 126 + 2"
  by (simp add: string_descriptor_def Let_def length_concat comp_def sum_list_triv min_def)

lemma string_descriptor_0: "unat (string_descriptor str ! 0) = length (string_descriptor str)"
proof -
  have "2 * min (length str) 126 + 2 < 2 ^ LENGTH(8)" by (simp add: min_def)
  then have "unat (of_nat (2 * min (length str) 126 + 2) :: u8) = 2 * min (length str) 126 + 2"
    by (rule unat_of_nat_less)
  moreover have "string_descriptor str ! 0 = of_nat (2 * min (length str) 126 + 2)"
    by (simp add: string_descriptor_def Let_def min_def)
  ultimately show ?thesis by (simp add: length_string_descriptor)
qed

lemma transmit_reply_spec:
  assumes "wf_device d" and "cut_length n \<le> length data"
  shows "returns (\<lambda>(supported, d').
     supported \<and> wf_device d' \<and> app d' = app d \<and> device_stopped d' = device_stopped d \<and>
     configuration_value d' = configuration_value d \<and> reset_generation d' = reset_generation d \<and>
     (\<not> device_stopped d \<longrightarrow> control_answered d' \<and> unread d' = (unread d)(0 := take (cut_length n) data)))
     (transmit_reply data n d)"
  unfolding transmit_reply_def
  by (rule returns_bindI [OF usbip_device_transmit_spec [OF assms]]) auto

lemma transmit_reply_inv:
  "dev_inv I d \<Longrightarrow> n \<le> length data \<Longrightarrow> returns (\<lambda>(supported, d'). supported \<and> dev_inv I d') (transmit_reply data n d)"
  by (rule returns_mono [OF transmit_reply_spec]) (auto simp: dev_inv_def)

section \<open>Standard requests against their specification\<close>

text \<open>
  The descriptors a host can ask for, chapter 9 of the USB 2.0 specification, as a function of the
  descriptor type and index: what \<open>GET_DESCRIPTOR\<close> should answer, \<open>None\<close> for a stall.
\<close>

definition lookup_string :: "'d usbip_device_t \<Rightarrow> u8 \<Rightarrow> string option" where
  "lookup_string ud index =
     (case usb_strings ud of
        None \<Rightarrow> None
      | Some table \<Rightarrow>
          (case map_of (takeWhile (\<lambda>(str_id, str). str_id \<noteq> 0) table) index of
             Some str \<Rightarrow> str | None \<Rightarrow> None))"

definition config_bytes :: "'d usbip_device_t \<Rightarrow> u8 list" where
  "config_bytes ud = take (unat (le16 (config_desc ud ! 2) (config_desc ud ! 3))) (config_desc ud)"

definition qualifier_bytes :: "'d usbip_device_t \<Rightarrow> u8 list" where
  "qualifier_bytes ud =
     [10, USB_DESCRIPTOR_TYPE_DEVICE_QUALIFIER] @ segment (device_desc ud) 2 6 @ [device_desc ud ! 17, 0]"

definition other_speed_bytes :: "'d usbip_device_t \<Rightarrow> u8 list" where
  "other_speed_bytes ud =
     (case build_other_speed_config (config_desc ud) (replicate ENDPOINT_MAX_DATA_LENGTH 0) of
        Done (t, bytes) \<Rightarrow> take t bytes | _ \<Rightarrow> [])"

definition std_descriptor :: "'d usbip_device_t \<Rightarrow> u8 \<Rightarrow> u8 \<Rightarrow> u8 list option" where
  "std_descriptor ud bDescriptorType index =
     (if bDescriptorType = USB_DESCRIPTOR_TYPE_DEVICE
      then Some (take (unat (device_desc ud ! 0)) (device_desc ud))
      else if bDescriptorType = USB_DESCRIPTOR_TYPE_CONFIGURATION then Some (config_bytes ud)
      else if bDescriptorType = USB_DESCRIPTOR_TYPE_DEVICE_QUALIFIER
      then (if device_desc ud ! 3 \<ge> 2 then Some (qualifier_bytes ud) else None)
      else if bDescriptorType = USB_DESCRIPTOR_TYPE_OTHER_SPEED_CONFIGURATION
      then (if device_desc ud ! 3 \<ge> 2 then Some (other_speed_bytes ud) else None)
      else if bDescriptorType = USB_DESCRIPTOR_TYPE_STRING
      then (if index = 0 then Some (take (unat (langid_desc ud ! 0)) (langid_desc ud))
            else map_option string_descriptor (lookup_string ud index))
      else None)"

lemma string_walk_spec:
  "list_ex (\<lambda>(str_id, str). str_id = 0) table \<Longrightarrow> index \<noteq> 0 \<Longrightarrow>
   string_walk table index =
     Done (case map_of (takeWhile (\<lambda>(str_id, str). str_id \<noteq> 0) table) index of
             Some str \<Rightarrow> str | None \<Rightarrow> None)"
  by (induction table index rule: string_walk.induct) (auto split: option.splits)

lemma get_string_spec:
  "wf_descriptors ud \<Longrightarrow> index \<noteq> 0 \<Longrightarrow> get_string ud index = Done (lookup_string ud index)"
  by (auto simp: get_string_def lookup_string_def wf_descriptors_def string_walk_spec split: option.splits)

text \<open>\<open>reply_spec desc req d d'\<close>: between \<open>d\<close> and \<open>d'\<close> the request was answered as \<open>desc\<close> says.\<close>

definition reply_spec :: "u8 list option \<Rightarrow> nat \<Rightarrow> 'd device \<Rightarrow> 'd device \<Rightarrow> bool" where
  "reply_spec desc req d d' \<longleftrightarrow>
     wf_device d' \<and> app d' = app d \<and> device_stopped d' = device_stopped d \<and>
     configuration_value d' = configuration_value d \<and> reset_generation d' = reset_generation d \<and>
     (case desc of
        None \<Rightarrow> d' = d
      | Some bytes \<Rightarrow> \<not> device_stopped d \<longrightarrow>
          control_answered d' \<and> unread d' = (unread d)(0 := take (cut_length req) bytes))"

lemma transmit_reply_reply_spec:
  assumes "wf_device d" and "len \<le> length data"
  shows "returns (\<lambda>(supported, d'). supported \<and> reply_spec (Some (take len data)) req d d')
     (transmit_reply data (if req < len then req else len) d)"
proof (rule returns_mono [OF transmit_reply_spec])
  show "wf_device d" by (rule assms)
  show "cut_length (if req < len then req else len) \<le> length data" using assms(2) by auto
  fix x :: "bool \<times> 'a device"
  have t: "take (cut_length (if req < len then req else len)) data = take (cut_length req) (take len data)"
    by (simp add: min_def)
  assume *: "case x of (supported, d') \<Rightarrow>
     supported \<and> wf_device d' \<and> app d' = app d \<and> device_stopped d' = device_stopped d \<and>
     configuration_value d' = configuration_value d \<and> reset_generation d' = reset_generation d \<and>
     (\<not> device_stopped d \<longrightarrow> control_answered d' \<and>
        unread d' = (unread d)(0 := take (cut_length (if req < len then req else len)) data))"
  show "case x of (supported, d') \<Rightarrow> supported \<and> reply_spec (Some (take len data)) req d d'"
    using * unfolding reply_spec_def t by auto
qed

lemma get_descriptor_reply_spec:
  assumes wf: "wf_device d" and ud: "wf_descriptors ud"
  shows "returns (\<lambda>(supported, d'). supported \<and> reply_spec (std_descriptor ud (setup ! 3) (setup ! 2)) req d d')
     (get_descriptor ud setup req d)"
proof -
  let ?dev = "device_desc ud" and ?c = "config_desc ud" and ?l = "langid_desc ud"
  have len: "18 \<le> length ?dev" "unat (?dev ! 0) \<le> length ?dev" "9 \<le> length ?c"
      "unat (le16 (?c ! 2) (?c ! 3)) \<le> length ?c" "?l \<noteq> []" "unat (?l ! 0) \<le> length ?l"
    using ud by (simp_all add: wf_descriptors_def)
  have refl_None: "reply_spec None req d d" using wf by (simp add: reply_spec_def)
  have nth: "nth_res ?dev 0 = Done (?dev ! 0)" "nth_res ?l 0 = Done (?l ! 0)"
    using len(1,5) by (auto simp: nth_res_def)
  note tr = transmit_reply_reply_spec [OF wf]
  have q: "length (qualifier_bytes ud) = 10" using len(1) by (simp add: qualifier_bytes_def)
  obtain t bytes where os: "build_other_speed_config ?c (replicate 512 0) = Done (t, bytes)" "t \<le> length bytes"
    using build_other_speed_config_Done [of ?c "replicate 512 (0 :: u8)"] len(3,4)
    by (auto simp: Let_def)
  consider "setup ! 3 = 1" | "setup ! 3 = 2" | "setup ! 3 = 6" | "setup ! 3 = 7"
    | "setup ! 3 = 3" "setup ! 2 = 0" | "setup ! 3 = 3" "setup ! 2 \<noteq> 0"
    | "setup ! 3 \<notin> {1, 2, 3, 6, 7}" by auto
  then show ?thesis
  proof cases
    case 1
    then show ?thesis using tr [OF len(2), of req] len(1) by (simp add: Let_def nth get_descriptor_def std_descriptor_def)
  next
    case 2
    then show ?thesis using tr [OF len(4), of req] len(3)
      by (simp add: Let_def nth get_descriptor_def std_descriptor_def config_total_length_Done config_bytes_def)
  next
    case 3
    then have "get_descriptor ud setup req d = (if device_desc ud ! 3 \<ge> 2
        then transmit_reply (qualifier_bytes ud) (if req < 10 then req else 10) d else Done (True, d))"
      using len(1) by (simp add: Let_def get_descriptor_def qualifier_bytes_def)
    then show ?thesis using 3 tr [of 10 "qualifier_bytes ud" req] q refl_None
      by (simp add: std_descriptor_def)
  next
    case 4
    then show ?thesis using tr [OF os(2), of req] len(1) refl_None
      by (simp add: Let_def nth get_descriptor_def std_descriptor_def os other_speed_bytes_def)
  next
    case 5
    then show ?thesis using tr [OF len(6), of req] len(5) by (simp add: Let_def nth get_descriptor_def std_descriptor_def)
  next
    case 6
    then show ?thesis
      using tr [of "length (string_descriptor (the (lookup_string ud (setup ! 2))))"
          "string_descriptor (the (lookup_string ud (setup ! 2)))" req] refl_None
      by (auto simp: get_descriptor_def std_descriptor_def get_string_spec [OF ud] string_descriptor_0
          Let_def split: option.split)
  next
    case 7
    then show ?thesis using refl_None by (simp add: Let_def nth get_descriptor_def std_descriptor_def)
  qed
qed

text \<open>The state a control request starts from: no answer to an earlier request is left.\<close>

definition control_start :: "'d device \<Rightarrow> 'd device" where
  "control_start d =
     d\<lparr>endpoint_data := (endpoint_data d)[0 := (endpoint_data d ! 0)\<lparr>ep_data_length := 0\<rparr>],
       control_answered := False\<rparr>"

lemma control_start_simps:
  assumes "wf_device d"
  shows "wf_device (control_start d)" "unread (control_start d) = (unread d)(0 := [])"
    "control_answered (control_start d) = False" "app (control_start d) = app d"
    "device_stopped (control_start d) = device_stopped d"
    "configuration_value (control_start d) = configuration_value d"
    "reset_generation (control_start d) = reset_generation d"
proof -
  let ?e = "(endpoint_data d ! 0)\<lparr>ep_data_length := 0\<rparr>"
  have "wf_endpoint ?e" using wf_device_nth [OF assms, of 0] by (simp add: wf_endpoint_def)
  then show "wf_device (control_start d)"
    using wf_device_update [OF assms, of ?e 0] by (simp add: control_start_def)
  show "unread (control_start d) = (unread d)(0 := [])"
    using unread_update [OF assms, of 0 ?e] by (simp add: control_start_def)
qed (simp_all add: control_start_def)

lemma usbip_device_control_alt:
  "usbip_device_control ud setup buffer len d =
     (let d = control_start d; bfType = drop_bit 5 (setup ! 0) AND 0x03; bfRecipient = setup ! 0 AND 0x1f
      in if bfType \<noteq> 0 \<or> bfRecipient = 1 then
           bind_res (control_callback ud setup buffer len d) (\<lambda>d. Done (True, d))
         else if bfRecipient = 0 then device_request ud setup buffer len d
         else if bfRecipient = 2 then endpoint_request setup d
         else Done (False, d))"
  by (simp add: usbip_device_control_def control_start_def Let_def interface_request_def)

lemma fetch_control_reply_spec:
  assumes wf: "wf_device d" and buf: "min m (length (unread d 0)) \<le> length buffer"
  shows "returns (\<lambda>(answered, len, buffer', d').
     answered = control_answered d \<and> len = min m (length (unread d 0)) \<and>
     length buffer' = length buffer \<and> take len buffer' = take len (unread d 0) \<and>
     wf_device d' \<and> unread d' = (unread d)(0 := []) \<and> app d' = app d \<and> \<not> control_answered d' \<and>
     device_stopped d' = device_stopped d \<and> configuration_value d' = configuration_value d \<and>
     reset_generation d' = reset_generation d)
     (usbip_device_fetch_control_reply buffer m d)"
  unfolding usbip_device_fetch_control_reply_def Let_def
  by (rule returns_bindI [OF usbip_device_fetch_ep_data_spec]) (use assms in auto)

context device_program
begin

lemma descriptors_len:
  "18 \<le> length (device_desc ud)" "9 \<le> length (config_desc ud)"
  "unat (le16 (config_desc ud ! 2) (config_desc ud ! 3)) \<le> length (config_desc ud)"
  using descriptors by (simp_all add: wf_descriptors_def)

lemma device_request_returns:
  assumes d: "dev_inv I d" and "length setup = 8" and "n \<le> length data"
  shows "returns (\<lambda>(supported, d'). dev_inv I d') (device_request ud setup data n d)"
proof -
  have g: "returns (\<lambda>(supported, d'). dev_inv I d') (get_descriptor ud setup n d)"
    by (rule returns_mono [OF get_descriptor_reply_spec [OF _ descriptors]])
      (use d in \<open>auto simp: dev_inv_def reply_spec_def\<close>)
  have t: "returns (\<lambda>(supported, d'). dev_inv I d') (transmit_reply bytes (length bytes) d)" for bytes
    by (rule returns_mono [OF transmit_reply_inv [OF d order.refl]]) auto
  have "dev_inv I (d\<lparr>configuration_value := c\<rparr>)" for c
    using d by (simp add: dev_inv_def)
  note c = control [OF this assms(2,3)]
  have s: "nth_res (config_desc ud) 7 = Done (config_desc ud ! 7)"
    using descriptors_len(2) by simp
  show ?thesis
    using g t [of "[_, _]"] t [of "[_]"] d
    by (auto simp: device_request_def s Let_def control_callback_def numeral_2_eq_2
        intro!: returns_bindI [OF c])
qed

lemma control_returns:
  assumes "dev_inv I d" and "length setup = 8" and "n \<le> length data"
  shows "returns (\<lambda>(supported, d'). dev_inv I d') (usbip_device_control ud setup data n d)"
proof -
  have d: "dev_inv I (control_start d)"
    using assms(1) by (simp add: dev_inv_def control_start_simps)
  have t: "returns (\<lambda>(supported, d'). dev_inv I d') (transmit_reply [0, 0] 2 (control_start d))"
    by (rule returns_mono [OF transmit_reply_inv [OF d]]) auto
  show ?thesis
    using device_request_returns [OF d assms(2,3)] t d
    by (auto simp: usbip_device_control_alt Let_def control_callback_def endpoint_request_def
        intro!: returns_bindI [OF control [OF d assms(2,3)]])
qed

lemma reset_returns: "dev_inv I d \<Longrightarrow> returns (dev_inv I) (usbip_device_reset ud d)"
  using reset [of "usbip_device_clear_event ((clear_endpoint_data d)\<lparr>configuration_value := 0,
      control_answered := False, reset_generation := reset_generation d + 1\<rparr>)"]
  by (auto simp: usbip_device_reset_def Let_def dev_inv_def clear_endpoint_data_def
      usbip_device_clear_event_def wf_device_def list_all_length wf_endpoint_def split: option.split)

lemma receive_returns:
  "dev_inv I d \<Longrightarrow> n \<le> length data \<Longrightarrow> ep_data_callback ud \<noteq> None \<Longrightarrow>
   returns (dev_inv I) (usbip_device_receive ud ep data n d)"
  by (auto simp: usbip_device_receive_def intro: ep_data)

lemma iso_in_returns:
  "dev_inv I d \<Longrightarrow>
   returns (\<lambda>(len, bytes, d'). len \<le> m \<and> length bytes \<le> m \<and> dev_inv I d') (usbip_device_iso_in ud ep m d)"
  unfolding usbip_device_iso_in_def
  by (cases "iso_in_callback ud") (auto intro!: returns_bindI [OF iso_in])

end

section \<open>Properties\<close>

lemma init_device_simps [simp]:
  "wf_device (init_device a)" "i < 16 \<Longrightarrow> unread (init_device a) i = []"
  "device_stopped (init_device a) = False" "app (init_device a) = a"
  "configuration_value (init_device a) = 0" "control_answered (init_device a) = False"
  by (auto simp: init_device_def wf_device_def list_all_iff wf_endpoint_def unread_def)

text \<open>A host that reads an endpoint with transfers of the given sizes, into one buffer.\<close>

fun fetch_transfers :: "u8 \<Rightarrow> nat list \<Rightarrow> u8 list \<Rightarrow> 'd device \<Rightarrow> (u8 list \<times> 'd device) res" where
  "fetch_transfers ep [] buffer d = Done ([], d)"
| "fetch_transfers ep (m # ms) buffer d =
     bind_res (usbip_device_fetch_ep_data ep buffer m d) (\<lambda>(len, buffer, d).
     bind_res (fetch_transfers ep ms buffer d) (\<lambda>(bytes, d). Done (take len buffer @ bytes, d)))"

lemma fetch_transfers_spec:
  fixes d :: "'d device"
  shows "wf_device d \<Longrightarrow> 0 < ep_index ep \<Longrightarrow> 512 \<le> length buffer \<Longrightarrow>
   returns (\<lambda>(bytes, d'). bytes = take (sum_list ms) (unread d (ep_index ep)) \<and> wf_device d' \<and>
     unread d' = (unread d)(ep_index ep := drop (sum_list ms) (unread d (ep_index ep))))
     (fetch_transfers ep ms buffer d)"
proof (induction ms arbitrary: buffer d)
  case Nil
  then show ?case by simp
next
  case (Cons m ms)
  let ?u = "unread d (ep_index ep)"
  have "min m (length ?u) \<le> length buffer"
    using length_unread_le [OF Cons.prems(1) ep_index_less [of ep]] Cons.prems(3) by linarith
  note f = usbip_device_fetch_ep_data_spec [OF Cons.prems(1) this]
  show ?case
    unfolding fetch_transfers.simps
  proof (rule returns_bindI [OF f], clarify)
    fix len buffer' and d' :: "'d device"
    assume *: "length buffer' = length buffer" "wf_device d'"
      "take (min m (length ?u)) buffer' = take (min m (length ?u)) ?u"
      "unread d' = (unread d)(ep_index ep := if ep_index ep = 0 then [] else drop (min m (length ?u)) ?u)"
    have r: "returns (\<lambda>(bytes, d2). bytes = take (sum_list ms) (unread d' (ep_index ep)) \<and> wf_device d2 \<and>
        unread d2 = (unread d')(ep_index ep := drop (sum_list ms) (unread d' (ep_index ep))))
        (fetch_transfers ep ms buffer' d')"
      by (rule Cons.IH) (use * Cons.prems in simp_all)
    have u': "unread d' = (unread d)(ep_index ep := drop m ?u)"
      using *(4) Cons.prems(2) by (simp add: min_def)
    have t: "take (min m (length ?u)) buffer' = take m ?u" using *(3) by (simp add: min_def)
    show "returns (\<lambda>(bytes, d'). bytes = take (sum_list (m # ms)) ?u \<and> wf_device d' \<and>
        unread d' = (unread d)(ep_index ep := drop (sum_list (m # ms)) ?u))
        (bind_res (fetch_transfers ep ms buffer' d') (\<lambda>(bytes, d). Done (take (min m (length ?u)) buffer' @ bytes, d)))"
      by (rule returns_bindI [OF r]) (auto simp: u' t take_add add.commute)
  qed
qed

text \<open>
  C23. Data transmitted on an endpoint reaches the host unchanged and in order, cut to 512 bytes: the
  transmit succeeds when the endpoint is empty, and the host's transfers, whatever their sizes,
  return the bytes one after the other; what does not fit a transfer stays for the next one.
\<close>

theorem transmit_reaches_host:
  assumes "wf_device d" and "\<not> device_stopped d" and "0 < ep_index ep" and "unread d (ep_index ep) = []"
    and "n \<le> length data" and "512 \<le> length buffer"
  shows "\<exists>d1 d2. usbip_device_transmit ep data n d = Done (True, d1) \<and>
     fetch_transfers ep ms buffer d1 = Done (take (sum_list ms) (take (cut_length n) data), d2) \<and>
     unread d2 (ep_index ep) = drop (sum_list ms) (take (cut_length n) data)"
proof -
  have "cut_length n \<le> length data" using assms(5) by simp
  from usbip_device_transmit_spec [OF assms(1) this, of ep] obtain d1 where
    d1: "usbip_device_transmit ep data n d = Done (True, d1)" "wf_device d1"
      "unread d1 = (unread d)(ep_index ep := take (cut_length n) data)"
    using assms(2,4) by (auto simp: returns_iff)
  from fetch_transfers_spec [OF d1(2) assms(3,6), of ms] d1 show ?thesis
    by (auto simp: returns_iff)
qed

theorem transmit_reaches_host_witness:
  "\<exists>d1 d2. usbip_device_transmit 0x81 [1, 2, 3] 3 (init_device ()) = Done (True, d1) \<and>
     fetch_transfers 0x81 [2, 2] (replicate 65536 0) d1 = Done ([1, 2, 3], d2)"
proof -
  have "take (sum_list [2, 2]) (take (cut_length 3) [1, 2, 3 :: u8]) = [1, 2, 3]" by simp
  with transmit_reaches_host [of "init_device ()" "0x81" 3 "[1, 2, 3]" "replicate 65536 0" "[2, 2]"]
  show ?thesis by simp blast
qed

lemma get_descriptor_control:
  assumes "wf_device d" and "\<not> device_stopped d" and "wf_descriptors ud" and "setup ! 0 = 0x80" and "setup ! 1 = 6"
  obtains d1 where "usbip_device_control ud setup data req d = Done (True, d1)" "wf_device d1"
    "control_answered d1 = (std_descriptor ud (setup ! 3) (setup ! 2) \<noteq> None)"
    "unread d1 0 = (case std_descriptor ud (setup ! 3) (setup ! 2) of
       None \<Rightarrow> [] | Some bytes \<Rightarrow> take (cut_length req) bytes)"
proof -
  let ?d = "control_start d" and ?desc = "std_descriptor ud (setup ! 3) (setup ! 2)"
  note s = control_start_simps [OF assms(1)]
  have c: "usbip_device_control ud setup data req d = get_descriptor ud setup req ?d"
    using assms(4,5) by (simp add: usbip_device_control_alt device_request_def Let_def)
  have r: "returns (\<lambda>(supported, d'). supported \<and> reply_spec ?desc req ?d d') (get_descriptor ud setup req ?d)"
    by (rule get_descriptor_reply_spec [OF s(1) assms(3)])
  obtain d1 where d1: "get_descriptor ud setup req ?d = Done (True, d1)" "reply_spec ?desc req ?d d1"
    using r by (auto simp: returns_iff)
  show ?thesis
    by (rule that [of d1]) (use c d1 assms(2) s in \<open>auto simp: reply_spec_def split: option.splits\<close>)
qed

text \<open>
  \<open>GET_DESCRIPTOR\<close> of a device follows its specification \<open>std_descriptor\<close>: for every descriptor
  type and index the control request is accepted, it is answered exactly when the specification
  has a descriptor (a request without an answer is stalled), and the reply is the start of that
  descriptor, as much as the host asked for and at most 512 bytes.
\<close>

theorem get_descriptor_answer:
  assumes "wf_device d" and "\<not> device_stopped d" and "wf_descriptors ud"
    and "setup ! 0 = 0x80" and "setup ! 1 = 6" and "512 \<le> length tx"
  shows "\<exists>d1 d2 len tx'.
     usbip_device_control ud setup data req d = Done (True, d1) \<and>
     usbip_device_fetch_control_reply tx req d1 = Done (std_descriptor ud (setup ! 3) (setup ! 2) \<noteq> None, len, tx', d2) \<and>
     take len tx' = (case std_descriptor ud (setup ! 3) (setup ! 2) of
        None \<Rightarrow> [] | Some bytes \<Rightarrow> take (cut_length req) bytes)"
proof -
  let ?desc = "std_descriptor ud (setup ! 3) (setup ! 2)"
  obtain d1 where d1: "usbip_device_control ud setup data req d = Done (True, d1)" "wf_device d1"
    "control_answered d1 = (?desc \<noteq> None)"
    "unread d1 0 = (case ?desc of None \<Rightarrow> [] | Some bytes \<Rightarrow> take (cut_length req) bytes)"
    by (rule get_descriptor_control [OF assms(1-5)])
  have "min req (length (unread d1 0)) \<le> length tx"
    using length_unread_le [OF d1(2), of 0] assms(6) by simp
  from fetch_control_reply_spec [OF d1(2) this] obtain len tx' d2 where
    "usbip_device_fetch_control_reply tx req d1 = Done (control_answered d1, len, tx', d2)"
    "len = min req (length (unread d1 0))" "take len tx' = take len (unread d1 0)"
    by (auto simp: returns_iff)
  moreover have "take (min req (length (unread d1 0))) (unread d1 0) = unread d1 0"
    by (auto simp: d1(4) min_def split: option.splits)
  ultimately show ?thesis using d1 by auto
qed

end
