(* ===== verification/Protocol.thy ===== *)
theory Protocol
  imports Wire Tcpip Device
begin

text \<open>
  The USB/IP protocol of the server, \<open>src/lib/usbip_protocol.c\<close>: one definition per function. The
  record \<open>srv\<close> holds the static variables of the file, with the connection (\<open>net\<close>) and the device
  (\<open>dev\<close>) it works on. \<open>clock\<close> is the monotonic clock, the \<open>i\<close>-th reading of which is
  \<open>clock i\<close>; \<open>ticks\<close> counts the readings. An endpoint number is masked to 4 bits before it indexes
  \<open>endpoints\<close>, a direction is turned into 0 or 1, so the array is a function here. Messages printed
  on the terminal are left out.
\<close>

section \<open>State\<close>

abbreviation (input) USBIP_MAX_PACKET_SIZE :: nat where "USBIP_MAX_PACKET_SIZE \<equiv> 65536"
abbreviation (input) USBIP_PROTOCOL_VERSION :: u16 where "USBIP_PROTOCOL_VERSION \<equiv> 0x0111"
abbreviation (input) EP_STALL :: u32 where "EP_STALL \<equiv> - 32"
abbreviation (input) URB_UNLINKED :: u32 where "URB_UNLINKED \<equiv> - 104"
abbreviation (input) MAX_PENDING_URBS :: nat where "MAX_PENDING_URBS \<equiv> 32"
abbreviation (input) MAX_ISO_PACKETS :: nat where "MAX_ISO_PACKETS \<equiv> 128"
abbreviation (input) WAIT_TIMEOUT_US :: u64 where "WAIT_TIMEOUT_US \<equiv> 500000"

abbreviation (input) USB_ENDPOINT_XFER_ISOC :: u8 where "USB_ENDPOINT_XFER_ISOC \<equiv> 1"
abbreviation (input) USB_ENDPOINT_XFER_INT :: u8 where "USB_ENDPOINT_XFER_INT \<equiv> 3"
abbreviation (input) USB_DT_ENDPOINT :: u8 where "USB_DT_ENDPOINT \<equiv> 5"
abbreviation (input) USB_SPEED_HIGH :: u32 where "USB_SPEED_HIGH \<equiv> 3"

record endpoint_t =
  ep_type :: u8
  interval_us :: u64
  next_poll_us :: u64
  stream_end_us :: u64

record iso_packet_t =
  pk_offset :: u32
  pk_length :: u32

record pending_urb_t =
  ur_seqnum :: u32
  ur_ep :: u32
  ur_direction :: u32
  ur_transfer_buffer_length :: u32
  ur_isochronous :: bool
  ur_start_frame :: u32
  ur_number_of_packets :: u32
  ur_complete_us :: u64
  ur_packets :: "iso_packet_t list"  \<comment> \<open>iso_packet_t packets[MAX_ISO_PACKETS]\<close>

record 'd srv =
  device_imported :: bool
  pending_urbs :: "pending_urb_t list"  \<comment> \<open>pending_urb_t pending_urbs[MAX_PENDING_URBS]\<close>
  num_pending_urbs :: nat
  endpoints :: "nat \<Rightarrow> nat \<Rightarrow> endpoint_t"  \<comment> \<open>endpoint_t endpoints[2][NUMBER_OF_ENDPOINTS]\<close>
  wait_timeout_us :: u64
  rx_buffer :: "u8 list"
  tx_buffer :: "u8 list"
  iso_urb :: pending_urb_t  \<comment> \<open>static pending_urb_t urb of process_iso_submit\<close>
  net :: net
  dev :: "'d device"
  clock :: "nat \<Rightarrow> u64 \<times> u64"  \<comment> \<open>tv_sec and tv_nsec\<close>
  ticks :: nat

definition zero_endpoint :: endpoint_t where
  "zero_endpoint = \<lparr>ep_type = 0, interval_us = 0, next_poll_us = 0, stream_end_us = 0\<rparr>"

definition zero_urb :: pending_urb_t where
  "zero_urb =
     \<lparr>ur_seqnum = 0, ur_ep = 0, ur_direction = 0, ur_transfer_buffer_length = 0,
      ur_isochronous = False, ur_start_frame = 0, ur_number_of_packets = 0, ur_complete_us = 0,
      ur_packets = replicate MAX_ISO_PACKETS \<lparr>pk_offset = 0, pk_length = 0\<rparr>\<rparr>"

text \<open>The static initialisers of the file, for a given connection, device and clock.\<close>

definition init_srv :: "net \<Rightarrow> 'd device \<Rightarrow> (nat \<Rightarrow> u64 \<times> u64) \<Rightarrow> 'd srv" where
  "init_srv n d c =
     \<lparr>device_imported = False, pending_urbs = replicate MAX_PENDING_URBS zero_urb, num_pending_urbs = 0,
      endpoints = (\<lambda>_ _. zero_endpoint), wait_timeout_us = WAIT_TIMEOUT_US,
      rx_buffer = replicate USBIP_MAX_PACKET_SIZE 0, tx_buffer = replicate USBIP_MAX_PACKET_SIZE 0,
      iso_urb = zero_urb, net = n, dev = d, clock = c, ticks = 0\<rparr>"

section \<open>Access to the connection, the clock and the tables\<close>

definition srv_read :: "nat \<Rightarrow> 'd srv \<Rightarrow> (bool \<times> u8 list \<times> 'd srv) res" where
  "srv_read k s = bind_res (tcpip_server_read k (net s)) (\<lambda>(status, bytes, n). Done (status, bytes, s\<lparr>net := n\<rparr>))"

definition srv_write :: "u8 list \<Rightarrow> 'd srv \<Rightarrow> bool \<times> 'd srv" where
  "srv_write bytes s = (case tcpip_server_write bytes (net s) of (status, n) \<Rightarrow> (status, s\<lparr>net := n\<rparr>))"

definition now_us :: "'d srv \<Rightarrow> u64 \<times> 'd srv" where
  "now_us s =
     (let (tv_sec, tv_nsec) = clock s (ticks s)
      in (tv_sec * 1000000 + tv_nsec div 1000, s\<lparr>ticks := ticks s + 1\<rparr>))"

abbreviation (input) dir_index :: "u32 \<Rightarrow> nat" where
  "dir_index direction \<equiv> (if direction \<noteq> 0 then 1 else 0)"

abbreviation (input) ep_number :: "u32 \<Rightarrow> nat" where
  "ep_number ep \<equiv> unat (ep AND 0xf)"

definition set_endpoint :: "nat \<Rightarrow> nat \<Rightarrow> endpoint_t \<Rightarrow> 'd srv \<Rightarrow> 'd srv" where
  "set_endpoint i j e s = s\<lparr>endpoints := (endpoints s)(i := (endpoints s i)(j := e))\<rparr>"

text \<open>
  \<open>num_pending_urbs - idx\<close> is unsigned: for an \<open>idx\<close> outside the queue the \<open>memmove\<close> leaves the array.
\<close>

definition remove_pending_urb :: "nat \<Rightarrow> 'd srv \<Rightarrow> 'd srv res" where
  "remove_pending_urb idx s =
     (if idx < num_pending_urbs s then
        (let num = num_pending_urbs s - 1 in
         bind_res (read_mem (pending_urbs s) (idx + 1) (num - idx)) (\<lambda>moved.
         bind_res (write_mem (pending_urbs s) idx moved) (\<lambda>urbs.
           Done (s\<lparr>pending_urbs := urbs, num_pending_urbs := num\<rparr>))))
      else Fault)"

definition has_pending_iso_urbs :: "u32 \<Rightarrow> u32 \<Rightarrow> 'd srv \<Rightarrow> bool" where
  "has_pending_iso_urbs ep direction s =
     list_ex (\<lambda>urb. ur_isochronous urb \<and> ur_ep urb = ep \<and> ur_direction urb = direction)
       (take (num_pending_urbs s) (pending_urbs s))"

text \<open>The body of the loop of \<open>load_endpoints\<close> for an endpoint descriptor.\<close>

definition load_endpoint :: "u8 \<Rightarrow> u8 \<Rightarrow> u8 \<Rightarrow> (nat \<Rightarrow> nat \<Rightarrow> endpoint_t) \<Rightarrow> (nat \<Rightarrow> nat \<Rightarrow> endpoint_t)" where
  "load_endpoint bEndpointAddress bmAttributes bInterval eps =
     (let in_dir = (bEndpointAddress AND 0x80 \<noteq> 0);
          i = (if in_dir then 1 else 0);
          j = unat (bEndpointAddress AND 0xf);
          endpoint = (eps i j)\<lparr>ep_type := bmAttributes AND 0x03\<rparr>;
          paced = (ep_type endpoint = USB_ENDPOINT_XFER_ISOC \<or>
                   (in_dir \<and> ep_type endpoint = USB_ENDPOINT_XFER_INT));
          endpoint =
            (if paced \<and> bInterval > 0 then
               (let exponent = (if bInterval > 16 then 16 else bInterval)
                in endpoint\<lparr>interval_us := push_bit (unat exponent - 1) 125\<rparr>)
             else endpoint)
      in eps(i := (eps i)(j := endpoint)))"

function load_endpoints_loop ::
  "u8 list \<Rightarrow> nat \<Rightarrow> nat \<Rightarrow> (nat \<Rightarrow> nat \<Rightarrow> endpoint_t) \<Rightarrow> (nat \<Rightarrow> nat \<Rightarrow> endpoint_t) res" where
  "load_endpoints_loop config total_length idx eps =
     (if idx + 7 \<le> total_length then
        bind_res (nth_res config idx) (\<lambda>bLength.
          if bLength > 0 then
            bind_res (nth_res config (idx + 1)) (\<lambda>bDescriptorType.
            bind_res
              (if bDescriptorType = USB_DT_ENDPOINT then
                 bind_res (nth_res config (idx + 2)) (\<lambda>bEndpointAddress.
                 bind_res (nth_res config (idx + 3)) (\<lambda>bmAttributes.
                 bind_res (nth_res config (idx + 6)) (\<lambda>bInterval.
                   Done (load_endpoint bEndpointAddress bmAttributes bInterval eps))))
               else Done eps)
              (\<lambda>eps. load_endpoints_loop config total_length (idx + unat bLength) eps))
          else Done eps)
      else Done eps)"
  by pat_completeness auto
termination
  by (relation "measure (\<lambda>(config, total_length, idx, eps). total_length - idx)")
     (auto simp: word_less_nat_alt)

declare load_endpoints_loop.simps [simp del]

definition load_endpoints :: "u8 list \<Rightarrow> 'd srv \<Rightarrow> 'd srv res" where
  "load_endpoints config s =
     bind_res (config_total_length config) (\<lambda>total_length.
     bind_res (load_endpoints_loop config total_length 0 (\<lambda>_ _. zero_endpoint)) (\<lambda>eps.
       Done (s\<lparr>endpoints := eps\<rparr>)))"

section \<open>Replies to commands\<close>

text \<open>IN transfers send \<open>actual_length\<close> bytes of \<open>tx_buffer\<close>, OUT transfers only report the length.\<close>

definition transmit_ret_submit :: "u32 \<Rightarrow> u32 \<Rightarrow> nat \<Rightarrow> bool \<Rightarrow> 'd srv \<Rightarrow> (bool \<times> 'd srv) res" where
  "transmit_ret_submit seqnum urb_status actual_length send_data s =
     (let ret_header = \<lparr>hb_command = SWAP32 USBIP_RET_SUBMIT, hb_seqnum = SWAP32 seqnum,
                        hb_devid = SWAP32 0, hb_direction = SWAP32 0, hb_ep = SWAP32 0\<rparr>;
          ret_submit = \<lparr>rs_status = SWAP32 urb_status, rs_actual_length = SWAP32 (of_nat actual_length),
                        rs_start_frame = SWAP32 0, rs_number_of_packets = SWAP32 0xffffffff,
                        rs_error_count = SWAP32 0, rs_padding = 0\<rparr>;
          (status, s) =
            and_then (srv_write (usbip_header_basic_bytes ret_header) s)
              (srv_write (usbip_ret_submit_bytes ret_submit))
      in if status \<and> send_data \<and> actual_length > 0
         then bind_res (read_mem (tx_buffer s) 0 actual_length) (\<lambda>bytes. Done (srv_write bytes s))
         else Done (status, s))"

text \<open>
  The loop over the packets of an isochronous transfer. \<open>total_length\<close> is where the next IN packet
  goes in \<open>tx_buffer\<close>; the space left is computed in \<open>size_t\<close>. The result holds the packet
  descriptors, the total length and the state.
\<close>

definition iso_packet_in ::
  "'d usbip_device_t \<Rightarrow> pending_urb_t \<Rightarrow> iso_packet_t \<Rightarrow> nat \<Rightarrow> 'd srv \<Rightarrow> (nat \<times> 'd srv) res" where
  "iso_packet_in usb_device urb packet total_length s =
     (let actual_length = unat (pk_length packet) in
      if ur_direction urb \<noteq> 0 then
        (let space = unat (ucast (ur_transfer_buffer_length urb) - of_nat total_length :: u64);
             max_length = (if actual_length < space then actual_length else space)
         in bind_res (usbip_device_iso_in usb_device (ucast (ur_ep urb)) max_length (dev s))
              (\<lambda>(actual_length, bytes, d).
            bind_res (write_mem (tx_buffer s) total_length bytes) (\<lambda>tx.
              Done (actual_length, s\<lparr>dev := d, tx_buffer := tx\<rparr>))))
      else Done (actual_length, s))"

fun iso_packets_loop ::
  "'d usbip_device_t \<Rightarrow> pending_urb_t \<Rightarrow> iso_packet_t list \<Rightarrow> nat \<Rightarrow> 'd srv \<Rightarrow>
   (usbip_iso_packet_descriptor_t list \<times> nat \<times> 'd srv) res" where
  "iso_packets_loop usb_device urb [] total_length s = Done ([], total_length, s)"
| "iso_packets_loop usb_device urb (packet # packets) total_length s =
     bind_res (iso_packet_in usb_device urb packet total_length s) (\<lambda>(actual_length, s).
     bind_res (iso_packets_loop usb_device urb packets (total_length + actual_length) s)
       (\<lambda>(descriptors, total_length, s).
          Done (\<lparr>ip_offset = SWAP32 (pk_offset packet), ip_length = SWAP32 (pk_length packet),
                 ip_actual_length = SWAP32 (of_nat actual_length), ip_status = SWAP32 0\<rparr> # descriptors,
                total_length, s)))"

text \<open>The messages of the reply, after the loop over the packets.\<close>

definition transmit_iso_reply ::
  "pending_urb_t \<Rightarrow> usbip_iso_packet_descriptor_t list \<Rightarrow> nat \<Rightarrow> 'd srv \<Rightarrow> (bool \<times> 'd srv) res" where
  "transmit_iso_reply urb descriptors total_length s =
     (let ret_header = \<lparr>hb_command = SWAP32 USBIP_RET_SUBMIT, hb_seqnum = SWAP32 (ur_seqnum urb),
                        hb_devid = 0, hb_direction = 0, hb_ep = 0\<rparr>;
          ret_submit = \<lparr>rs_status = SWAP32 0, rs_actual_length = SWAP32 (of_nat total_length),
                        rs_start_frame = SWAP32 (ur_start_frame urb),
                        rs_number_of_packets = SWAP32 (ur_number_of_packets urb),
                        rs_error_count = SWAP32 0, rs_padding = 0\<rparr>;
          (status, s) =
            and_then (srv_write (usbip_header_basic_bytes ret_header) s)
              (srv_write (usbip_ret_submit_bytes ret_submit))
      in bind_res
           (if status \<and> ur_direction urb \<noteq> 0 \<and> total_length > 0
            then bind_res (read_mem (tx_buffer s) 0 total_length) (\<lambda>bytes. Done (srv_write bytes s))
            else Done (status, s))
           (\<lambda>(status, s).
              Done (if status \<and> ur_number_of_packets urb > 0
                    then srv_write (concat (map usbip_iso_packet_descriptor_bytes descriptors)) s
                    else (status, s))))"

definition transmit_iso_ret_submit ::
  "'d usbip_device_t \<Rightarrow> pending_urb_t \<Rightarrow> 'd srv \<Rightarrow> (bool \<times> 'd srv) res" where
  "transmit_iso_ret_submit usb_device urb s =
     bind_res (read_mem (ur_packets urb) 0 (unat (ur_number_of_packets urb))) (\<lambda>packets.
     bind_res (iso_packets_loop usb_device urb packets 0 s) (\<lambda>(descriptors, total_length, s).
       transmit_iso_reply urb descriptors total_length s))"

section \<open>Commands of an imported device\<close>

fun find_pending_urb :: "u32 \<Rightarrow> pending_urb_t list \<Rightarrow> nat \<Rightarrow> nat option" where
  "find_pending_urb unlink_seqnum [] idx = None"
| "find_pending_urb unlink_seqnum (urb # urbs) idx =
     (if ur_seqnum urb = unlink_seqnum then Some idx
      else find_pending_urb unlink_seqnum urbs (idx + 1))"

text \<open>The search and the removal of \<open>process_unlink\<close>: the status of the reply and the state.\<close>

definition unlink_pending_urb :: "u32 \<Rightarrow> 'd srv \<Rightarrow> (u32 \<times> 'd srv) res" where
  "unlink_pending_urb unlink_seqnum s =
     bind_res (read_mem (pending_urbs s) 0 (num_pending_urbs s)) (\<lambda>urbs.
       case find_pending_urb unlink_seqnum urbs 0 of
         None \<Rightarrow> Done (0, s)
       | Some idx \<Rightarrow>
           (let ep = ur_ep (urbs ! idx);
                direction = ur_direction (urbs ! idx);
                isochronous = ur_isochronous (urbs ! idx)
            in bind_res (remove_pending_urb idx s) (\<lambda>s.
                 let i = dir_index direction; j = ep_number ep in
                 Done (URB_UNLINKED,
                   (if isochronous \<and> \<not> has_pending_iso_urbs ep direction s
                    then set_endpoint i j ((endpoints s i j)\<lparr>stream_end_us := 0\<rparr>) s
                    else s)))))"

definition process_unlink :: "u32 \<Rightarrow> 'd srv \<Rightarrow> (bool \<times> 'd srv) res" where
  "process_unlink seqnum s =
     bind_res (srv_read 28 s) (\<lambda>(status, bytes, s).
       if \<not> status then Done (False, s)
       else
         bind_res (unlink_pending_urb (SWAP32 (cu_unlink_seqnum (usbip_cmd_unlink_of bytes))) s)
           (\<lambda>(unlink_status, s).
              let ret_header = \<lparr>hb_command = SWAP32 USBIP_RET_UNLINK, hb_seqnum = SWAP32 seqnum,
                                hb_devid = SWAP32 0, hb_direction = SWAP32 0, hb_ep = SWAP32 0\<rparr>;
                  ret_unlink = \<lparr>ru_status = SWAP32 unlink_status, ru_padding = replicate 24 0\<rparr>
              in Done (and_then (srv_write (usbip_header_basic_bytes ret_header) s)
                         (srv_write (usbip_ret_unlink_bytes ret_unlink)))))"

text \<open>
  The loop that takes the packet descriptors from the wire: \<open>idx\<close> is the packet, the next argument
  counts the packets left. It stops at a packet outside the transfer buffer.
\<close>

fun load_iso_packets :: "u8 list \<Rightarrow> nat \<Rightarrow> nat \<Rightarrow> pending_urb_t \<Rightarrow> (bool \<times> pending_urb_t) res" where
  "load_iso_packets descriptors idx 0 urb = Done (True, urb)"
| "load_iso_packets descriptors idx (Suc left) urb =
     (let descriptor = usbip_iso_packet_descriptor_of descriptors (16 * idx);
          packet = \<lparr>pk_offset = SWAP32 (ip_offset descriptor), pk_length = SWAP32 (ip_length descriptor)\<rparr>
      in bind_res (write_mem (ur_packets urb) idx [packet]) (\<lambda>packets.
           let urb = urb\<lparr>ur_packets := packets\<rparr> in
           if unat (pk_offset packet) + unat (pk_length packet) > unat (ur_transfer_buffer_length urb)
           then Done (False, urb)
           else load_iso_packets descriptors (idx + 1) left urb))"

fun receive_iso_packets ::
  "'d usbip_device_t \<Rightarrow> u32 \<Rightarrow> iso_packet_t list \<Rightarrow> 'd srv \<Rightarrow> 'd srv res" where
  "receive_iso_packets usb_device ep [] s = Done s"
| "receive_iso_packets usb_device ep (packet # packets) s =
     bind_res
       (if pk_length packet > 0 \<and> ep_data_callback usb_device \<noteq> None then
          bind_res
            (usbip_device_receive usb_device (ucast ep) (drop (unat (pk_offset packet)) (rx_buffer s))
               (unat (pk_length packet)) (dev s))
            (\<lambda>d. Done (s\<lparr>dev := d\<rparr>))
        else Done s)
       (receive_iso_packets usb_device ep packets)"

text \<open>The time a transfer completes, and the new end of the endpoint's stream.\<close>

definition iso_complete_us :: "u32 \<Rightarrow> endpoint_t \<Rightarrow> u64 \<Rightarrow> u64" where
  "iso_complete_us number_of_packets endpoint now =
     (let start = (if stream_end_us endpoint > now then stream_end_us endpoint else now)
      in start + ucast number_of_packets * interval_us endpoint)"

text \<open>The part of \<open>process_iso_submit\<close> after the packets are loaded and their OUT data is delivered.\<close>

definition queue_iso_urb :: "'d usbip_device_t \<Rightarrow> 'd srv \<Rightarrow> (bool \<times> 'd srv) res" where
  "queue_iso_urb usb_device s =
     (let i = dir_index (ur_direction (iso_urb s)); j = ep_number (ur_ep (iso_urb s));
          (now, s) = now_us s;
          urb = (iso_urb s)\<lparr>ur_complete_us :=
                  iso_complete_us (ur_number_of_packets (iso_urb s)) (endpoints s i j) now\<rparr>;
          s = s\<lparr>iso_urb := urb\<rparr>;
          s = set_endpoint i j ((endpoints s i j)\<lparr>stream_end_us := ur_complete_us urb\<rparr>) s
      in if num_pending_urbs s = MAX_PENDING_URBS then transmit_iso_ret_submit usb_device urb s
         else bind_res (write_mem (pending_urbs s) (num_pending_urbs s) [urb]) (\<lambda>urbs.
                Done (True, s\<lparr>pending_urbs := urbs, num_pending_urbs := num_pending_urbs s + 1\<rparr>)))"

text \<open>\<open>inside\<close> says that all packets are inside the transfer buffer.\<close>

definition submit_iso_urb ::
  "'d usbip_device_t \<Rightarrow> bool \<Rightarrow> pending_urb_t \<Rightarrow> 'd srv \<Rightarrow> (bool \<times> 'd srv) res" where
  "submit_iso_urb usb_device inside urb s =
     (let s = s\<lparr>iso_urb := urb\<rparr> in
      if \<not> inside then Done (False, s)
      else bind_res
        (if ur_direction urb = 0
         then bind_res (read_mem (ur_packets urb) 0 (unat (ur_number_of_packets urb))) (\<lambda>packets.
                receive_iso_packets usb_device (ur_ep urb) packets s)
         else Done s)
        (queue_iso_urb usb_device))"

definition process_iso_submit ::
  "'d usbip_device_t \<Rightarrow> u32 \<Rightarrow> u32 \<Rightarrow> u32 \<Rightarrow> usbip_cmd_submit_t \<Rightarrow> 'd srv \<Rightarrow> (bool \<times> 'd srv) res" where
  "process_iso_submit usb_device seqnum ep direction cmd_submit s =
     (let number_of_packets = SWAP32 (cs_number_of_packets cmd_submit) in
      if unat number_of_packets > MAX_ISO_PACKETS then Done (False, s)
      else bind_res (srv_read (unat number_of_packets * 16) s) (\<lambda>(status, descriptors, s).
        if \<not> status then Done (False, s)
        else
          let urb = (iso_urb s)\<lparr>ur_seqnum := seqnum, ur_ep := ep, ur_direction := direction,
                      ur_transfer_buffer_length := SWAP32 (cs_transfer_buffer_length cmd_submit),
                      ur_isochronous := True, ur_start_frame := SWAP32 (cs_start_frame cmd_submit),
                      ur_number_of_packets := number_of_packets\<rparr>
          in bind_res (load_iso_packets descriptors 0 (unat number_of_packets) urb)
               (\<lambda>(inside, urb). submit_iso_urb usb_device inside urb s)))"

definition process_control ::
  "'d usbip_device_t \<Rightarrow> u32 \<Rightarrow> u32 \<Rightarrow> u8 list \<Rightarrow> nat \<Rightarrow> 'd srv \<Rightarrow> (bool \<times> 'd srv) res" where
  "process_control usb_device seqnum direction setup transfer_buffer_length s =
     bind_res (usbip_device_control usb_device setup (rx_buffer s) transfer_buffer_length (dev s))
       (\<lambda>(supported, d).
     bind_res
       (if direction = 1 then
          bind_res (usbip_device_fetch_control_reply (tx_buffer s) transfer_buffer_length d)
            (\<lambda>(answered, tx_length, tx, d).
               Done (if transfer_buffer_length > 0 \<and> \<not> answered then False else supported, tx_length,
                     s\<lparr>dev := d, tx_buffer := tx\<rparr>))
        else Done (supported, 0, s\<lparr>dev := d\<rparr>))
       (\<lambda>(supported, tx_length, s).
          if \<not> supported then transmit_ret_submit seqnum EP_STALL 0 False s
          else if direction = 0 then transmit_ret_submit seqnum 0 transfer_buffer_length False s
          else transmit_ret_submit seqnum 0 tx_length True s))"

text \<open>An IN transfer is queued: only these members of the slot are written.\<close>

definition queue_urb :: "u32 \<Rightarrow> u32 \<Rightarrow> u32 \<Rightarrow> u32 \<Rightarrow> 'd srv \<Rightarrow> 'd srv res" where
  "queue_urb seqnum ep direction transfer_buffer_length s =
     bind_res (nth_res (pending_urbs s) (num_pending_urbs s)) (\<lambda>slot.
       Done (s\<lparr>pending_urbs := (pending_urbs s)[num_pending_urbs s :=
                  slot\<lparr>ur_seqnum := seqnum, ur_ep := ep, ur_direction := direction,
                        ur_transfer_buffer_length := transfer_buffer_length,
                        ur_isochronous := False\<rparr>],
               num_pending_urbs := num_pending_urbs s + 1\<rparr>))"

definition process_data ::
  "'d usbip_device_t \<Rightarrow> u32 \<Rightarrow> u32 \<Rightarrow> u32 \<Rightarrow> u32 \<Rightarrow> 'd srv \<Rightarrow> (bool \<times> 'd srv) res" where
  "process_data usb_device seqnum ep direction transfer_buffer_length s =
     (if direction = 0 then
        bind_res
          (if transfer_buffer_length > 0 \<and> ep_data_callback usb_device \<noteq> None then
             bind_res
               (usbip_device_receive usb_device (ucast ep) (rx_buffer s) (unat transfer_buffer_length) (dev s))
               (\<lambda>d. Done (s\<lparr>dev := d\<rparr>))
           else Done s)
          (transmit_ret_submit seqnum 0 (unat transfer_buffer_length) False)
      else if num_pending_urbs s = MAX_PENDING_URBS then transmit_ret_submit seqnum 0 0 True s
      else bind_res (queue_urb seqnum ep direction transfer_buffer_length s) (\<lambda>s. Done (True, s)))"

definition process_submit ::
  "'d usbip_device_t \<Rightarrow> u32 \<Rightarrow> u32 \<Rightarrow> u32 \<Rightarrow> 'd srv \<Rightarrow> (bool \<times> 'd srv) res" where
  "process_submit usb_device seqnum ep direction s =
     bind_res (srv_read 28 s) (\<lambda>(status, bytes, s).
       let cmd_submit = usbip_cmd_submit_of bytes;
           transfer_buffer_length = SWAP32 (cs_transfer_buffer_length cmd_submit)
       in
       if \<not> status \<or> unat transfer_buffer_length > USBIP_MAX_PACKET_SIZE then Done (False, s)
       else bind_res
         (if direction = 0 then
            bind_res (srv_read (unat transfer_buffer_length) s) (\<lambda>(status, data, s).
            bind_res (write_mem (rx_buffer s) 0 data) (\<lambda>rx. Done (status, s\<lparr>rx_buffer := rx\<rparr>)))
          else Done (True, s))
         (\<lambda>(status, s).
            if \<not> status then Done (False, s)
            else if ep \<noteq> 0 \<and>
                ep_type (endpoints s (dir_index direction) (ep_number ep)) = USB_ENDPOINT_XFER_ISOC
            then process_iso_submit usb_device seqnum ep direction cmd_submit s
            else if ep = 0
            then process_control usb_device seqnum direction (cs_setup cmd_submit)
                   (unat transfer_buffer_length) s
            else process_data usb_device seqnum ep direction transfer_buffer_length s))"

definition process_imported_cmd :: "'d usbip_device_t \<Rightarrow> 'd srv \<Rightarrow> (bool \<times> 'd srv) res" where
  "process_imported_cmd usb_device s =
     bind_res (srv_read 20 s) (\<lambda>(status, bytes, s).
       if \<not> status then Done (False, s)
       else
         let cmd_header = usbip_header_basic_of bytes;
             command = SWAP32 (hb_command cmd_header);
             seqnum = SWAP32 (hb_seqnum cmd_header)
         in if command = USBIP_CMD_SUBMIT
            then process_submit usb_device seqnum (SWAP32 (hb_ep cmd_header))
                   (SWAP32 (hb_direction cmd_header)) s
            else if command = USBIP_CMD_UNLINK then process_unlink seqnum s
            else Done (False, s))"

section \<open>Frames of the operations\<close>

text \<open>Which static variables an operation leaves alone: the rest of the state is as before.\<close>

lemma srv_write_frame: "srv_write bytes s = (status, s') \<Longrightarrow> \<exists>n. s' = s\<lparr>net := n\<rparr>"
  by (auto simp: srv_write_def split: prod.splits)

lemma srv_read_frame: "srv_read k s = Done (status, bytes, s') \<Longrightarrow> \<exists>n. s' = s\<lparr>net := n\<rparr>"
  by (auto simp: srv_read_def res_simps split: prod.splits)

lemma and_then_frame:
  "and_then (srv_write as s) (srv_write bs) = (status, s') \<Longrightarrow> \<exists>n. s' = s\<lparr>net := n\<rparr>"
  by (cases "srv_write as s") (auto dest!: srv_write_frame split: if_splits)

lemma transmit_ret_submit_frame:
  "transmit_ret_submit seqnum urb_status len send_data s = Done (status, s') \<Longrightarrow> \<exists>n. s' = s\<lparr>net := n\<rparr>"
  by (auto simp: transmit_ret_submit_def res_simps Let_def
      dest!: srv_write_frame and_then_frame split: prod.splits if_splits)

lemma iso_packet_in_frame:
  "iso_packet_in ud urb packet total_length s = Done (n, s') \<Longrightarrow>
   \<exists>d tx. s' = s\<lparr>dev := d, tx_buffer := tx\<rparr>"
proof (cases "ur_direction urb = 0")
  case True
  moreover assume "iso_packet_in ud urb packet total_length s = Done (n, s')"
  ultimately have "s' = s\<lparr>dev := dev s, tx_buffer := tx_buffer s\<rparr>" by (simp add: iso_packet_in_def)
  then show ?thesis by blast
next
  case False
  moreover assume "iso_packet_in ud urb packet total_length s = Done (n, s')"
  ultimately show ?thesis by (auto simp: iso_packet_in_def res_simps Let_def)
qed

lemma iso_packets_loop_frame:
  "iso_packets_loop ud urb packets total_length s = Done (ds, n, s') \<Longrightarrow>
   \<exists>d tx. s' = s\<lparr>dev := d, tx_buffer := tx\<rparr>"
proof (induction packets arbitrary: total_length s ds n)
  case Nil
  then have "s' = s\<lparr>dev := dev s, tx_buffer := tx_buffer s\<rparr>" by simp
  then show ?case by blast
next
  case (Cons p ps)
  then obtain k s1 ds1 where "iso_packet_in ud urb p total_length s = Done (k, s1)"
    and "iso_packets_loop ud urb ps (total_length + k) s1 = Done (ds1, n, s')"
    by (auto simp: res_simps)
  from Cons.IH [OF this(2)] iso_packet_in_frame [OF this(1)] obtain d tx d1 tx1 where
    "s' = s1\<lparr>dev := d, tx_buffer := tx\<rparr>" "s1 = s\<lparr>dev := d1, tx_buffer := tx1\<rparr>" by blast
  then have "s' = s\<lparr>dev := d, tx_buffer := tx\<rparr>" by simp
  then show ?case by blast
qed

lemma transmit_iso_reply_frame:
  "transmit_iso_reply urb ds len s = Done (status, s') \<Longrightarrow> \<exists>n. s' = s\<lparr>net := n\<rparr>"
  by (auto simp: transmit_iso_reply_def res_simps Let_def
      dest!: srv_write_frame and_then_frame split: prod.splits if_splits)

lemma transmit_iso_ret_submit_frame:
  assumes "transmit_iso_ret_submit ud urb s = Done (status, s')"
  shows "\<exists>n d tx. s' = s\<lparr>net := n, dev := d, tx_buffer := tx\<rparr>"
proof -
  obtain packets ds len s1 where
    1: "iso_packets_loop ud urb packets 0 s = Done (ds, len, s1)"
    and 2: "transmit_iso_reply urb ds len s1 = Done (status, s')"
    using assms by (auto simp: transmit_iso_ret_submit_def res_simps)
  from iso_packets_loop_frame [OF 1] transmit_iso_reply_frame [OF 2] obtain n d tx where
    "s' = s1\<lparr>net := n\<rparr>" "s1 = s\<lparr>dev := d, tx_buffer := tx\<rparr>" by blast
  then have "s' = s\<lparr>net := n, dev := d, tx_buffer := tx\<rparr>" by simp
  then show ?thesis by blast
qed

lemma remove_pending_urb_frame:
  "remove_pending_urb idx s = Done s' \<Longrightarrow> idx < num_pending_urbs s \<and>
   (\<exists>urbs. s' = s\<lparr>pending_urbs := urbs, num_pending_urbs := num_pending_urbs s - 1\<rparr>)"
  by (auto simp: remove_pending_urb_def res_simps Let_def split: if_splits)

section \<open>Completing pending transfers\<close>

text \<open>When a pending transfer may complete, and the wait for one that may not yet.\<close>

definition due_us :: "'d srv \<Rightarrow> pending_urb_t \<Rightarrow> u64" where
  "due_us s urb =
     (if ur_isochronous urb then ur_complete_us urb
      else next_poll_us (endpoints s 1 (ep_number (ur_ep urb))))"

definition shorten_wait :: "u64 \<Rightarrow> 'd srv \<Rightarrow> 'd srv" where
  "shorten_wait t s = (if t < wait_timeout_us s then s\<lparr>wait_timeout_us := t\<rparr> else s)"

text \<open>The endpoint of a transfer that completes at \<open>now\<close> is polled again one interval later.\<close>

definition served :: "u64 \<Rightarrow> pending_urb_t \<Rightarrow> 'd srv \<Rightarrow> 'd srv" where
  "served now urb s =
     (let j = ep_number (ur_ep urb)
      in set_endpoint 1 j ((endpoints s 1 j)\<lparr>next_poll_us := now + interval_us (endpoints s 1 j)\<rparr>) s)"

text \<open>
  The loop of \<open>complete_pending_urbs\<close>. Each round either goes on to the next transfer or removes the
  current one, so the transfers after \<open>idx\<close> get fewer.
\<close>

function complete_loop :: "'d usbip_device_t \<Rightarrow> u64 \<Rightarrow> nat \<Rightarrow> 'd srv \<Rightarrow> (bool \<times> 'd srv) res" where
  "complete_loop usb_device now idx s =
     (if idx < num_pending_urbs s then
        bind_res (nth_res (pending_urbs s) idx) (\<lambda>urb.
          if now < due_us s urb then
            complete_loop usb_device now (idx + 1) (shorten_wait (due_us s urb - now) s)
          else if ur_isochronous urb then
            bind_res (transmit_iso_ret_submit usb_device urb s) (\<lambda>(status, s).
            bind_res (remove_pending_urb idx s) (\<lambda>s.
              if status then complete_loop usb_device now idx s else Done (False, s)))
          else
            bind_res (usbip_device_fetch_ep_data (ucast (ur_ep urb)) (tx_buffer s)
                        (unat (ur_transfer_buffer_length urb)) (dev s)) (\<lambda>(tx_length, tx, d).
              let s = s\<lparr>tx_buffer := tx, dev := d\<rparr> in
              if tx_length > 0 then
                bind_res (remove_pending_urb idx (served now urb s)) (\<lambda>s.
                bind_res (transmit_ret_submit (ur_seqnum urb) 0 tx_length True s) (\<lambda>(status, s).
                  if status then complete_loop usb_device now idx s else Done (False, s)))
              else complete_loop usb_device now (idx + 1) s))
      else Done (True, s))"
  by pat_completeness auto
termination
  by (relation "measure (\<lambda>(usb_device, now, idx, s). num_pending_urbs s - idx)")
     (auto simp: served_def set_endpoint_def shorten_wait_def Let_def dest!: remove_pending_urb_frame
       transmit_ret_submit_frame transmit_iso_ret_submit_frame)

declare complete_loop.simps [simp del]

text \<open>The rounds of the loop, one equation per branch.\<close>

lemma complete_loop_end: "\<not> idx < num_pending_urbs s \<Longrightarrow> complete_loop ud now idx s = Done (True, s)"
  by (simp add: complete_loop.simps)

lemma complete_loop_wait:
  "idx < num_pending_urbs s \<Longrightarrow> nth_res (pending_urbs s) idx = Done urb \<Longrightarrow> now < due_us s urb \<Longrightarrow>
   complete_loop ud now idx s = complete_loop ud now (idx + 1) (shorten_wait (due_us s urb - now) s)"
  by (subst complete_loop.simps) simp

lemma complete_loop_iso:
  "idx < num_pending_urbs s \<Longrightarrow> nth_res (pending_urbs s) idx = Done urb \<Longrightarrow> \<not> now < due_us s urb \<Longrightarrow>
   ur_isochronous urb \<Longrightarrow>
   complete_loop ud now idx s =
     bind_res (transmit_iso_ret_submit ud urb s) (\<lambda>(status, s).
     bind_res (remove_pending_urb idx s) (\<lambda>s.
       if status then complete_loop ud now idx s else Done (False, s)))"
  by (subst complete_loop.simps) simp

lemma complete_loop_data:
  "idx < num_pending_urbs s \<Longrightarrow> nth_res (pending_urbs s) idx = Done urb \<Longrightarrow> \<not> now < due_us s urb \<Longrightarrow>
   \<not> ur_isochronous urb \<Longrightarrow>
   complete_loop ud now idx s =
     bind_res (usbip_device_fetch_ep_data (ucast (ur_ep urb)) (tx_buffer s)
                 (unat (ur_transfer_buffer_length urb)) (dev s)) (\<lambda>(tx_length, tx, d).
       if tx_length > 0 then
         bind_res (remove_pending_urb idx (served now urb (s\<lparr>tx_buffer := tx, dev := d\<rparr>))) (\<lambda>s.
         bind_res (transmit_ret_submit (ur_seqnum urb) 0 tx_length True s) (\<lambda>(status, s).
           if status then complete_loop ud now idx s else Done (False, s)))
       else complete_loop ud now (idx + 1) (s\<lparr>tx_buffer := tx, dev := d\<rparr>))"
  by (subst complete_loop.simps) (simp add: Let_def)

definition complete_pending_urbs :: "'d usbip_device_t \<Rightarrow> 'd srv \<Rightarrow> (bool \<times> 'd srv) res" where
  "complete_pending_urbs usb_device s =
     (let (now, s) = now_us s
      in complete_loop usb_device now 0 (s\<lparr>wait_timeout_us := WAIT_TIMEOUT_US\<rparr>))"

definition usbip_protocol_process_imported_device ::
  "'d usbip_device_t \<Rightarrow> 'd srv \<Rightarrow> (bool \<times> 'd srv) res" where
  "usbip_protocol_process_imported_device usb_device s =
     (let (data, n) = tcpip_server_wait_for_data (net s);
          s = s\<lparr>net := n\<rparr>
      in
      bind_res (if data then process_imported_cmd usb_device s else Done (True, s)) (\<lambda>(status, s).
      let s = s\<lparr>dev := usbip_device_clear_event (dev s)\<rparr> in
      bind_res (if status then complete_pending_urbs usb_device s else Done (False, s)) (\<lambda>(status, s).
        if status then Done (False, s)
        else bind_res
          (usbip_device_reset usb_device (dev s))
          (\<lambda>d. Done (True, s\<lparr>device_imported := False, num_pending_urbs := 0, dev := d\<rparr>)))))"

section \<open>Operations before a device is imported\<close>

definition transmit_response_head :: "u16 \<Rightarrow> 'd srv \<Rightarrow> bool \<times> 'd srv" where
  "transmit_response_head response_code s =
     srv_write (op_rep_head_bytes \<lparr>rp_version = SWAP16 USBIP_PROTOCOL_VERSION,
       rp_reply_code = SWAP16 response_code, rp_status = SWAP32 0\<rparr>) s"

definition transmit_number_of_devices :: "u32 \<Rightarrow> 'd srv \<Rightarrow> bool \<times> 'd srv" where
  "transmit_number_of_devices num_devices s = srv_write (le_bytes32 (SWAP32 num_devices)) s"

text \<open>\<open>strcpy\<close> into an array of \<open>n\<close> zero bytes.\<close>

definition char_array :: "nat \<Rightarrow> string \<Rightarrow> u8 list" where
  "char_array n str = map of_char str @ replicate (n - length str) 0"

definition transmit_device_id :: "'d srv \<Rightarrow> bool \<times> 'd srv" where
  "transmit_device_id s =
     srv_write (usbip_device_id_bytes
       \<lparr>di_path = char_array 256 ''sys/usb/virtual_device'', di_bus_id = char_array 32 ''1-1'',
        di_busnum = SWAP32 2, di_devnum = SWAP32 3, di_speed = SWAP32 USB_SPEED_HIGH\<rparr>) s"

definition transmit_device :: "'d usbip_device_t \<Rightarrow> 'd srv \<Rightarrow> (bool \<times> 'd srv) res" where
  "transmit_device usb_device s =
     bind_res (read_mem (device_desc usb_device) 0 18) (\<lambda>device_desc.
     bind_res (read_mem (config_desc usb_device) 0 6) (\<lambda>config_desc.
       Done (srv_write (usbip_device_descriptor_bytes
         \<lparr>dd_idVendor = SWAP16 (le16 (device_desc ! 8) (device_desc ! 9)),
          dd_idProduct = SWAP16 (le16 (device_desc ! 10) (device_desc ! 11)),
          dd_bcdDevice = SWAP16 (le16 (device_desc ! 12) (device_desc ! 13)),
          dd_bDeviceClass = device_desc ! 4,
          dd_bDeviceSubClass = device_desc ! 5,
          dd_bDeviceProtocol = device_desc ! 6,
          dd_bConfigurationValue = config_desc ! 5,
          dd_bNumConfigurations = device_desc ! 17,
          dd_bNumInterfaces = config_desc ! 4\<rparr>) s)))"

text \<open>
  The loop of \<open>get_next_interface_idx\<close> does not end on a descriptor of length 0: \<open>None\<close> is not
  returning, \<open>Some Fault\<close> a read behind the descriptors.
\<close>

partial_function (option) next_interface_loop :: "u8 list \<Rightarrow> nat \<Rightarrow> nat \<Rightarrow> u8 \<Rightarrow> nat res option" where
  "next_interface_loop config total_size idx desc_size =
     (if idx < total_size then
        (let idx = idx + unat desc_size in
         if idx + 1 < length config then
           (if config ! (idx + 1) = 0x04 then Some (Done idx)
            else next_interface_loop config total_size idx (config ! idx))
         else Some Fault)
      else Some (Done idx))"

definition get_next_interface_idx :: "u8 list \<Rightarrow> nat \<Rightarrow> nat res" where
  "get_next_interface_idx config start_idx =
     bind_res (config_total_length config) (\<lambda>total_size.
     bind_res (nth_res config start_idx) (\<lambda>desc_size.
       case next_interface_loop config total_size start_idx desc_size of
         None \<Rightarrow> NoReturn | Some result \<Rightarrow> result))"

fun transmit_interfaces ::
  "'d usbip_device_t \<Rightarrow> nat \<Rightarrow> nat \<Rightarrow> bool \<times> 'd srv \<Rightarrow> (bool \<times> 'd srv) res" where
  "transmit_interfaces usb_device 0 iface_idx (status, s) = Done (status, s)"
| "transmit_interfaces usb_device (Suc left) iface_idx (status, s) =
     bind_res (get_next_interface_idx (config_desc usb_device) iface_idx) (\<lambda>iface_idx.
     bind_res (nth_res (config_desc usb_device) (iface_idx + 5)) (\<lambda>bInterfaceClass.
     bind_res (nth_res (config_desc usb_device) (iface_idx + 6)) (\<lambda>bInterfaceSubClass.
     bind_res (nth_res (config_desc usb_device) (iface_idx + 7)) (\<lambda>bInterfaceProtocol.
       let interface = \<lparr>id_bInterfaceClass = bInterfaceClass, id_bInterfaceSubClass = bInterfaceSubClass,
                        id_bInterfaceProtocol = bInterfaceProtocol, id_padding = 0\<rparr>;
           (status, s) = and_then (status, s) (srv_write (usbip_interface_descriptor_bytes interface))
       in if status then transmit_interfaces usb_device left iface_idx (status, s)
          else Done (False, s)))))"

text \<open>\<open>if (status) { status = f(...); }\<close> for a call that may not return.\<close>

fun and_then_res :: "bool \<times> 's \<Rightarrow> ('s \<Rightarrow> (bool \<times> 's) res) \<Rightarrow> (bool \<times> 's) res" where
  "and_then_res (status, s) f = (if status then f s else Done (False, s))"

definition transmit_devlist_response :: "'d usbip_device_t \<Rightarrow> 'd srv \<Rightarrow> (bool \<times> 'd srv) res" where
  "transmit_devlist_response usb_device s =
     bind_res
       (and_then_res
          (and_then (and_then (transmit_response_head OP_REP_DEVLIST s) (transmit_number_of_devices 1))
             transmit_device_id)
          (transmit_device usb_device))
       (\<lambda>(status, s).
     bind_res (nth_res (config_desc usb_device) 4) (\<lambda>num_interfaces.
       transmit_interfaces usb_device (unat num_interfaces) 0 (status, s)))"

definition transmit_import_response :: "'d usbip_device_t \<Rightarrow> 'd srv \<Rightarrow> (bool \<times> 'd srv) res" where
  "transmit_import_response usb_device s =
     and_then_res (and_then (transmit_response_head OP_REP_IMPORT s) transmit_device_id)
       (transmit_device usb_device)"

definition process_import :: "'d usbip_device_t \<Rightarrow> 'd srv \<Rightarrow> (bool \<times> 'd srv) res" where
  "process_import usb_device s =
     bind_res (srv_read 32 s) (\<lambda>(status, busid_str, s).
       if \<not> status then Done (False, s)
       else
         let s = s\<lparr>num_pending_urbs := 0, wait_timeout_us := WAIT_TIMEOUT_US\<rparr> in
         bind_res (load_endpoints (config_desc usb_device) s) (\<lambda>s.
         bind_res (usbip_device_reset usb_device (dev s)) (\<lambda>d.
         bind_res (transmit_import_response usb_device (s\<lparr>dev := d\<rparr>)) (\<lambda>(imported, s).
           Done (True, s\<lparr>device_imported := imported\<rparr>)))))"

definition usbip_protocol_process_cmd :: "'d usbip_device_t \<Rightarrow> 'd srv \<Rightarrow> (bool \<times> 'd srv) res" where
  "usbip_protocol_process_cmd usb_device s =
     bind_res (srv_read 8 s) (\<lambda>(status, bytes, s).
       let req_head = op_req_head_of bytes;
           cmd = SWAP16 (rq_command_code req_head)
       in bind_res
            (if \<not> status \<or> SWAP16 (rq_version req_head) \<noteq> USBIP_PROTOCOL_VERSION then Done (False, s)
             else if cmd = OP_REQ_DEVLIST then transmit_devlist_response usb_device s
             else if cmd = OP_REQ_IMPORT then process_import usb_device s
             else Done (False, s))
            (\<lambda>(status, s). Done (\<not> (status \<and> device_imported s), s)))"

end
