(* ===== verification/Urb_Queue.thy ===== *)
theory Urb_Queue
  imports Protocol
begin

text \<open>
  The table of pending transfers of \<open>src/lib/usbip_protocol.c\<close>: the array \<open>pending_urbs\<close> with its fill
  count \<open>num_pending_urbs\<close> refines a list. Queueing appends to the list, \<open>remove_pending_urb\<close> takes
  out one element, and the order of the others stays.
\<close>

section \<open>The queue of pending transfers\<close>

text \<open>The array and its fill count as the list they stand for.\<close>

definition pend :: "'d srv \<Rightarrow> pending_urb_t list" where
  "pend s = take (num_pending_urbs s) (pending_urbs s)"

definition drop_nth :: "nat \<Rightarrow> 'a list \<Rightarrow> 'a list" where
  "drop_nth i xs = take i xs @ drop (Suc i) xs"

definition wf_queue :: "'d srv \<Rightarrow> bool" where
  "wf_queue s \<longleftrightarrow> length (pending_urbs s) = MAX_PENDING_URBS \<and> num_pending_urbs s \<le> MAX_PENDING_URBS \<and>
     list_all (\<lambda>urb. length (ur_packets urb) = MAX_ISO_PACKETS) (pending_urbs s)"

lemma wf_queue_frame [simp]:
  "wf_queue (s\<lparr>net := n\<rparr>) = wf_queue s" "wf_queue (s\<lparr>dev := d\<rparr>) = wf_queue s"
  "wf_queue (s\<lparr>tx_buffer := b\<rparr>) = wf_queue s" "wf_queue (s\<lparr>rx_buffer := b\<rparr>) = wf_queue s"
  "wf_queue (s\<lparr>wait_timeout_us := t\<rparr>) = wf_queue s" "wf_queue (s\<lparr>ticks := k\<rparr>) = wf_queue s"
  "wf_queue (s\<lparr>endpoints := e\<rparr>) = wf_queue s" "wf_queue (s\<lparr>iso_urb := u\<rparr>) = wf_queue s"
  "wf_queue (s\<lparr>device_imported := i\<rparr>) = wf_queue s" "wf_queue (set_endpoint x y ep s) = wf_queue s"
  by (simp_all add: wf_queue_def set_endpoint_def)

lemma pend_frame [simp]:
  "pend (s\<lparr>net := n\<rparr>) = pend s" "pend (s\<lparr>dev := d\<rparr>) = pend s"
  "pend (s\<lparr>tx_buffer := b\<rparr>) = pend s" "pend (s\<lparr>rx_buffer := b\<rparr>) = pend s"
  "pend (s\<lparr>wait_timeout_us := t\<rparr>) = pend s" "pend (s\<lparr>ticks := k\<rparr>) = pend s"
  "pend (s\<lparr>endpoints := e\<rparr>) = pend s" "pend (s\<lparr>iso_urb := u\<rparr>) = pend s"
  "pend (s\<lparr>device_imported := i\<rparr>) = pend s" "pend (set_endpoint x y ep s) = pend s"
  "pend (s\<lparr>num_pending_urbs := 0\<rparr>) = []"
  by (simp_all add: pend_def set_endpoint_def)

lemma length_pend: "wf_queue s \<Longrightarrow> length (pend s) = num_pending_urbs s"
  by (simp add: pend_def wf_queue_def)

lemma nth_pend: "idx < num_pending_urbs s \<Longrightarrow> pending_urbs s ! idx = pend s ! idx"
  by (simp add: pend_def)

lemma set_drop_nth_subset: "set (drop_nth i xs) \<subseteq> set xs"
  by (auto simp: drop_nth_def dest: in_set_takeD in_set_dropD)

lemma take_overwrite_moved:
  assumes "idx < num" "num \<le> length urbs"
  shows "take (num - 1) (overwrite urbs idx (segment urbs (idx + 1) (num - 1 - idx))) = drop_nth idx (take num urbs)"
proof -
  have "length (segment urbs (idx + 1) (num - 1 - idx)) = num - 1 - idx" using assms by simp
  moreover have "num - 1 = idx" if "num - 1 \<le> idx" using that assms by simp
  ultimately show ?thesis using assms
    by (auto simp: overwrite_def drop_nth_def segment_def min_def drop_take)
qed

lemma remove_pending_urb_returns:
  assumes "wf_queue s" "idx < num_pending_urbs s"
  shows "returns (\<lambda>s'. wf_queue s' \<and> pend s' = drop_nth idx (pend s) \<and>
     (\<exists>urbs num. s' = s\<lparr>pending_urbs := urbs, num_pending_urbs := num\<rparr>)) (remove_pending_urb idx s)"
proof -
  let ?num = "num_pending_urbs s - 1"
  let ?moved = "segment (pending_urbs s) (idx + 1) (?num - idx)"
  let ?urbs = "overwrite (pending_urbs s) idx ?moved"
  have len: "length (pending_urbs s) = 32" "num_pending_urbs s \<le> 32" using assms by (auto simp: wf_queue_def)
  then have m: "length ?moved = ?num - idx" "idx + (?num - idx) \<le> 32" using assms(2) by simp_all
  have r: "remove_pending_urb idx s = Done (s\<lparr>pending_urbs := ?urbs, num_pending_urbs := ?num\<rparr>)"
    using assms(2) len m by (simp add: remove_pending_urb_def Let_def)
  have "set ?urbs \<subseteq> set (pending_urbs s)"
    by (auto simp: overwrite_def segment_def dest: in_set_takeD in_set_dropD)
  then have "wf_queue (s\<lparr>pending_urbs := ?urbs, num_pending_urbs := ?num\<rparr>)"
    using assms len m by (auto simp: wf_queue_def list_all_iff)
  moreover have "pend (s\<lparr>pending_urbs := ?urbs, num_pending_urbs := ?num\<rparr>) = drop_nth idx (pend s)"
    using take_overwrite_moved [OF assms(2), of "pending_urbs s"] len by (simp add: pend_def)
  ultimately show ?thesis unfolding r by auto
qed

lemma queue_urb_returns:
  assumes "wf_queue s" "num_pending_urbs s < MAX_PENDING_URBS"
  shows "returns (\<lambda>s'. wf_queue s' \<and>
     (\<exists>urb. pend s' = pend s @ [urb] \<and> ur_seqnum urb = seqnum \<and> ur_ep urb = ep \<and> ur_direction urb = direction \<and>
        ur_transfer_buffer_length urb = tbl \<and> \<not> ur_isochronous urb) \<and>
     (\<exists>urbs num. s' = s\<lparr>pending_urbs := urbs, num_pending_urbs := num\<rparr>))
     (queue_urb seqnum ep direction tbl s)"
proof -
  let ?n = "num_pending_urbs s"
  let ?u = "(pending_urbs s ! ?n)\<lparr>ur_seqnum := seqnum, ur_ep := ep, ur_direction := direction,
    ur_transfer_buffer_length := tbl, ur_isochronous := False\<rparr>"
  let ?s = "s\<lparr>pending_urbs := (pending_urbs s)[?n := ?u], num_pending_urbs := ?n + 1\<rparr>"
  have len: "length (pending_urbs s) = 32" using assms by (simp add: wf_queue_def)
  have q: "queue_urb seqnum ep direction tbl s = Done ?s"
    using assms len by (simp add: queue_urb_def)
  have "wf_queue ?s"
    using assms len by (auto simp: wf_queue_def list_all_length nth_list_update)
  moreover have "pend ?s = pend s @ [?u]"
    using assms len by (simp add: pend_def take_Suc_conv_app_nth)
  ultimately show ?thesis unfolding q by auto
qed

section \<open>The contract of the queue\<close>

lemma drop_nth_shuffles: "i < length xs \<Longrightarrow> xs \<in> shuffles [xs ! i] (drop_nth i xs)"
proof (induction xs arbitrary: i)
  case (Cons x xs)
  then show ?case
    by (cases i) (auto simp: drop_nth_def Cons_in_shuffles_iff)
qed simp

text \<open>
  What the clients of the queue rely on: removing an element of a well formed queue succeeds, keeps
  it well formed and leaves the list without the element.
\<close>

locale pending_queue =
  fixes wf :: "'s \<Rightarrow> bool" and items :: "'s \<Rightarrow> 'u list" and remove :: "nat \<Rightarrow> 's \<Rightarrow> 's res"
  assumes remove_law: "wf s \<Longrightarrow> i < length (items s) \<Longrightarrow>
    returns (\<lambda>s'. wf s' \<and> items s' = drop_nth i (items s)) (remove i s)"
begin

lemma remove_Done:
  assumes "wf s" "i < length (items s)"
  obtains s' where "remove i s = Done s'" "wf s'" "items s' = drop_nth i (items s)"
  using remove_law [OF assms] by (auto simp: returns_iff)

lemma remove_items_subset:
  "wf s \<Longrightarrow> i < length (items s) \<Longrightarrow> remove i s = Done s' \<Longrightarrow> set (items s') \<subseteq> set (items s)"
  using remove_law [of s i] set_drop_nth_subset by fastforce

lemma remove_length:
  "wf s \<Longrightarrow> i < length (items s) \<Longrightarrow> remove i s = Done s' \<Longrightarrow> length (items s') = length (items s) - 1"
  using remove_law [of s i] by (auto simp: drop_nth_def)

text \<open>The removed element and the rest, in its old order, make up the old list.\<close>

lemma remove_shuffles:
  "wf s \<Longrightarrow> i < length (items s) \<Longrightarrow> remove i s = Done s' \<Longrightarrow> items s \<in> shuffles [items s ! i] (items s')"
  using remove_law [of s i] drop_nth_shuffles [of i "items s"] by auto

end

interpretation urbs: pending_queue wf_queue pend remove_pending_urb
proof
  fix s :: "'d srv" and i
  assume "wf_queue s" "i < length (pend s)"
  then show "returns (\<lambda>s'. wf_queue s' \<and> pend s' = drop_nth i (pend s)) (remove_pending_urb i s)"
    using remove_pending_urb_returns [of s i] by (auto simp: length_pend returns_iff)
qed

end
