(* ===== verification/Protocol_Safe.thy ===== *)
theory Protocol_Safe
  imports Urb_Queue
begin

text \<open>
  The invariant of the protocol layer and its preservation: for a device program that keeps its
  contract, no command of a client, whatever bytes it sends, makes the server leave one of its
  buffers or tables, and the server comes back to its loop unless the client stays silent in the
  middle of a message.
\<close>

section \<open>Invariant\<close>

text \<open>What \<open>process_submit\<close> and \<open>process_iso_submit\<close> have checked of a transfer they queue.\<close>

definition packet_inside :: "pending_urb_t \<Rightarrow> iso_packet_t \<Rightarrow> bool" where
  "packet_inside urb packet \<longleftrightarrow>
     unat (pk_offset packet) + unat (pk_length packet) \<le> unat (ur_transfer_buffer_length urb)"

lemma packet_inside_frame [simp]:
  "packet_inside (urb\<lparr>ur_complete_us := c\<rparr>) = packet_inside urb"
  "packet_inside (urb\<lparr>ur_packets := ps\<rparr>) = packet_inside urb"
  by (simp_all add: packet_inside_def fun_eq_iff)

definition wf_transfer :: "pending_urb_t \<Rightarrow> bool" where
  "wf_transfer urb \<longleftrightarrow> unat (ur_transfer_buffer_length urb) \<le> USBIP_MAX_PACKET_SIZE \<and>
     length (ur_packets urb) = MAX_ISO_PACKETS \<and>
     (if ur_isochronous urb
      then unat (ur_number_of_packets urb) \<le> MAX_ISO_PACKETS \<and>
        list_all (packet_inside urb) (take (unat (ur_number_of_packets urb)) (ur_packets urb))
      else ur_direction urb \<noteq> 0)"

definition wf_srv :: "('d \<Rightarrow> bool) \<Rightarrow> 'd srv \<Rightarrow> bool" where
  "wf_srv I s \<longleftrightarrow> wf_queue s \<and> list_all wf_transfer (pend s) \<and>
     length (ur_packets (iso_urb s)) = MAX_ISO_PACKETS \<and>
     length (rx_buffer s) = USBIP_MAX_PACKET_SIZE \<and> length (tx_buffer s) = USBIP_MAX_PACKET_SIZE \<and>
     0 < wait_timeout_us s \<and> wait_timeout_us s \<le> WAIT_TIMEOUT_US \<and> dev_inv I (dev s)"

text \<open>The connection ends or the server is stopped, so every read of it returns.\<close>

definition live :: "net \<Rightarrow> bool" where
  "live n \<longleftrightarrow> stop_server n \<or> \<not> silent (rd_script n)"

text \<open>The state after a step with the given status; a failed connection is not read again.\<close>

definition step_post :: "bool \<Rightarrow> ('d \<Rightarrow> bool) \<Rightarrow> bool \<times> 'd srv \<Rightarrow> bool" where
  "step_post l I r \<longleftrightarrow> wf_srv I (snd r) \<and> (fst r \<and> l \<longrightarrow> live (net (snd r)))"

lemma wf_srv_frame [simp]:
  "wf_srv I (s\<lparr>net := n\<rparr>) = wf_srv I s" "wf_srv I (s\<lparr>ticks := k\<rparr>) = wf_srv I s"
  "wf_srv I (s\<lparr>endpoints := e\<rparr>) = wf_srv I s" "wf_srv I (s\<lparr>device_imported := i\<rparr>) = wf_srv I s"
  "wf_srv I (set_endpoint x y ep s) = wf_srv I s"
  by (simp_all add: wf_srv_def) (simp_all add: set_endpoint_def)

lemma wf_srv_dev: "wf_srv I s \<Longrightarrow> dev_inv I d \<Longrightarrow> wf_srv I (s\<lparr>dev := d\<rparr>)"
  by (simp add: wf_srv_def)

lemma wf_srv_tx: "wf_srv I s \<Longrightarrow> length b = length (tx_buffer s) \<Longrightarrow> wf_srv I (s\<lparr>tx_buffer := b\<rparr>)"
  by (simp add: wf_srv_def)

lemma wf_srv_rx: "wf_srv I s \<Longrightarrow> length b = length (rx_buffer s) \<Longrightarrow> wf_srv I (s\<lparr>rx_buffer := b\<rparr>)"
  by (simp add: wf_srv_def)

lemma wf_srv_wait:
  "wf_srv I s \<Longrightarrow> 0 < t \<Longrightarrow> t \<le> 500000 \<Longrightarrow> wf_srv I (s\<lparr>wait_timeout_us := t\<rparr>)"
  by (simp add: wf_srv_def)

lemma wf_srv_iso_urb: "wf_srv I s \<Longrightarrow> length (ur_packets u) = 128 \<Longrightarrow> wf_srv I (s\<lparr>iso_urb := u\<rparr>)"
  by (simp add: wf_srv_def)

lemma set_endpoint_frame [simp]:
  "num_pending_urbs (set_endpoint x y e s) = num_pending_urbs s" "net (set_endpoint x y e s) = net s"
  "dev (set_endpoint x y e s) = dev s" "tx_buffer (set_endpoint x y e s) = tx_buffer s"
  "iso_urb (set_endpoint x y e s) = iso_urb s" "pending_urbs (set_endpoint x y e s) = pending_urbs s"
  "wait_timeout_us (set_endpoint x y e s) = wait_timeout_us s"
  by (simp_all add: set_endpoint_def)

lemma shorten_wait_frame [simp]:
  "num_pending_urbs (shorten_wait t s) = num_pending_urbs s" "net (shorten_wait t s) = net s"
  "dev (shorten_wait t s) = dev s" "endpoints (shorten_wait t s) = endpoints s"
  "pend (shorten_wait t s) = pend s" "wf_queue (shorten_wait t s) = wf_queue s"
  "tx_buffer (shorten_wait t s) = tx_buffer s"
  by (simp_all add: shorten_wait_def)

lemma served_frame [simp]:
  "num_pending_urbs (served now urb s) = num_pending_urbs s" "net (served now urb s) = net s"
  "dev (served now urb s) = dev s" "pend (served now urb s) = pend s"
  "wf_queue (served now urb s) = wf_queue s" "wf_srv I (served now urb s) = wf_srv I s"
  "tx_buffer (served now urb s) = tx_buffer s" "wait_timeout_us (served now urb s) = wait_timeout_us s"
  by (simp_all add: served_def Let_def)

lemma wf_init_srv: "dev_inv I d \<Longrightarrow> wf_srv I (init_srv n d c)"
  by (simp add: wf_srv_def init_srv_def wf_queue_def pend_def zero_urb_def list_all_length)

section \<open>Reading and writing\<close>

lemma read_loop_silent:
  "read_loop stop es k acc = Done (True, bs, stop', es') \<Longrightarrow> stop' = stop \<and> (\<not> stop \<longrightarrow> silent es' = silent es)"
  using read_loop_True [of stop es k acc bs stop' es'] by (auto split: if_splits)

lemma srv_read_runs:
  assumes "l \<longrightarrow> live (net s)"
  shows "runs l (\<lambda>(st, bs, s'). length bs \<le> k \<and> (st \<longrightarrow> length bs = k) \<and>
     (\<exists>n. s' = s\<lparr>net := n\<rparr> \<and> (st \<and> l \<longrightarrow> live n))) (srv_read k s)"
proof (cases "tcpip_server_read k (net s)")
  case (Done x)
  obtain st bs n where x: "x = (st, bs, n)" by (cases x)
  have "live n" if st l
    using Done x that assms
    by (auto simp: live_def tcpip_server_read_def res_simps dest!: read_loop_silent)
  then show ?thesis using tcp.rd_length [of k "net s" st bs n] Done x by (auto simp: srv_read_def)
next
  case NoReturn
  then have "srv_read k s = NoReturn" "\<not> live (net s)"
    by (simp add: srv_read_def, simp add: tcpip_server_read_NoReturn_iff live_def)
  then show ?thesis using assms by (simp add: runs_def)
next
  case Fault
  then show ?thesis by (simp add: tcp.rd_no_Fault)
qed

lemma tcpip_server_write_live: "tcpip_server_write bytes n = (st, n') \<Longrightarrow> live n \<Longrightarrow> live n'"
  by (auto simp: tcpip_server_write_def live_def split: prod.splits dest!: write_loop_spec)

lemma srv_write_post: "step_post l I (True, s) \<Longrightarrow> step_post l I (srv_write bytes s)"
  by (auto simp: step_post_def srv_write_def split: prod.splits dest: tcpip_server_write_live)

lemma and_then_post:
  "step_post l I r \<Longrightarrow> (\<And>s. step_post l I (True, s) \<Longrightarrow> step_post l I (f s)) \<Longrightarrow> step_post l I (and_then r f)"
  by (cases r) (auto simp: step_post_def)

lemma step_post_False: "step_post l I (False, s) \<longleftrightarrow> wf_srv I s"
  by (simp add: step_post_def)

lemma step_post_wf: "step_post l I (st, s) \<Longrightarrow> wf_srv I s"
  by (simp add: step_post_def)

lemma step_post_tx: "step_post l I (st, s) \<Longrightarrow> length (tx_buffer s) = 65536"
  by (simp add: step_post_def wf_srv_def)

lemma transmit_ret_submit_returns:
  assumes "step_post l I (True, s)" and "send_data \<longrightarrow> len \<le> 65536"
  shows "returns (step_post l I) (transmit_ret_submit seqnum urb_status len send_data s)"
proof -
  have h: "step_post l I (st, s')" if "and_then (srv_write as s) (srv_write bs) = (st, s')" for as bs st s'
    using assms(1) that by (metis and_then_post srv_write_post)
  show ?thesis
    unfolding transmit_ret_submit_def Let_def
    using assms(2) by (auto simp: step_post_tx srv_write_post split: prod.split dest!: h)
qed

section \<open>Isochronous replies\<close>

lemma iso_space:
  fixes tbl :: u32
  assumes "t \<le> unat tbl"
  shows "unat (ucast tbl - of_nat t :: u64) = unat tbl - t"
proof -
  have "unat tbl < 2 ^ 32" using unsigned_less [of tbl, where ?'a = nat] by simp
  with assms have "unat (of_nat t :: u64) = t" by (intro unat_of_nat_less) simp
  moreover have "unat (ucast tbl :: u64) = unat tbl"
    using \<open>unat tbl < 2 ^ 32\<close> by (simp add: unsigned_ucast_eq take_bit_eq_mod)
  ultimately show ?thesis using assms by (simp add: unat_sub_if_size word_le_nat_alt)
qed

lemma transmit_iso_reply_returns:
  assumes "step_post l I (True, s)" and "ur_direction urb \<noteq> 0 \<longrightarrow> t \<le> 65536"
  shows "returns (step_post l I) (transmit_iso_reply urb ds t s)"
proof -
  have h: "step_post l I (st, s')" if "and_then (srv_write as s) (srv_write bs) = (st, s')" for as bs st s'
    using assms(1) that by (metis and_then_post srv_write_post)
  have w: "step_post l I (st, s')" if "srv_write as s1 = (st, s')" "step_post l I (True, s1)" for as s1 st s'
    using that by (metis srv_write_post)
  show ?thesis
    unfolding transmit_iso_reply_def Let_def
    using assms(2)
    by (auto simp: step_post_tx srv_write_post split: prod.split dest!: h) (metis w srv_write_post)+
qed

context device_program
begin

lemma iso_packet_in_returns:
  assumes "wf_srv I s" and "ur_direction urb \<noteq> 0 \<longrightarrow> t \<le> unat (ur_transfer_buffer_length urb)"
    and "unat (ur_transfer_buffer_length urb) \<le> 65536"
  shows "returns (\<lambda>(k, s'). wf_srv I s' \<and> net s' = net s \<and>
     (ur_direction urb \<noteq> 0 \<longrightarrow> t + k \<le> unat (ur_transfer_buffer_length urb) \<and> k \<le> unat (pk_length packet)) \<and>
     (ur_direction urb = 0 \<longrightarrow> k = unat (pk_length packet)))
     (iso_packet_in ud urb packet t s)"
proof (cases "ur_direction urb = 0")
  case True
  then show ?thesis using assms(1) by (simp add: iso_packet_in_def)
next
  case False
  let ?space = "unat (ur_transfer_buffer_length urb) - t"
  let ?m = "if unat (pk_length packet) < ?space then unat (pk_length packet) else ?space"
  have d: "dev_inv I (dev s)" using assms(1) by (simp add: wf_srv_def)
  have tx: "length (tx_buffer s) = 65536" using assms(1) by (simp add: wf_srv_def)
  have m: "t + ?m \<le> unat (ur_transfer_buffer_length urb)" "?m \<le> unat (pk_length packet)"
    using assms(2) False by auto
  show ?thesis
    using False assms
    by (auto simp: iso_packet_in_def iso_space Let_def tx intro!: returns_bindI [OF iso_in_returns [OF d]]
        wf_srv_dev wf_srv_tx)
qed

lemma iso_packets_loop_returns:
  "wf_srv I s \<Longrightarrow> (ur_direction urb \<noteq> 0 \<longrightarrow> t \<le> unat (ur_transfer_buffer_length urb)) \<Longrightarrow>
   unat (ur_transfer_buffer_length urb) \<le> 65536 \<Longrightarrow>
   returns (\<lambda>(ds, t', s'). wf_srv I s' \<and> net s' = net s \<and>
     (ur_direction urb \<noteq> 0 \<longrightarrow> t' \<le> unat (ur_transfer_buffer_length urb)))
     (iso_packets_loop ud urb packets t s)"
proof (induction packets arbitrary: t s)
  case (Cons p ps)
  show ?case
    unfolding iso_packets_loop.simps
  proof (rule returns_bindI [OF iso_packet_in_returns [OF Cons.prems]], clarify)
    fix k s1
    assume *: "wf_srv I s1" "net s1 = net s"
      "ur_direction urb \<noteq> 0 \<longrightarrow> t + k \<le> unat (ur_transfer_buffer_length urb) \<and> k \<le> unat (pk_length p)"
    show "returns (\<lambda>(ds, t', s'). wf_srv I s' \<and> net s' = net s \<and>
        (ur_direction urb \<noteq> 0 \<longrightarrow> t' \<le> unat (ur_transfer_buffer_length urb)))
        (bind_res (iso_packets_loop ud urb ps (t + k) s1) (\<lambda>(descriptors, total_length, s).
          Done (\<lparr>ip_offset = SWAP32 (pk_offset p), ip_length = SWAP32 (pk_length p),
                 ip_actual_length = SWAP32 (of_nat k), ip_status = SWAP32 0\<rparr> # descriptors, total_length, s)))"
      by (rule returns_bindI [OF Cons.IH [of s1 "t + k"]]) (use * Cons.prems in auto)
  qed
qed simp

lemma transmit_iso_ret_submit_returns:
  assumes "step_post l I (True, s)" and "wf_transfer urb" and "ur_isochronous urb"
  shows "returns (step_post l I) (transmit_iso_ret_submit ud urb s)"
proof -
  have p: "read_mem (ur_packets urb) 0 (unat (ur_number_of_packets urb)) =
      Done (take (unat (ur_number_of_packets urb)) (ur_packets urb))"
    and b: "unat (ur_transfer_buffer_length urb) \<le> 65536"
    using assms(2,3) by (simp_all add: wf_transfer_def)
  show ?thesis
    unfolding transmit_iso_ret_submit_def p bind_res.simps
  proof (rule returns_bindI [OF iso_packets_loop_returns [OF step_post_wf [OF assms(1)] _ b]], simp, clarify)
    fix ds t s1
    assume "wf_srv I s1" "net s1 = net s"
      "ur_direction urb \<noteq> 0 \<longrightarrow> t \<le> unat (ur_transfer_buffer_length urb)"
    then show "returns (step_post l I) (transmit_iso_reply urb ds t s1)"
      using assms(1) b by (intro transmit_iso_reply_returns) (auto simp: step_post_def)
  qed
qed

end

section \<open>Completing transfers\<close>

lemma remove_wf_srv:
  assumes "wf_srv I s" and "idx < num_pending_urbs s"
  shows "returns (\<lambda>s'. wf_srv I s' \<and> net s' = net s \<and> num_pending_urbs s' = num_pending_urbs s - 1)
     (remove_pending_urb idx s)"
proof -
  have q: "wf_queue s" using assms(1) by (simp add: wf_srv_def)
  show ?thesis
  proof (rule returns_mono [OF remove_pending_urb_returns [OF q assms(2)]], clarify)
    fix urbs num
    let ?s = "s\<lparr>pending_urbs := urbs, num_pending_urbs := num\<rparr>"
    assume *: "wf_queue ?s" "pend ?s = drop_nth idx (pend s)"
    have "num = length (pend ?s)" using length_pend [OF *(1)] by simp
    also have "\<dots> = num_pending_urbs s - 1"
      using assms(2) length_pend [OF q] by (simp add: *(2) drop_nth_def)
    finally have n: "num = num_pending_urbs s - 1" .
    have "list_all wf_transfer (pend ?s)"
      using assms(1) set_drop_nth_subset [of idx "pend s"] by (auto simp: wf_srv_def list_all_iff *(2))
    then show "wf_srv I ?s \<and> net ?s = net s \<and> num_pending_urbs ?s = num_pending_urbs s - 1"
      using assms(1) *(1) n by (simp add: wf_srv_def)
  qed
qed

lemma fetch_ep_data_inv:
  assumes "dev_inv I d" and "512 \<le> length buffer"
  shows "returns (\<lambda>(len, buffer', d'). len \<le> 512 \<and> length buffer' = length buffer \<and> dev_inv I d')
     (usbip_device_fetch_ep_data ep buffer m d)"
proof -
  have wf: "wf_device d" using assms(1) by (simp add: dev_inv_def)
  have u: "length (unread d (ep_index ep)) \<le> 512" using length_unread_le [OF wf ep_index_less] .
  have "min m (length (unread d (ep_index ep))) \<le> length buffer" using u assms(2) by linarith
  from usbip_device_fetch_ep_data_spec [OF wf this] show ?thesis
    by (rule returns_mono) (use assms(1) u in \<open>auto simp: dev_inv_def\<close>)
qed

lemma step_post_shorter_wait:
  "step_post l I (True, s) \<Longrightarrow> 0 < t \<Longrightarrow>
   step_post l I (True, shorten_wait t s)"
  by (auto simp: step_post_def wf_srv_def shorten_wait_def)

lemma step_post_served: "step_post l I (st, served now urb s) = step_post l I (st, s)"
  by (simp add: step_post_def)

lemma step_post_tx_dev:
  "step_post l I (st, s) \<Longrightarrow> length b = length (tx_buffer s) \<Longrightarrow> dev_inv I d \<Longrightarrow>
   step_post l I (st, s\<lparr>tx_buffer := b, dev := d\<rparr>)"
  by (auto simp: step_post_def intro!: wf_srv_dev wf_srv_tx)

lemma wf_srv_nth:
  assumes "wf_srv I s" and "idx < num_pending_urbs s"
  shows "nth_res (pending_urbs s) idx = Done (pend s ! idx)" and "wf_transfer (pend s ! idx)"
  using assms length_pend [of s] nth_pend [of idx s]
  by (auto simp: wf_srv_def wf_queue_def list_all_length)

context device_program
begin

lemma complete_loop_returns:
  "step_post l I (True, s) \<Longrightarrow> returns (step_post l I) (complete_loop ud now idx s)"
proof (induction "num_pending_urbs s - idx" arbitrary: idx s rule: less_induct)
  case less
  note IH = less.hyps
  note wf = step_post_wf [OF less.prems]
  show ?case
  proof (cases "idx < num_pending_urbs s")
    case False
    then show ?thesis using less.prems by (simp add: complete_loop_end)
  next
    case True
    let ?u = "pend s ! idx"
    note u = wf_srv_nth [OF wf True]
    consider (wait) "now < due_us s ?u" | (iso) "\<not> now < due_us s ?u" "ur_isochronous ?u"
      | (data) "\<not> now < due_us s ?u" "\<not> ur_isochronous ?u" by blast
    then show ?thesis
    proof cases
      case wait
      then have "step_post l I (True, shorten_wait (due_us s ?u - now) s)"
        by (intro step_post_shorter_wait [OF less.prems]) (auto simp: word_gt_0)
      then show ?thesis
        unfolding complete_loop_wait [OF True u(1) wait] by (rule IH [rotated]) (use True in simp)
    next
      case iso
      have r: "returns (step_post l I) (bind_res (remove_pending_urb idx s1) (\<lambda>s.
          if st then complete_loop ud now idx s else Done (False, s)))"
        if "transmit_iso_ret_submit ud ?u s = Done (st, s1)" "step_post l I (st, s1)" for st s1
      proof -
        have n: "num_pending_urbs s1 = num_pending_urbs s"
          using transmit_iso_ret_submit_frame [OF that(1)] by auto
        then have i: "idx < num_pending_urbs s1" using True by simp
        show ?thesis
          by (rule returns_bindI [OF remove_wf_srv [OF step_post_wf [OF that(2)] i]])
            (use that(2) n True in \<open>auto simp: step_post_def intro!: IH\<close>)
      qed
      show ?thesis
        unfolding complete_loop_iso [OF True u(1) iso]
        by (rule returns_bindI [OF transmit_iso_ret_submit_returns [OF less.prems u(2) iso(2)]]) (auto intro: r)
    next
      case data
      have tx: "512 \<le> length (tx_buffer s)" and d: "dev_inv I (dev s)" using wf by (simp_all add: wf_srv_def)
      have r: "returns (step_post l I) (bind_res (remove_pending_urb idx s1) (\<lambda>s.
          bind_res (transmit_ret_submit (ur_seqnum ?u) 0 len True s) (\<lambda>(status, s).
            if status then complete_loop ud now idx s else Done (False, s))))"
        if "step_post l I (True, s1)" "num_pending_urbs s1 = num_pending_urbs s" "len \<le> 512" for s1 len
      proof (rule returns_bindI [OF remove_wf_srv [OF step_post_wf [OF that(1)]]], use that True in simp, clarify)
        fix s2
        assume *: "wf_srv I s2" "net s2 = net s1" "num_pending_urbs s2 = num_pending_urbs s1 - 1"
        then have p: "step_post l I (True, s2)" using that(1) by (simp add: step_post_def)
        show "returns (step_post l I) (bind_res (transmit_ret_submit (ur_seqnum ?u) 0 len True s2)
            (\<lambda>(status, s). if status then complete_loop ud now idx s else Done (False, s)))"
          by (rule returns_bindI [OF transmit_ret_submit_returns [OF p]])
            (use * that True in \<open>auto intro!: IH dest!: transmit_ret_submit_frame simp: step_post_False step_post_wf\<close>)
      qed
      show ?thesis
        unfolding complete_loop_data [OF True u(1) data]
        by (rule returns_bindI [OF fetch_ep_data_inv [OF d tx]])
          (use True less.prems in \<open>auto simp: step_post_served intro!: r IH step_post_tx_dev\<close>)
    qed
  qed
qed

lemma complete_pending_urbs_returns:
  "step_post l I (True, s) \<Longrightarrow> returns (step_post l I) (complete_pending_urbs ud s)"
  unfolding complete_pending_urbs_def now_us_def Let_def
  by (auto split: prod.split simp: step_post_def intro!: complete_loop_returns [of l] wf_srv_wait)

end

section \<open>Commands\<close>

lemma find_pending_urb_Some:
  "find_pending_urb seqnum urbs k = Some idx \<Longrightarrow>
   k \<le> idx \<and> idx - k < length urbs \<and> ur_seqnum (urbs ! (idx - k)) = seqnum \<and>
   (\<forall>i < idx - k. ur_seqnum (urbs ! i) \<noteq> seqnum)"
proof (induction urbs arbitrary: k)
  case (Cons u us)
  show ?case
  proof (cases "ur_seqnum u = seqnum")
    case False
    with Cons.prems have f: "find_pending_urb seqnum us (k + 1) = Some idx" by simp
    from Cons.IH [OF f] have "idx - k = Suc (idx - (k + 1))" by (elim conjE) linarith
    with Cons.IH [OF f] False show ?thesis
      by (auto simp: nth_Cons split: nat.split)
  qed (use Cons.prems in auto)
qed simp

lemma find_pending_urb_None:
  "find_pending_urb seqnum urbs k = None \<longleftrightarrow> seqnum \<notin> ur_seqnum ` set urbs"
  by (induction urbs arbitrary: k) auto

lemma read_pend: "wf_queue s \<Longrightarrow> read_mem (pending_urbs s) 0 (num_pending_urbs s) = Done (pend s)"
  by (simp add: wf_queue_def pend_def)

lemma unlink_pending_urb_returns:
  assumes "step_post l I (True, s)"
  shows "returns (\<lambda>(st, s'). step_post l I (True, s')) (unlink_pending_urb seqnum s)"
proof (cases "find_pending_urb seqnum (pend s) 0")
  case None
  then show ?thesis
    using assms by (simp add: unlink_pending_urb_def read_pend step_post_def wf_srv_def)
next
  case (Some idx)
  have q: "wf_queue s" using assms by (simp add: step_post_def wf_srv_def)
  have i: "idx < num_pending_urbs s"
    using find_pending_urb_Some [OF Some] length_pend [OF q] by simp
  show ?thesis
    using Some
    by (auto simp: unlink_pending_urb_def read_pend [OF q] step_post_def Let_def
        intro!: returns_bindI [OF remove_wf_srv [OF step_post_wf [OF assms] i]])
      (use assms in \<open>auto simp: step_post_def\<close>)
qed

lemma process_unlink_runs:
  assumes "step_post l I (True, s)"
  shows "runs l (step_post l I) (process_unlink seqnum s)"
  unfolding process_unlink_def
proof (rule runs_bindI [OF srv_read_runs], use assms in \<open>simp add: step_post_def\<close>, clarify)
  fix st bs s1 n
  assume n: "st \<and> l \<longrightarrow> live n"
  have p: "step_post l I (st, s\<lparr>net := n\<rparr>)" using assms n by (auto simp: step_post_def)
  show "runs l (step_post l I) (if \<not> st then Done (False, s\<lparr>net := n\<rparr>) else
      bind_res (unlink_pending_urb (SWAP32 (cu_unlink_seqnum (usbip_cmd_unlink_of bs))) (s\<lparr>net := n\<rparr>))
        (\<lambda>(unlink_status, s).
          let ret_header = \<lparr>hb_command = SWAP32 USBIP_RET_UNLINK, hb_seqnum = SWAP32 seqnum,
                            hb_devid = SWAP32 0, hb_direction = SWAP32 0, hb_ep = SWAP32 0\<rparr>;
              ret_unlink = \<lparr>ru_status = SWAP32 unlink_status, ru_padding = replicate 24 0\<rparr>
          in Done (and_then (srv_write (usbip_header_basic_bytes ret_header) s)
                     (srv_write (usbip_ret_unlink_bytes ret_unlink)))))"
  proof (cases st)
    case True
    then show ?thesis
      using p by (auto simp: Let_def intro!: runs_bind_returnsI [OF unlink_pending_urb_returns [of l I]]
          and_then_post srv_write_post)
  qed (use p in simp)
qed

lemma load_iso_packets_returns:
  "length (ur_packets urb) = 128 \<Longrightarrow> idx + left \<le> 128 \<Longrightarrow>
   list_all (packet_inside urb) (take idx (ur_packets urb)) \<Longrightarrow>
   returns (\<lambda>(inside, urb'). (\<exists>packets. urb' = urb\<lparr>ur_packets := packets\<rparr> \<and> length packets = 128 \<and>
      (inside \<longrightarrow> list_all (packet_inside urb) (take (idx + left) packets))))
     (load_iso_packets ds idx left urb)"
proof (induction left arbitrary: idx urb)
  case 0
  then show ?case by (auto intro!: exI [of _ "ur_packets urb"])
next
  case (Suc left)
  let ?d = "usbip_iso_packet_descriptor_of ds (16 * idx)"
  let ?p = "\<lparr>pk_offset = SWAP32 (ip_offset ?d), pk_length = SWAP32 (ip_length ?d)\<rparr>"
  let ?urb = "urb\<lparr>ur_packets := overwrite (ur_packets urb) idx [?p]\<rparr>"
  have len: "length (ur_packets ?urb) = 128" using Suc.prems by simp
  have "list_all (packet_inside ?urb) (take (idx + 1) (ur_packets ?urb))" if "packet_inside urb ?p"
    using that Suc.prems take_overwrite_append [of idx "[?p]" "ur_packets urb"] by simp
  note IH = Suc.IH [OF len _ this]
  show ?case
  proof (cases "packet_inside urb ?p")
    case True
    then have "load_iso_packets ds idx (Suc left) urb = load_iso_packets ds (idx + 1) left ?urb"
      using Suc.prems by (simp add: Let_def packet_inside_def)
    moreover have "returns (\<lambda>(inside, urb'). (\<exists>packets. urb' = urb\<lparr>ur_packets := packets\<rparr> \<and> length packets = 128 \<and>
      (inside \<longrightarrow> list_all (packet_inside urb) (take (idx + Suc left) packets))))
      (load_iso_packets ds (idx + 1) left ?urb)"
      by (rule returns_mono [OF IH]) (use Suc.prems True in auto)
    ultimately show ?thesis by simp
  next
    case False
    then show ?thesis using Suc.prems by (auto simp: Let_def packet_inside_def)
  qed
qed

context device_program
begin

lemma receive_iso_packets_returns:
  "step_post l I (True, s) \<Longrightarrow> list_all (\<lambda>p. unat (pk_offset p) + unat (pk_length p) \<le> 65536) packets \<Longrightarrow>
   returns (\<lambda>s'. step_post l I (True, s') \<and> (\<exists>d. s' = s\<lparr>dev := d\<rparr>)) (receive_iso_packets ud ep packets s)"
proof (induction packets arbitrary: s)
  case Nil
  then show ?case by (auto intro!: exI [of _ "dev s"])
next
  case (Cons p ps)
  have d: "dev_inv I (dev s)" and rx: "length (rx_buffer s) = 65536"
    using Cons.prems(1) by (simp_all add: step_post_def wf_srv_def)
  show ?case
  proof (cases "pk_length p > 0 \<and> ep_data_callback ud \<noteq> None")
    case True
    have *: "unat (pk_length p) \<le> length (drop (unat (pk_offset p)) (rx_buffer s))"
      using Cons.prems(2) rx by (simp, elim conjE) linarith
    from receive_returns [OF d *, of "ucast ep"] True obtain d1 where
      d1: "usbip_device_receive ud (ucast ep) (drop (unat (pk_offset p)) (rx_buffer s)) (unat (pk_length p)) (dev s) = Done d1"
      "dev_inv I d1" by (auto simp: returns_iff)
    have "step_post l I (True, s\<lparr>dev := d1\<rparr>)"
      using Cons.prems(1) d1(2) by (auto simp: step_post_def intro: wf_srv_dev)
    from Cons.IH [OF this] Cons.prems(2) have
      "returns (\<lambda>s'. step_post l I (True, s') \<and> (\<exists>d. s' = s\<lparr>dev := d1\<rparr>\<lparr>dev := d\<rparr>)) (receive_iso_packets ud ep ps (s\<lparr>dev := d1\<rparr>))"
      by simp
    then show ?thesis using True d1(1) by simp
  qed (use Cons in auto)
qed

lemma queue_iso_urb_returns:
  assumes "step_post l I (True, s)" and "wf_transfer (iso_urb s)" and "ur_isochronous (iso_urb s)"
  shows "returns (step_post l I) (queue_iso_urb ud s)"
proof -
  obtain now s1 where n: "now_us s = (now, s1)" by fastforce
  let ?i = "dir_index (ur_direction (iso_urb s))" and ?j = "ep_number (ur_ep (iso_urb s))"
  let ?u = "(iso_urb s)\<lparr>ur_complete_us := iso_complete_us (ur_number_of_packets (iso_urb s)) (endpoints s ?i ?j) now\<rparr>"
  let ?s = "set_endpoint ?i ?j ((endpoints s ?i ?j)\<lparr>stream_end_us := ur_complete_us ?u\<rparr>) (s\<lparr>ticks := ticks s + 1, iso_urb := ?u\<rparr>)"
  have s1: "s1 = s\<lparr>ticks := ticks s + 1\<rparr>" using n by (auto simp: now_us_def split: prod.splits)
  have u: "wf_transfer ?u" using assms(2) by (simp add: wf_transfer_def)
  have p: "step_post l I (True, ?s)"
    using assms(1) u by (auto simp: step_post_def wf_transfer_def intro!: wf_srv_iso_urb)
  let ?q = "?s\<lparr>pending_urbs := overwrite (pending_urbs ?s) (num_pending_urbs ?s) [?u], num_pending_urbs := num_pending_urbs ?s + 1\<rparr>"
  have q: "queue_iso_urb ud s = (if num_pending_urbs ?s = 32 then transmit_iso_ret_submit ud ?u ?s
      else bind_res (write_mem (pending_urbs ?s) (num_pending_urbs ?s) [?u]) (\<lambda>urbs.
         Done (True, ?s\<lparr>pending_urbs := urbs, num_pending_urbs := num_pending_urbs ?s + 1\<rparr>)))"
    by (simp add: queue_iso_urb_def n s1 Let_def set_endpoint_def)
  show ?thesis
  proof (cases "num_pending_urbs ?s = 32")
    case True
    then show ?thesis using transmit_iso_ret_submit_returns [OF p u] assms(3) by (simp add: q)
  next
    case False
    have len: "length (pending_urbs ?s) = 32" "num_pending_urbs ?s < 32"
      using p False by (auto simp: step_post_def wf_srv_def wf_queue_def)
    have "pend ?q = pend ?s @ [?u]"
      using len take_overwrite_append [of "num_pending_urbs ?s" "[?u]" "pending_urbs ?s"]
      by (simp add: pend_def del: set_endpoint_frame)
    moreover have "wf_queue ?q"
      using p len u
      by (auto simp: step_post_def wf_srv_def wf_queue_def list_all_iff overwrite_def wf_transfer_def
          simp del: set_endpoint_frame dest!: in_set_takeD in_set_dropD)
    ultimately have "step_post l I (True, ?q)"
      using p u by (simp add: step_post_def wf_srv_def del: set_endpoint_frame)
    then show ?thesis using False len by (simp add: q)
  qed
qed

lemma submit_iso_urb_returns:
  assumes p: "step_post l I (True, s)" and len: "length (ur_packets urb) = 128" and "ur_isochronous urb"
    and u: "inside \<longrightarrow> wf_transfer urb"
  shows "returns (step_post l I) (submit_iso_urb ud inside urb s)"
proof (cases inside)
  case False
  then show ?thesis
    using p len by (auto simp: submit_iso_urb_def step_post_def intro!: wf_srv_iso_urb)
next
  case True
  let ?s = "s\<lparr>iso_urb := urb\<rparr>" and ?ps = "take (unat (ur_number_of_packets urb)) (ur_packets urb)"
  have s: "step_post l I (True, ?s)"
    using p len by (auto simp: step_post_def intro!: wf_srv_iso_urb)
  have w: "wf_transfer urb" "ur_isochronous urb" using True u assms(3) by auto
  have "list_all (\<lambda>p. unat (pk_offset p) + unat (pk_length p) \<le> 65536) ?ps"
    using w by (auto simp: wf_transfer_def list_all_iff packet_inside_def)
  note r = receive_iso_packets_returns [OF s this, of "ur_ep urb"]
  have q: "returns (step_post l I) (queue_iso_urb ud (?s\<lparr>dev := d\<rparr>))" if "step_post l I (True, ?s\<lparr>dev := d\<rparr>)" for d
    using queue_iso_urb_returns [OF that] w by simp
  have "read_mem (ur_packets urb) 0 (unat (ur_number_of_packets urb)) = Done ?ps"
    using w by (simp add: wf_transfer_def)
  then show ?thesis
    using True queue_iso_urb_returns [OF s] w q by (auto simp: submit_iso_urb_def Let_def intro!: returns_bindI [OF r])
qed

lemma process_iso_submit_runs:
  assumes "step_post l I (True, s)" and "unat (SWAP32 (cs_transfer_buffer_length cmd)) \<le> 65536"
  shows "runs l (step_post l I) (process_iso_submit ud seqnum ep direction cmd s)"
proof (cases "unat (SWAP32 (cs_number_of_packets cmd)) > 128")
  case True
  then show ?thesis using assms(1) by (simp add: process_iso_submit_def step_post_def)
next
  case False
  let ?n = "SWAP32 (cs_number_of_packets cmd)"
  let ?urb = "\<lambda>s. (iso_urb s)\<lparr>ur_seqnum := seqnum, ur_ep := ep, ur_direction := direction,
    ur_transfer_buffer_length := SWAP32 (cs_transfer_buffer_length cmd), ur_isochronous := True,
    ur_start_frame := SWAP32 (cs_start_frame cmd), ur_number_of_packets := ?n\<rparr>"
  have r: "runs l (step_post l I) (bind_res (load_iso_packets ds 0 (unat ?n) (?urb s1))
      (\<lambda>(inside, urb). submit_iso_urb ud inside urb s1))"
    if p: "step_post l I (True, s1)" for s1 ds
  proof -
    have len: "length (ur_packets (?urb s1)) = 128" using p by (simp add: step_post_def wf_srv_def)
    show ?thesis
      by (rule runs_bind_returnsI [OF load_iso_packets_returns [OF len]])
        (use False assms(2) in \<open>auto intro!: returns_runs submit_iso_urb_returns [OF p] simp: wf_transfer_def\<close>)
  qed
  have "runs l (step_post l I) (bind_res (srv_read (unat ?n * 16) s) (\<lambda>(status, descriptors, s).
        if \<not> status then Done (False, s)
        else bind_res (load_iso_packets descriptors 0 (unat ?n) (?urb s))
               (\<lambda>(inside, urb). submit_iso_urb ud inside urb s)))"
  proof (rule runs_bindI [OF srv_read_runs], use assms(1) in \<open>simp add: step_post_def\<close>, clarify)
    fix st ds s1 n
    assume n: "st \<and> l \<longrightarrow> live n"
    have "step_post l I (st, s\<lparr>net := n\<rparr>)" using assms(1) n by (auto simp: step_post_def)
    then show "runs l (step_post l I) (if \<not> st then Done (False, s\<lparr>net := n\<rparr>)
        else bind_res (load_iso_packets ds 0 (unat ?n) (?urb (s\<lparr>net := n\<rparr>)))
               (\<lambda>(inside, urb). submit_iso_urb ud inside urb (s\<lparr>net := n\<rparr>)))"
      using r [of "s\<lparr>net := n\<rparr>" ds] by (cases st) auto
  qed
  then show ?thesis using False unfolding process_iso_submit_def Let_def by simp
qed

lemma process_control_returns:
  assumes p: "step_post l I (True, s)" and len: "length setup = 8" "n \<le> 65536"
  shows "returns (step_post l I) (process_control ud seqnum direction setup n s)"
proof -
  have d: "dev_inv I (dev s)" and b: "n \<le> length (rx_buffer s)" "length (tx_buffer s) = 65536"
    using p len by (simp_all add: step_post_def wf_srv_def)
  let ?reply = "\<lambda>(supported, tx_length, s).
     if \<not> supported then transmit_ret_submit seqnum EP_STALL 0 False s
     else if direction = 0 then transmit_ret_submit seqnum 0 n False s
     else transmit_ret_submit seqnum 0 tx_length True s"
  have r: "returns (step_post l I) (?reply (supported, k, s1))" if "step_post l I (True, s1)" "k \<le> 65536" for supported k s1
    using that by (auto intro!: transmit_ret_submit_returns)
  have r': "returns (step_post l I) (?reply x)"
    if "case x of (supported, k, s1) \<Rightarrow> step_post l I (True, s1) \<and> k \<le> 65536" for x
    using that r [of "snd (snd x)" "fst (snd x)" "fst x"] by (cases x) simp
  have f: "returns (\<lambda>(answered, k, tx, d'). k \<le> 512 \<and> length tx = 65536 \<and> dev_inv I d')
      (usbip_device_fetch_control_reply (tx_buffer s) n d1)" if "dev_inv I d1" for d1
  proof -
    have "dev_inv I (d1\<lparr>control_answered := False\<rparr>)" using that by (simp add: dev_inv_def)
    then show ?thesis
      unfolding usbip_device_fetch_control_reply_def Let_def
      by (rule returns_bindI [OF fetch_ep_data_inv]) (use b in auto)
  qed
  show ?thesis
    unfolding process_control_def
  proof (rule returns_bindI [OF control_returns [OF d len(1) b(1)]], clarify)
    fix supported d1 assume d1: "dev_inv I d1"
    have s1: "step_post l I (True, s\<lparr>dev := d1\<rparr>)" using p d1 by (auto simp: step_post_def intro: wf_srv_dev)
    show "returns (step_post l I) (bind_res
       (if direction = 1 then bind_res (usbip_device_fetch_control_reply (tx_buffer s) n d1)
            (\<lambda>(answered, tx_length, tx, d). Done (if n > 0 \<and> \<not> answered then False else supported, tx_length,
                     s\<lparr>dev := d, tx_buffer := tx\<rparr>))
        else Done (supported, 0, s\<lparr>dev := d1\<rparr>)) ?reply)"
    proof (cases "direction = 1")
      case True
      have "returns (\<lambda>(supported, k, s1). step_post l I (True, s1) \<and> k \<le> 65536)
        (bind_res (usbip_device_fetch_control_reply (tx_buffer s) n d1)
            (\<lambda>(answered, tx_length, tx, d). Done (if n > 0 \<and> \<not> answered then False else supported, tx_length,
                     s\<lparr>dev := d, tx_buffer := tx\<rparr>)))"
        by (rule returns_bindI [OF f [OF d1]]) (use p b in \<open>auto simp: step_post_def intro!: wf_srv_dev wf_srv_tx\<close>)
      then show ?thesis
        unfolding if_P [OF True] by (rule returns_bindI) (rule r')
    next
      case False
      then show ?thesis using r [OF s1, of 0 supported] by simp
    qed
  qed
qed

lemma process_data_returns:
  assumes p: "step_post l I (True, s)" and n: "unat tbl \<le> 65536"
  shows "returns (step_post l I) (process_data ud seqnum ep direction tbl s)"
proof (cases "direction = 0")
  case True
  have d: "dev_inv I (dev s)" and b: "unat tbl \<le> length (rx_buffer s)"
    using p n by (simp_all add: step_post_def wf_srv_def)
  have t: "returns (step_post l I) (transmit_ret_submit seqnum 0 (unat tbl) False s1)" if "step_post l I (True, s1)" for s1
    using that by (intro transmit_ret_submit_returns) auto
  show ?thesis
  proof (cases "tbl > 0 \<and> ep_data_callback ud \<noteq> None")
    case c: True
    obtain d1 where "usbip_device_receive ud (ucast ep) (rx_buffer s) (unat tbl) (dev s) = Done d1" "dev_inv I d1"
      using receive_returns [OF d b, of "ucast ep"] c by (auto simp: returns_iff)
    moreover have "step_post l I (True, s\<lparr>dev := d1\<rparr>)"
      using p calculation by (auto simp: step_post_def intro: wf_srv_dev)
    ultimately show ?thesis using True c t by (simp add: process_data_def)
  qed (use True t [OF p] in \<open>auto simp: process_data_def\<close>)
next
  case False
  have q: "wf_queue s" using p by (simp add: step_post_def wf_srv_def)
  show ?thesis
  proof (cases "num_pending_urbs s = 32")
    case True
    then show ?thesis using False transmit_ret_submit_returns [OF p] by (simp add: process_data_def)
  next
    case num: False
    then have m: "num_pending_urbs s < 32" using q by (simp add: wf_queue_def)
    have "returns (\<lambda>s'. step_post l I (True, s')) (queue_urb seqnum ep direction tbl s)"
    proof (rule returns_mono [OF queue_urb_returns [OF q m]], clarify)
      fix urbs num urb
      let ?s = "s\<lparr>pending_urbs := urbs, num_pending_urbs := num\<rparr>"
      assume *: "wf_queue ?s" "pend ?s = pend s @ [urb]" "\<not> ur_isochronous urb"
        "direction = ur_direction urb" "tbl = ur_transfer_buffer_length urb"
      have "urb \<in> set (take num urbs)" using *(2) by (simp add: pend_def)
      then have "urb \<in> set urbs" by (rule in_set_takeD)
      then have "length (ur_packets urb) = 128" using *(1) by (simp add: wf_queue_def list_all_iff)
      then have "wf_transfer urb" using * False n by (simp add: wf_transfer_def)
      then show "step_post l I (True, ?s)" using p * by (simp add: step_post_def wf_srv_def)
    qed
    then show ?thesis using False num by (auto simp: process_data_def intro: returns_bindI)
  qed
qed

lemma process_submit_runs:
  assumes p: "step_post l I (True, s)"
  shows "runs l (step_post l I) (process_submit ud seqnum ep direction s)"
  unfolding process_submit_def Let_def
proof (rule runs_bindI [OF srv_read_runs], use p in \<open>simp add: step_post_def\<close>, clarify)
  fix st s1 n and bs :: "u8 list"
  assume len: "st \<longrightarrow> length bs = 28" and n: "st \<and> l \<longrightarrow> live n"
  let ?s = "s\<lparr>net := n\<rparr>" and ?cmd = "usbip_cmd_submit_of bs"
  let ?tbl = "SWAP32 (cs_transfer_buffer_length ?cmd)"
  let ?rest = "\<lambda>(status, s).
            if \<not> status then Done (False, s)
            else if ep \<noteq> 0 \<and>
                ep_type (endpoints s (dir_index direction) (ep_number ep)) = USB_ENDPOINT_XFER_ISOC
            then process_iso_submit ud seqnum ep direction ?cmd s
            else if ep = 0 then process_control ud seqnum direction (cs_setup ?cmd) (unat ?tbl) s
            else process_data ud seqnum ep direction ?tbl s"
  let ?data = "if direction = 0 then
            bind_res (srv_read (unat ?tbl) ?s) (\<lambda>(status, data, s).
            bind_res (write_mem (rx_buffer s) 0 data) (\<lambda>rx. Done (status, s\<lparr>rx_buffer := rx\<rparr>)))
          else Done (True, ?s)"
  have p1: "step_post l I (st, ?s)" using p n by (auto simp: step_post_def)
  show "runs l (step_post l I) (if \<not> st \<or> unat ?tbl > 65536 then Done (False, ?s) else bind_res ?data ?rest)"
  proof (cases "\<not> st \<or> unat ?tbl > 65536")
    case True
    then show ?thesis using p1 by (simp add: step_post_def)
  next
    case False
    have d: "runs l (step_post l I) ?data"
    proof (cases "direction = 0")
      case True
      have "runs l (step_post l I) (bind_res (srv_read (unat ?tbl) ?s) (\<lambda>(status, data, s).
            bind_res (write_mem (rx_buffer s) 0 data) (\<lambda>rx. Done (status, s\<lparr>rx_buffer := rx\<rparr>))))"
        by (rule runs_bindI [OF srv_read_runs])
          (use p1 False in \<open>auto simp: step_post_def wf_srv_def\<close>)
      then show ?thesis using True by simp
    next
      case nz: False
      then show ?thesis using p1 False by simp
    qed
    have r: "runs l (step_post l I) (?rest x)" if "step_post l I x" for x
    proof -
      obtain st2 s2 where x: "x = (st2, s2)" by (cases x)
      have su: "length (cs_setup ?cmd) = 8" using len False by simp
      show ?thesis
        using that False process_iso_submit_runs [of l s2 ?cmd] returns_runs [OF process_control_returns [OF _ su, of l s2]]
          returns_runs [OF process_data_returns [of l s2]]
        unfolding x by auto
    qed
    show ?thesis unfolding if_not_P [OF False] by (rule runs_bindI [OF d]) (rule r)
  qed
qed

lemma process_imported_cmd_runs:
  assumes p: "step_post l I (True, s)"
  shows "runs l (step_post l I) (process_imported_cmd ud s)"
  unfolding process_imported_cmd_def
proof (rule runs_bindI [OF srv_read_runs], use p in \<open>simp add: step_post_def\<close>, clarify)
  fix st bs s1 n
  assume n: "st \<and> l \<longrightarrow> live n"
  have "step_post l I (st, s\<lparr>net := n\<rparr>)" using p n by (auto simp: step_post_def)
  then show "runs l (step_post l I) (if \<not> st then Done (False, s\<lparr>net := n\<rparr>) else
       let cmd_header = usbip_header_basic_of bs; command = SWAP32 (hb_command cmd_header); seqnum = SWAP32 (hb_seqnum cmd_header)
       in if command = USBIP_CMD_SUBMIT
          then process_submit ud seqnum (SWAP32 (hb_ep cmd_header)) (SWAP32 (hb_direction cmd_header)) (s\<lparr>net := n\<rparr>)
          else if command = USBIP_CMD_UNLINK then process_unlink seqnum (s\<lparr>net := n\<rparr>) else Done (False, s\<lparr>net := n\<rparr>))"
    using step_post_wf [of l I st "s\<lparr>net := n\<rparr>"]
    by (cases st) (auto simp: Let_def step_post_False intro: process_submit_runs process_unlink_runs)
qed

lemma wait_for_data_live: "live n \<Longrightarrow> live (snd (tcpip_server_wait_for_data n))"
  by (auto simp: tcpip_server_wait_for_data_def live_def Let_def split: list.split)

lemma process_imported_device_runs:
  assumes "wf_srv I s" and "l \<longrightarrow> live (net s)"
  shows "runs l (\<lambda>(disconnect, s'). wf_srv I s' \<and> (\<not> disconnect \<and> l \<longrightarrow> live (net s')) \<and>
      (disconnect \<longrightarrow> \<not> device_imported s' \<and> pend s' = []))
    (usbip_protocol_process_imported_device ud s)"
proof -
  obtain data n where w: "tcpip_server_wait_for_data (net s) = (data, n)" by fastforce
  have p: "step_post l I (True, s\<lparr>net := n\<rparr>)"
    using assms wait_for_data_live [of "net s"] w by (auto simp: step_post_def)
  let ?cmd = "if data then process_imported_cmd ud (s\<lparr>net := n\<rparr>) else Done (True, s\<lparr>net := n\<rparr>)"
  have c: "runs l (step_post l I) ?cmd" using process_imported_cmd_runs [OF p] p by simp
  have "runs l (\<lambda>(disconnect, s'). wf_srv I s' \<and> (\<not> disconnect \<and> l \<longrightarrow> live (net s')) \<and>
      (disconnect \<longrightarrow> \<not> device_imported s' \<and> pend s' = []))
    (bind_res (if st then complete_pending_urbs ud (s1\<lparr>dev := usbip_device_clear_event (dev s1)\<rparr>)
        else Done (False, s1\<lparr>dev := usbip_device_clear_event (dev s1)\<rparr>)) (\<lambda>(status, s).
        if status then Done (False, s)
        else bind_res (usbip_device_reset ud (dev s))
          (\<lambda>d. Done (True, s\<lparr>device_imported := False, num_pending_urbs := 0, dev := d\<rparr>))))"
    if "step_post l I (st, s1)" for st s1
  proof -
    let ?s = "s1\<lparr>dev := usbip_device_clear_event (dev s1)\<rparr>"
    have "dev_inv I (usbip_device_clear_event (dev s1))"
      using that by (simp add: step_post_def wf_srv_def dev_inv_def usbip_device_clear_event_def)
    then have p1: "step_post l I (st, ?s)" using that by (auto simp: step_post_def intro: wf_srv_dev)
    have k: "returns (step_post l I) (if st then complete_pending_urbs ud ?s else Done (False, ?s))"
      using p1 complete_pending_urbs_returns by (cases st) auto
    have f: "wf_srv I (s2\<lparr>device_imported := False, num_pending_urbs := 0, dev := d\<rparr>)"
      if "wf_srv I s2" "dev_inv I d" for s2 d
      using that by (simp add: wf_srv_def wf_queue_def pend_def)
    have g: "runs l (\<lambda>(disconnect, s'). wf_srv I s' \<and> (\<not> disconnect \<and> l \<longrightarrow> live (net s')) \<and>
          (disconnect \<longrightarrow> \<not> device_imported s' \<and> pend s' = []))
        (if a then Done (False, b)
         else bind_res (usbip_device_reset ud (dev b))
           (\<lambda>d. Done (True, b\<lparr>device_imported := False, num_pending_urbs := 0, dev := d\<rparr>)))"
      if "step_post l I (a, b)" for a b
    proof (cases a)
      case False
      have "dev_inv I (dev b)" using that by (simp add: step_post_def wf_srv_def)
      then show ?thesis
        unfolding if_not_P [OF False]
        by (rule runs_bind_returnsI [OF reset_returns]) (use f [OF step_post_wf [OF that]] in \<open>simp add: pend_def\<close>)
    qed (use that in \<open>simp add: step_post_def\<close>)
    show ?thesis
      by (rule runs_bind_returnsI [OF k]) (use g in auto)
  qed
  then show ?thesis
    unfolding usbip_protocol_process_imported_device_def w Let_def prod.case
    by (intro runs_bindI [OF c]) (simp only: split_paired_all prod.case)
qed

end

section \<open>Properties\<close>

text \<open>
  C1. Memory safety and recovery of a connection: with a device program that keeps its contract, one
  round of the server for an imported device never leaves a buffer or table, whatever the client
  sends, and keeps the invariant (at most 32 pending transfers, each inside the 64 KiB buffers, a
  wait between 1 and 500000 microseconds). It comes back if the connection ends or the server is
  stopped. When it reports a disconnect the device is no longer imported and no transfer is pending.
\<close>

theorem imported_device_safe:
  assumes "device_program ud I" and "wf_srv I s"
  shows "runs (live (net s)) (\<lambda>(disconnect, s'). wf_srv I s' \<and>
      (disconnect \<longrightarrow> \<not> device_imported s' \<and> pend s' = []))
    (usbip_protocol_process_imported_device ud s)"
  by (rule runs_mono [OF device_program.process_imported_device_runs [OF assms]]) auto

end
