(* ===== verification/Replies.thy ===== *)
theory Replies
  imports Protocol_Safe
begin

text \<open>
  What the server sends: every transmit function of \<open>src/lib/usbip_protocol.c\<close> against the message
  format of the USB/IP protocol, in which every field is big endian. \<open>wrote bytes\<close> says that a step
  has changed nothing but the connection, on which it has sent the bytes, or a part of them if it
  reports a failure.
\<close>

section \<open>Sending\<close>

definition wrote :: "u8 list \<Rightarrow> bool \<Rightarrow> 'd srv \<Rightarrow> 'd srv \<Rightarrow> bool" where
  "wrote bytes st s s' \<longleftrightarrow> (\<exists>n. s' = s\<lparr>net := n\<rparr> \<and> (live (net s) \<longrightarrow> live n) \<and>
     (st \<longrightarrow> sent n = sent (net s) @ bytes \<and> input n = input (net s)) \<and>
     (\<exists>j \<le> length bytes. sent n = sent (net s) @ take j bytes))"

lemma wrote_srv_write: "srv_write bytes s = (st, s') \<Longrightarrow> wrote bytes st s s'"
proof -
  assume "srv_write bytes s = (st, s')"
  then obtain n where n: "tcpip_server_write bytes (net s) = (st, n)" "s' = s\<lparr>net := n\<rparr>"
    by (auto simp: srv_write_def split: prod.splits)
  obtain j where "j \<le> length bytes" "sent n = sent (net s) @ take j bytes" "st \<longleftrightarrow> j = length bytes"
    using tcp.wr_outp [OF n(1)] by auto
  then show ?thesis
    unfolding wrote_def using n tcpip_server_write_live [OF n(1)] tcp.wr_inp [of bytes "net s" n]
    by (intro exI [of _ n] conjI) auto
qed

lemma wrote_Nil [simp]: "wrote [] st s s"
  unfolding wrote_def by (rule exI [of _ "net s"]) simp

lemma wrote_append:
  assumes "wrote as True s s1" and "wrote bs st s1 s2"
  shows "wrote (as @ bs) st s s2"
proof -
  obtain n where n: "s1 = s\<lparr>net := n\<rparr>" "live (net s) \<longrightarrow> live n"
      "sent n = sent (net s) @ as" "input n = input (net s)"
    using assms(1) unfolding wrote_def by blast
  obtain n1 j where m: "s2 = s1\<lparr>net := n1\<rparr>" "live (net s1) \<longrightarrow> live n1"
      "st \<longrightarrow> sent n1 = sent (net s1) @ bs \<and> input n1 = input (net s1)"
      "j \<le> length bs" "sent n1 = sent (net s1) @ take j bs"
    using assms(2) unfolding wrote_def by blast
  have "length as + j \<le> length (as @ bs) \<and> sent n1 = sent (net s) @ take (length as + j) (as @ bs)"
    using n m by simp
  then have "\<exists>j \<le> length (as @ bs). sent n1 = sent (net s) @ take j (as @ bs)" by blast
  moreover have "s2 = s\<lparr>net := n1\<rparr>" "live (net s) \<longrightarrow> live n1"
      "st \<longrightarrow> sent n1 = sent (net s) @ as @ bs \<and> input n1 = input (net s)"
    using n m by simp_all
  ultimately show ?thesis unfolding wrote_def by blast
qed

lemma wrote_fail: "wrote as False s s1 \<Longrightarrow> wrote (as @ bs) False s s1"
proof -
  assume "wrote as False s s1"
  then obtain n j where n: "s1 = s\<lparr>net := n\<rparr>" "live (net s) \<longrightarrow> live n" "j \<le> length as"
      "sent n = sent (net s) @ take j as"
    by (auto simp: wrote_def)
  then have "j \<le> length (as @ bs) \<and> sent n = sent (net s) @ take j (as @ bs)" by simp
  then have "\<exists>j \<le> length (as @ bs). sent n = sent (net s) @ take j (as @ bs)" by blast
  then show ?thesis using n(1,2) unfolding wrote_def by blast
qed

lemma wrote_and_then:
  assumes "wrote as (fst r) s (snd r)" and "\<And>s1. wrote bs (fst (f s1)) s1 (snd (f s1))"
  shows "wrote (as @ bs) (fst (and_then r f)) s (snd (and_then r f))"
proof (cases r)
  case (Pair st s1)
  show ?thesis
  proof (cases st)
    case True
    then show ?thesis using Pair assms(1) wrote_append [OF _ assms(2) [of s1], of as s] by simp
  next
    case False
    then show ?thesis using Pair assms(1) wrote_fail [of as s s1 bs] by simp
  qed
qed

lemma wrote_write2:
  fixes s :: "'d srv"
  assumes "and_then (srv_write as s) (srv_write bs) = (st, s')"
  shows "wrote (as @ bs) st s s'"
proof -
  have "wrote as (fst (srv_write as s)) s (snd (srv_write as s))" by (rule wrote_srv_write) simp
  moreover have "wrote bs (fst (srv_write bs s1)) s1 (snd (srv_write bs s1))" for s1 :: "'d srv"
    by (rule wrote_srv_write) simp
  ultimately have "wrote (as @ bs) (fst (and_then (srv_write as s) (srv_write bs))) s
      (snd (and_then (srv_write as s) (srv_write bs)))" by (rule wrote_and_then)
  then show ?thesis using assms by simp
qed

lemma wrote_tx_buffer: "wrote bytes st s s' \<Longrightarrow> tx_buffer s' = tx_buffer s"
  by (auto simp: wrote_def)

text \<open>The next part of a message: sent if the first part was, and otherwise left out.\<close>

lemma wrote_step:
  assumes "wrote as st s s1" and "st \<Longrightarrow> returns (\<lambda>(st2, s2). wrote bs st2 s1 s2) m"
    and "\<not> st \<Longrightarrow> m = Done (False, s1)"
  shows "returns (\<lambda>(st2, s2). wrote (as @ bs) st2 s s2) m"
proof (cases st)
  case True
  with assms(1) have w: "wrote as True s s1" by simp
  show ?thesis
    by (rule returns_mono [OF assms(2) [OF True]]) (auto intro: wrote_append [OF w])
next
  case False
  then show ?thesis using assms(1,3) wrote_fail [of as s s1 bs] by simp
qed

lemma wrote_write: "returns (\<lambda>(st, s'). wrote bytes st s s') (Done (srv_write bytes s))"
  using wrote_srv_write [of bytes s] by (cases "srv_write bytes s") simp

section \<open>The messages of the protocol\<close>

definition ret_submit_message :: "u32 \<Rightarrow> u32 \<Rightarrow> u32 \<Rightarrow> u32 \<Rightarrow> u32 \<Rightarrow> u8 list" where
  "ret_submit_message seqnum status actual_length start_frame number_of_packets =
     be_bytes32 3 @ be_bytes32 seqnum @ replicate 12 0 @
     be_bytes32 status @ be_bytes32 actual_length @ be_bytes32 start_frame @
     be_bytes32 number_of_packets @ replicate 12 0"

definition ret_unlink_message :: "u32 \<Rightarrow> u32 \<Rightarrow> u8 list" where
  "ret_unlink_message seqnum status =
     be_bytes32 4 @ be_bytes32 seqnum @ replicate 12 0 @ be_bytes32 status @ replicate 24 0"

definition iso_packet_message :: "iso_packet_t \<Rightarrow> u32 \<Rightarrow> u8 list" where
  "iso_packet_message packet actual_length =
     be_bytes32 (pk_offset packet) @ be_bytes32 (pk_length packet) @ be_bytes32 actual_length @ replicate 4 0"

lemma le_bytes_0 [simp]: "le_bytes32 0 = [0, 0, 0, 0]" "be_bytes32 0 = [0, 0, 0, 0]"
  "le_bytes64 0 = [0, 0, 0, 0, 0, 0, 0, 0]"
  by (simp_all add: le_bytes32_def be_bytes32_def le_bytes64_def)

lemma replicate_12: "replicate 12 (0 :: u8) = [0,0,0,0,0,0,0,0,0,0,0,0]" "replicate 4 (0 :: u8) = [0,0,0,0]"
  by (simp_all add: numeral_eq_Suc)

lemma header_message:
  "usbip_header_basic_bytes \<lparr>hb_command = SWAP32 c, hb_seqnum = SWAP32 q, hb_devid = 0, hb_direction = 0, hb_ep = 0\<rparr> =
   be_bytes32 c @ be_bytes32 q @ replicate 12 0"
  by (simp add: usbip_header_basic_bytes_def replicate_12)

lemma ret_submit_body:
  "usbip_ret_submit_bytes \<lparr>rs_status = SWAP32 st, rs_actual_length = SWAP32 len, rs_start_frame = SWAP32 f,
     rs_number_of_packets = SWAP32 k, rs_error_count = 0, rs_padding = 0\<rparr> =
   be_bytes32 st @ be_bytes32 len @ be_bytes32 f @ be_bytes32 k @ replicate 12 0"
  by (simp add: usbip_ret_submit_bytes_def replicate_12)

lemma ret_submit_parts:
  "usbip_header_basic_bytes \<lparr>hb_command = SWAP32 3, hb_seqnum = SWAP32 q, hb_devid = 0, hb_direction = 0, hb_ep = 0\<rparr> @
   usbip_ret_submit_bytes \<lparr>rs_status = SWAP32 st, rs_actual_length = SWAP32 len, rs_start_frame = SWAP32 f,
     rs_number_of_packets = SWAP32 k, rs_error_count = 0, rs_padding = 0\<rparr> =
   ret_submit_message q st len f k"
  unfolding header_message ret_submit_body ret_submit_message_def by simp

lemma transmit_ret_submit_wrote:
  assumes "send_data \<longrightarrow> len \<le> length (tx_buffer s)"
  shows "returns (\<lambda>(st, s'). wrote (ret_submit_message seqnum status (of_nat len) 0 0xffffffff @
      (if send_data then take len (tx_buffer s) else [])) st s s')
    (transmit_ret_submit seqnum status len send_data s)"
proof -
  let ?h = "usbip_header_basic_bytes \<lparr>hb_command = SWAP32 USBIP_RET_SUBMIT, hb_seqnum = SWAP32 seqnum,
      hb_devid = SWAP32 0, hb_direction = SWAP32 0, hb_ep = SWAP32 0\<rparr>"
  let ?r = "usbip_ret_submit_bytes \<lparr>rs_status = SWAP32 status, rs_actual_length = SWAP32 (of_nat len),
      rs_start_frame = SWAP32 0, rs_number_of_packets = SWAP32 0xffffffff,
      rs_error_count = SWAP32 0, rs_padding = 0\<rparr>"
  let ?m = "ret_submit_message seqnum status (of_nat len) 0 0xffffffff"
  have m: "?h @ ?r = ?m"
    using ret_submit_parts [of seqnum status "of_nat len" 0 "0xffffffff"] unfolding SWAP32_0 .
  obtain st s1 where 1: "and_then (srv_write ?h s) (srv_write ?r) = (st, s1)" by fastforce
  note w = wrote_write2 [OF 1, unfolded m]
  have r: "transmit_ret_submit seqnum status len send_data s =
      (if st \<and> send_data \<and> len > 0
       then bind_res (read_mem (tx_buffer s1) 0 len) (\<lambda>bytes. Done (srv_write bytes s1)) else Done (st, s1))"
    unfolding transmit_ret_submit_def Let_def 1 prod.case ..
  show ?thesis
    unfolding r
  proof (rule wrote_step [OF w])
    assume st
    with assms show "returns (\<lambda>(st2, s2). wrote (if send_data then take len (tx_buffer s) else []) st2 s1 s2)
      (if st \<and> send_data \<and> len > 0
       then bind_res (read_mem (tx_buffer s1) 0 len) (\<lambda>bytes. Done (srv_write bytes s1)) else Done (st, s1))"
      using wrote_tx_buffer [OF w] wrote_write [of "take len (tx_buffer s)" s1] by auto
  qed simp
qed

section \<open>Receiving\<close>

text \<open>The commands of the protocol as the client sends them.\<close>

definition cmd_header_message :: "u32 \<Rightarrow> u32 \<Rightarrow> u32 \<Rightarrow> u32 \<Rightarrow> u32 \<Rightarrow> u8 list" where
  "cmd_header_message command seqnum devid direction ep =
     be_bytes32 command @ be_bytes32 seqnum @ be_bytes32 devid @ be_bytes32 direction @ be_bytes32 ep"

definition cmd_submit_message :: "u32 \<Rightarrow> u32 \<Rightarrow> u32 \<Rightarrow> u32 \<Rightarrow> u32 \<Rightarrow> u8 list \<Rightarrow> u8 list" where
  "cmd_submit_message flags len frame packets interval setup =
     be_bytes32 flags @ be_bytes32 len @ be_bytes32 frame @ be_bytes32 packets @ be_bytes32 interval @ setup"

definition cmd_unlink_message :: "u32 \<Rightarrow> u8 list" where
  "cmd_unlink_message unlink_seqnum = be_bytes32 unlink_seqnum @ replicate 24 0"

lemma cmd_header_message_parse:
  "usbip_header_basic_of (cmd_header_message c q v d e) =
   \<lparr>hb_command = SWAP32 c, hb_seqnum = SWAP32 q, hb_devid = SWAP32 v, hb_direction = SWAP32 d, hb_ep = SWAP32 e\<rparr>"
  using usbip_header_basic_of_bytes [of "\<lparr>hb_command = SWAP32 c, hb_seqnum = SWAP32 q, hb_devid = SWAP32 v,
    hb_direction = SWAP32 d, hb_ep = SWAP32 e\<rparr>"]
  by (simp add: usbip_header_basic_bytes_def cmd_header_message_def)

lemma cmd_submit_message_parse:
  "length su = 8 \<Longrightarrow> usbip_cmd_submit_of (cmd_submit_message fl n fr k i su) =
   \<lparr>cs_transfer_flags = SWAP32 fl, cs_transfer_buffer_length = SWAP32 n, cs_start_frame = SWAP32 fr,
    cs_number_of_packets = SWAP32 k, cs_interval = SWAP32 i, cs_setup = su\<rparr>"
  using usbip_cmd_submit_of_bytes [of "\<lparr>cs_transfer_flags = SWAP32 fl, cs_transfer_buffer_length = SWAP32 n,
    cs_start_frame = SWAP32 fr, cs_number_of_packets = SWAP32 k, cs_interval = SWAP32 i, cs_setup = su\<rparr>"]
  by (simp add: usbip_cmd_submit_bytes_def cmd_submit_message_def)

lemma cmd_unlink_message_parse:
  "cu_unlink_seqnum (usbip_cmd_unlink_of (cmd_unlink_message q)) = SWAP32 q"
  using usbip_cmd_unlink_of_bytes [of "\<lparr>cu_unlink_seqnum = SWAP32 q, cu_padding = replicate 24 0\<rparr>"]
  by (simp add: usbip_cmd_unlink_bytes_def cmd_unlink_message_def)

lemma length_messages [simp]:
  "length (be_bytes32 x) = 4" "length (cmd_header_message c q v d e) = 20"
  "length (cmd_submit_message fl n fr k i su) = 20 + length su" "length (cmd_unlink_message q) = 28"
  by (simp_all add: be_bytes32_def cmd_header_message_def cmd_submit_message_def cmd_unlink_message_def)

text \<open>A message that is there is read whole.\<close>

lemma srv_read_message:
  assumes "input (net s) = bytes @ rest"
  obtains n where "srv_read (length bytes) s = Done (True, bytes, s\<lparr>net := n\<rparr>)"
    "input n = rest" "sent n = sent (net s)" "live (net s) \<longrightarrow> live n"
proof -
  have "tcpip_server_read (length bytes) (net s) \<noteq> NoReturn"
    using assms by (simp add: tcpip_server_read_NoReturn_iff)
  from tcpip_server_read_Done [OF this] assms obtain n where
    n: "tcpip_server_read (length bytes) (net s) = Done (True, bytes, n)" "input n = rest" "sent n = sent (net s)"
    by auto
  then have r: "srv_read (length bytes) s = Done (True, bytes, s\<lparr>net := n\<rparr>)" by (simp add: srv_read_def)
  have "live n" if "live (net s)"
    using srv_read_runs [of True s "length bytes"] that unfolding r by (auto dest!: arg_cong [where f = net])
  then show ?thesis using that r n by blast
qed

section \<open>Unlinking a transfer\<close>

fun remove_first :: "('a \<Rightarrow> bool) \<Rightarrow> 'a list \<Rightarrow> 'a list" where
  "remove_first P [] = []"
| "remove_first P (x # xs) = (if P x then xs else x # remove_first P xs)"

lemma remove_first_drop_nth:
  "i < length xs \<Longrightarrow> P (xs ! i) \<Longrightarrow> \<forall>k < i. \<not> P (xs ! k) \<Longrightarrow> remove_first P xs = drop_nth i xs"
proof (induction xs arbitrary: i)
  case (Cons x xs)
  show ?case
  proof (cases i)
    case (Suc k)
    have "\<forall>j < k. \<not> P (xs ! j)" "\<not> P x" using Cons.prems(3) Suc by (force, auto)
    then show ?thesis using Cons.IH [of k] Cons.prems Suc by (simp add: drop_nth_def)
  qed (use Cons.prems in \<open>simp add: drop_nth_def\<close>)
qed simp

lemma remove_first_distinct:
  "distinct (map f xs) \<Longrightarrow> remove_first (\<lambda>x. f x = y) xs = filter (\<lambda>x. f x \<noteq> y) xs"
proof (induction xs)
  case (Cons x xs)
  then have "filter (\<lambda>z. f z \<noteq> f x) xs = xs" by (intro filter_True) (metis distinct.simps(2) image_eqI list.set_map list.simps(9))
  then show ?case using Cons by auto
qed simp

lemma remove_first_id: "\<forall>x \<in> set xs. \<not> P x \<Longrightarrow> remove_first P xs = xs"
  by (induction xs) auto

lemma unlink_pending_urb_spec:
  assumes q: "wf_queue s"
  shows "returns (\<lambda>(st, s'). wf_queue s' \<and> net s' = net s \<and> dev s' = dev s \<and>
     st = (if seqnum \<in> ur_seqnum ` set (pend s) then URB_UNLINKED else 0) \<and>
     pend s' = remove_first (\<lambda>u. ur_seqnum u = seqnum) (pend s)) (unlink_pending_urb seqnum s)"
proof (cases "find_pending_urb seqnum (pend s) 0")
  case None
  then have n: "seqnum \<notin> ur_seqnum ` set (pend s)" by (simp add: find_pending_urb_None)
  then have "remove_first (\<lambda>u. ur_seqnum u = seqnum) (pend s) = pend s"
    by (intro remove_first_id) auto
  then show ?thesis using None n q by (simp add: unlink_pending_urb_def read_pend)
next
  case (Some idx)
  from find_pending_urb_Some [OF Some] have i: "idx < length (pend s)"
    "ur_seqnum (pend s ! idx) = seqnum" "\<forall>k < idx. ur_seqnum (pend s ! k) \<noteq> seqnum" by auto
  have p: "seqnum \<in> ur_seqnum ` set (pend s)" using i by (metis image_eqI nth_mem)
  have f: "remove_first (\<lambda>u. ur_seqnum u = seqnum) (pend s) = drop_nth idx (pend s)"
    using i by (intro remove_first_drop_nth)
  have "idx < num_pending_urbs s" using i(1) length_pend [OF q] by simp
  from remove_pending_urb_returns [OF q this] obtain urbs num where
    r: "remove_pending_urb idx s = Done (s\<lparr>pending_urbs := urbs, num_pending_urbs := num\<rparr>)"
    "wf_queue (s\<lparr>pending_urbs := urbs, num_pending_urbs := num\<rparr>)"
    "pend (s\<lparr>pending_urbs := urbs, num_pending_urbs := num\<rparr>) = drop_nth idx (pend s)"
    by (auto simp: returns_iff)
  show ?thesis using Some p f r by (simp add: unlink_pending_urb_def read_pend [OF q] Let_def)
qed


text \<open>A connection on which the given bytes arrive, after which the client closes it.\<close>

definition connected :: "u8 list \<Rightarrow> net" where
  "connected bytes =
     \<lparr>server_socket = 3, client_socket = 4, stop_server = False, rd_script = [Rd_data bytes, Rd_eof],
      wr_script = [], poll_script = [(1, 1)], accept_script = [], sent = []\<rparr>"

lemma connected_simps [simp]:
  "input (connected bytes) = bytes" "sent (connected bytes) = []" "live (connected bytes)"
  "stop_server (connected bytes) = False"
  by (simp_all add: connected_def input_def live_def)

definition one_pending :: "net \<Rightarrow> unit srv" where
  "one_pending n = (init_srv n (init_device ()) (\<lambda>_. (0, 0)))\<lparr>num_pending_urbs := 1\<rparr>"

lemma one_pending_simps [simp]:
  "wf_queue (one_pending n)" "net (one_pending n) = n" "pend (one_pending n) = [zero_urb]"
  by (simp_all add: one_pending_def init_srv_def wf_queue_def pend_def zero_urb_def list_all_length take_Cons')


end
