(* ===== verification/Import.thy ===== *)
theory Import
  imports Replies
begin

text \<open>
  The operations before a device is imported, and what the server takes from the configuration
  descriptor: the walk over the interfaces for \<open>OP_REP_DEVLIST\<close>, the endpoint table of
  \<open>load_endpoints\<close>, the device list and import replies, and \<open>usbip_protocol_process_cmd\<close>.
\<close>

section \<open>Configurations as lists of descriptors\<close>

text \<open>A configuration is a sequence of descriptors, each starting with its length and its type.\<close>

function split_descriptors :: "u8 list \<Rightarrow> u8 list list option" where
  "split_descriptors [] = Some []"
| "split_descriptors (b # bs) =
     (if 2 \<le> unat b \<and> unat b \<le> length (b # bs)
      then map_option ((#) (take (unat b) (b # bs))) (split_descriptors (drop (unat b) (b # bs)))
      else None)"
  by pat_completeness auto
termination by (relation "measure length") auto

definition is_interface :: "u8 list \<Rightarrow> bool" where
  "is_interface desc \<longleftrightarrow> desc ! 1 = 4"

definition config_descriptors :: "u8 list \<Rightarrow> u8 list list option" where
  "config_descriptors config = split_descriptors (take (unat (le16 (config ! 2) (config ! 3))) config)"

text \<open>
  The configuration splits into descriptors, and after the configuration descriptor there are at
  least as many interface descriptors as it announces.
\<close>

definition wf_config :: "u8 list \<Rightarrow> bool" where
  "wf_config config \<longleftrightarrow>
     9 \<le> length config \<and> unat (le16 (config ! 2) (config ! 3)) \<le> length config \<and>
     (case config_descriptors config of
        None \<Rightarrow> False
      | Some [] \<Rightarrow> False
      | Some (c # ds) \<Rightarrow>
          unat (config ! 4) \<le> length (filter is_interface ds) \<and>
          list_all (\<lambda>d. is_interface d \<longrightarrow> 9 \<le> length d) (c # ds))"

definition is_descriptor :: "u8 list \<Rightarrow> bool" where
  "is_descriptor d \<longleftrightarrow> 2 \<le> length d \<and> unat (d ! 0) = length d"

lemma split_descriptors_Some:
  "split_descriptors bs = Some ds \<Longrightarrow> concat ds = bs \<and> list_all is_descriptor ds"
proof (induction bs arbitrary: ds rule: split_descriptors.induct)
  case (2 b bs)
  then have c: "2 \<le> unat b" "unat b \<le> length (b # bs)" by (auto split: if_splits)
  with 2 obtain es where es: "split_descriptors (drop (unat b) (b # bs)) = Some es" "ds = take (unat b) (b # bs) # es"
    by auto
  have "is_descriptor (take (unat b) (b # bs))" using c by (simp add: is_descriptor_def)
  then show ?case using 2 c es by (simp del: take_Cons' drop_Cons')
qed simp

lemma next_interface_loop_spec:
  assumes "list_all is_descriptor (d # mid)" and "list_all (\<lambda>d. \<not> is_interface d) mid"
    and "is_interface i" and "2 \<le> length i"
    and "config = a @ d @ concat mid @ i @ rest" and "length (a @ d @ concat mid @ i) \<le> len"
  shows "next_interface_loop config len (length a) (d ! 0) = Some (Done (length (a @ d @ concat mid)))"
  using assms
proof (induction mid arbitrary: a d)
  case Nil
  have "unat (d ! 0) = length d" "length a < len" using Nil by (auto simp: is_descriptor_def)
  moreover have "config ! (length a + length d + 1) = i ! 1" "length a + length d + 1 < length config"
    using Nil by (auto simp: nth_append)
  ultimately show ?case
    using Nil(3) by (subst next_interface_loop.simps) (simp add: Let_def is_interface_def)
next
  case (Cons m mid)
  have d: "unat (d ! 0) = length d" "length a < len" using Cons.prems by (auto simp: is_descriptor_def)
  have m: "2 \<le> length m" "\<not> is_interface m" using Cons.prems by (auto simp: is_descriptor_def)
  have n: "config ! (length a + length d + 1) = m ! 1" "length a + length d + 1 < length config"
    "config ! (length a + length d) = m ! 0"
    using Cons.prems(5) m(1) by (auto simp: nth_append)
  have "next_interface_loop config len (length (a @ d)) (m ! 0) = Some (Done (length ((a @ d) @ m @ concat mid)))"
    by (rule Cons.IH) (use Cons.prems in auto)
  then show ?case
    using d m n by (subst next_interface_loop.simps) (simp add: Let_def is_interface_def add.assoc)
qed

section \<open>The replies\<close>

definition op_rep_message :: "u16 \<Rightarrow> u8 list" where
  "op_rep_message code = be_bytes16 0x0111 @ be_bytes16 code @ replicate 4 0"

definition device_message :: "u8 list \<Rightarrow> u8 list \<Rightarrow> u8 list" where
  "device_message dev_desc config =
     char_array 256 ''sys/usb/virtual_device'' @ char_array 32 ''1-1'' @
     be_bytes32 2 @ be_bytes32 3 @ be_bytes32 3 @
     [dev_desc ! 9, dev_desc ! 8, dev_desc ! 11, dev_desc ! 10, dev_desc ! 13, dev_desc ! 12,
      dev_desc ! 4, dev_desc ! 5, dev_desc ! 6, config ! 5, dev_desc ! 17, config ! 4]"

definition interface_message :: "u8 list \<Rightarrow> u8 list" where
  "interface_message desc = [desc ! 5, desc ! 6, desc ! 7, 0]"

lemma transmit_response_head_wrote:
  "transmit_response_head code s = (st, s') \<Longrightarrow> wrote (op_rep_message code) st s s'"
proof -
  assume "transmit_response_head code s = (st, s')"
  moreover have "op_rep_head_bytes \<lparr>rp_version = SWAP16 0x0111, rp_reply_code = SWAP16 code, rp_status = SWAP32 0\<rparr> =
      op_rep_message code"
    unfolding op_rep_head_bytes_def op_rep_message_def SWAP32_0 by (simp add: replicate_12)
  ultimately show ?thesis by (simp add: transmit_response_head_def wrote_srv_write)
qed

lemma transmit_number_of_devices_wrote:
  "transmit_number_of_devices k s = (st, s') \<Longrightarrow> wrote (be_bytes32 k) st s s'"
  by (simp add: transmit_number_of_devices_def wrote_srv_write)

lemma transmit_device_id_wrote:
  "transmit_device_id s = (st, s') \<Longrightarrow>
   wrote (char_array 256 ''sys/usb/virtual_device'' @ char_array 32 ''1-1'' @ be_bytes32 2 @ be_bytes32 3 @ be_bytes32 3) st s s'"
  unfolding transmit_device_id_def by (drule wrote_srv_write) (simp add: usbip_device_id_bytes_def)

lemma be_bytes16_le16: "be_bytes16 (le16 lo hi) = [hi, lo]"
  using le_bytes_SWAP(1) [of "le16 lo hi"] by (simp add: SWAP16_def)

lemma transmit_device_wrote:
  assumes "18 \<le> length (device_desc ud)" and "6 \<le> length (config_desc ud)"
  shows "returns (\<lambda>(st, s'). wrote
     [device_desc ud ! 9, device_desc ud ! 8, device_desc ud ! 11, device_desc ud ! 10, device_desc ud ! 13,
      device_desc ud ! 12, device_desc ud ! 4, device_desc ud ! 5, device_desc ud ! 6, config_desc ud ! 5,
      device_desc ud ! 17, config_desc ud ! 4] st s s') (transmit_device ud s)"
proof -
  let ?b = "usbip_device_descriptor_bytes
         \<lparr>dd_idVendor = SWAP16 (le16 (device_desc ud ! 8) (device_desc ud ! 9)),
          dd_idProduct = SWAP16 (le16 (device_desc ud ! 10) (device_desc ud ! 11)),
          dd_bcdDevice = SWAP16 (le16 (device_desc ud ! 12) (device_desc ud ! 13)),
          dd_bDeviceClass = device_desc ud ! 4, dd_bDeviceSubClass = device_desc ud ! 5,
          dd_bDeviceProtocol = device_desc ud ! 6, dd_bConfigurationValue = config_desc ud ! 5,
          dd_bNumConfigurations = device_desc ud ! 17, dd_bNumInterfaces = config_desc ud ! 4\<rparr>"
  have "transmit_device ud s = Done (srv_write ?b s)" using assms by (simp add: transmit_device_def)
  then show ?thesis using wrote_write [of ?b s] by (simp add: usbip_device_descriptor_bytes_def be_bytes16_le16)
qed

lemma get_next_interface_idx_spec:
  assumes "config_total_length config = Done (length (concat ds))" and "config = concat ds @ rest"
    and "ds = pre @ d # mid @ i # post" and "list_all is_descriptor ds"
    and "list_all (\<lambda>d. \<not> is_interface d) mid" and "is_interface i"
  shows "get_next_interface_idx config (length (concat pre)) = Done (length (concat (pre @ d # mid)))"
proof -
  have d: "2 \<le> length d" "2 \<le> length i" using assms(3,4) by (auto simp: is_descriptor_def)
  then have "config ! length (concat pre) = d ! 0" "length (concat pre) < length config"
    using assms(2,3) by (auto simp: nth_append)
  moreover have "next_interface_loop config (length (concat ds)) (length (concat pre)) (d ! 0) =
      Some (Done (length (concat pre @ d @ concat mid)))"
    by (rule next_interface_loop_spec [where i = i and rest = "concat post @ rest"]) (use assms d in auto)
  ultimately show ?thesis by (simp add: get_next_interface_idx_def assms(1))
qed

lemma interface_bytes_at:
  assumes "config = a @ i @ rest" and "9 \<le> length i"
  shows "nth_res config (length a + 5) = Done (i ! 5)" "nth_res config (length a + 6) = Done (i ! 6)"
    "nth_res config (length a + 7) = Done (i ! 7)"
  using assms by (auto simp: nth_append)

lemma filter_first:
  assumes "Suc k \<le> length (filter P xs)"
  obtains mid i post where "xs = mid @ i # post" "list_all (\<lambda>x. \<not> P x) mid" "P i" "filter P xs = i # filter P post"
proof -
  obtain i fs where "filter P xs = i # fs" using assms by (cases "filter P xs") auto
  then obtain mid post where "xs = mid @ i # post" "\<forall>x \<in> set mid. \<not> P x" "P i" "fs = filter P post"
    by (auto simp: filter_eq_Cons_iff)
  then show thesis using that by (auto simp: list_all_iff)
qed

text \<open>One interface found and sent.\<close>

lemma transmit_interfaces_Suc:
  assumes "config_total_length (config_desc ud) = Done (length (concat ds))" and "config_desc ud = concat ds @ rest"
    and "ds = pre @ d # mid @ i # post" and "list_all is_descriptor ds"
    and "list_all (\<lambda>d. \<not> is_interface d) mid" and "is_interface i" and "9 \<le> length i"
  shows "transmit_interfaces ud (Suc k) (length (concat pre)) (status, s) =
     (case and_then (status, s) (srv_write (interface_message i)) of (st, s1) \<Rightarrow>
        if st then transmit_interfaces ud k (length (concat (pre @ d # mid))) (st, s1) else Done (False, s1))"
proof -
  have "config_desc ud = concat (pre @ d # mid) @ i @ concat post @ rest" using assms(2,3) by simp
  note b = interface_bytes_at [OF this assms(7)]
  have m: "usbip_interface_descriptor_bytes \<lparr>id_bInterfaceClass = i ! 5, id_bInterfaceSubClass = i ! 6,
      id_bInterfaceProtocol = i ! 7, id_padding = 0\<rparr> = interface_message i"
    by (simp add: usbip_interface_descriptor_bytes_def interface_message_def)
  show ?thesis
    unfolding transmit_interfaces.simps get_next_interface_idx_spec [OF assms(1-6)] bind_res.simps b Let_def m ..
qed

lemma transmit_interfaces_wrote:
  assumes c: "config_total_length (config_desc ud) = Done (length (concat ds))" "config_desc ud = concat ds @ rest"
    and ds: "list_all is_descriptor ds" "list_all (\<lambda>d. is_interface d \<longrightarrow> 9 \<le> length d) ds"
  shows "ds = pre @ d # post \<Longrightarrow> k \<le> length (filter is_interface post) \<Longrightarrow>
     returns (\<lambda>(st, s'). wrote (concat (map interface_message (take k (filter is_interface post)))) st s s')
       (transmit_interfaces ud k (length (concat pre)) (True, s))"
proof (induction k arbitrary: pre d post s)
  case 0
  then show ?case by simp
next
  case (Suc k)
  obtain mid i post' where p: "post = mid @ i # post'" "list_all (\<lambda>x. \<not> is_interface x) mid" "is_interface i"
    "filter is_interface post = i # filter is_interface post'"
    using filter_first [OF Suc.prems(2)] .
  have e: "ds = pre @ d # mid @ i # post'" and i: "9 \<le> length i" using Suc.prems(1) p(1,3) ds(2) by auto
  obtain st s1 where w: "srv_write (interface_message i) s = (st, s1)" by fastforce
  note step = transmit_interfaces_Suc [OF c e ds(1) p(2,3) i, of k True s, unfolded and_then.simps if_True w prod.case]
  have "ds = (pre @ d # mid) @ i # post'" "k \<le> length (filter is_interface post')"
    using e Suc.prems(2) p(4) by simp_all
  note IH = Suc.IH [OF this]
  show ?case
    unfolding step p(4) take_Suc_Cons list.map concat.simps
    by (rule wrote_step [OF wrote_srv_write [OF w]]) (use IH in auto)
qed

lemma transmit_interfaces_False:
  assumes c: "config_total_length (config_desc ud) = Done (length (concat ds))" "config_desc ud = concat ds @ rest"
    and ds: "list_all is_descriptor ds" "list_all (\<lambda>d. is_interface d \<longrightarrow> 9 \<le> length d) ds"
    and e: "ds = d # post" "k \<le> length (filter is_interface post)"
  shows "transmit_interfaces ud k 0 (False, s) = Done (False, s)"
proof (cases k)
  case (Suc j)
  obtain mid i post' where p: "post = mid @ i # post'" "list_all (\<lambda>x. \<not> is_interface x) mid" "is_interface i"
    using filter_first [of j is_interface post] e(2) Suc by metis
  have "ds = [] @ d # mid @ i # post'" and i: "9 \<le> length i" using e(1) p(1,3) ds(2) by auto
  from transmit_interfaces_Suc [OF c this(1) ds(1) p(2,3) i, of j False s] Suc show ?thesis by simp
qed simp

lemma wf_config_split:
  assumes "wf_config config"
  obtains c ds rest where "config_descriptors config = Some (c # ds)" "config = concat (c # ds) @ rest"
    "config_total_length config = Done (length (concat (c # ds)))" "list_all is_descriptor (c # ds)"
    "list_all (\<lambda>d. is_interface d \<longrightarrow> 9 \<le> length d) (c # ds)" "unat (config ! 4) \<le> length (filter is_interface ds)"
proof -
  let ?t = "unat (le16 (config ! 2) (config ! 3))"
  obtain c ds where d: "config_descriptors config = Some (c # ds)" "unat (config ! 4) \<le> length (filter is_interface ds)"
    "list_all (\<lambda>d. is_interface d \<longrightarrow> 9 \<le> length d) (c # ds)"
    using assms by (auto simp: wf_config_def split: option.splits list.splits)
  have len: "9 \<le> length config" "?t \<le> length config" using assms by (auto simp: wf_config_def)
  have "concat (c # ds) = take ?t config" "list_all is_descriptor (c # ds)"
    using split_descriptors_Some [of "take ?t config" "c # ds"] d(1) by (auto simp: config_descriptors_def)
  then show thesis
    using that [OF d(1), of "drop ?t config"] d len by (simp add: config_total_length_Done)
qed

definition devlist_message :: "'d usbip_device_t \<Rightarrow> u8 list" where
  "devlist_message ud =
     op_rep_message 5 @ be_bytes32 1 @ device_message (device_desc ud) (config_desc ud) @
     concat (map interface_message (take (unat (config_desc ud ! 4))
       (case config_descriptors (config_desc ud) of
          Some (c # ds) \<Rightarrow> filter is_interface ds | _ \<Rightarrow> [])))"

definition import_message :: "'d usbip_device_t \<Rightarrow> u8 list" where
  "import_message ud = op_rep_message 3 @ device_message (device_desc ud) (config_desc ud)"

lemma wrote_and_then2:
  assumes "\<And>st s'. r = (st, s') \<Longrightarrow> wrote as st s s'" and "\<And>s1 st s'. f s1 = (st, s') \<Longrightarrow> wrote bs st s1 s'"
    and "and_then r f = (st, s')"
  shows "wrote (as @ bs) st s s'"
  using wrote_and_then [of as r s bs f] assms by (metis fst_conv snd_conv surj_pair)

lemma wrote_and_then_res:
  assumes "wrote as st s s1" and "returns (\<lambda>(st, s'). wrote bs st s1 s') (f s1)"
  shows "returns (\<lambda>(st, s'). wrote (as @ bs) st s s') (and_then_res (st, s1) f)"
  by (rule wrote_step [OF assms(1)]) (use assms(2) in simp_all)

abbreviation (input) device_id_message :: "u8 list" where
  "device_id_message \<equiv>
     char_array 256 ''sys/usb/virtual_device'' @ char_array 32 ''1-1'' @ be_bytes32 2 @ be_bytes32 3 @ be_bytes32 3"

lemma device_message_parts:
  "device_id_message @
   [dd ! 9, dd ! 8, dd ! 11, dd ! 10, dd ! 13, dd ! 12, dd ! 4, dd ! 5, dd ! 6, cd ! 5, dd ! 17, cd ! 4] =
   device_message dd cd"
  by (simp only: device_message_def append_assoc)

lemma transmit_import_response_wrote:
  assumes "18 \<le> length (device_desc ud)" and "6 \<le> length (config_desc ud)"
  shows "returns (\<lambda>(st, s'). wrote (import_message ud) st s s') (transmit_import_response ud s)"
proof -
  obtain st s1 where 1: "and_then (transmit_response_head OP_REP_IMPORT s) transmit_device_id = (st, s1)" by fastforce
  have w: "wrote (op_rep_message 3 @ device_id_message) st s s1"
    by (rule wrote_and_then2 [OF transmit_response_head_wrote transmit_device_id_wrote 1])
  show ?thesis
    using wrote_and_then_res [where f = "transmit_device ud", OF w transmit_device_wrote [OF assms, of s1]]
    unfolding transmit_import_response_def 1 append_assoc import_message_def device_message_def .
qed

lemma transmit_devlist_response_wrote:
  assumes "18 \<le> length (device_desc ud)" and "wf_config (config_desc ud)"
  shows "returns (\<lambda>(st, s'). wrote (devlist_message ud) st s s') (transmit_devlist_response ud s)"
proof -
  obtain c ds rest where c: "config_descriptors (config_desc ud) = Some (c # ds)" "config_desc ud = concat (c # ds) @ rest"
    "config_total_length (config_desc ud) = Done (length (concat (c # ds)))" "list_all is_descriptor (c # ds)"
    "list_all (\<lambda>d. is_interface d \<longrightarrow> 9 \<le> length d) (c # ds)" "unat (config_desc ud ! 4) \<le> length (filter is_interface ds)"
    using wf_config_split [OF assms(2)] .
  let ?id = "and_then (and_then (transmit_response_head OP_REP_DEVLIST s) (transmit_number_of_devices 1)) transmit_device_id"
  let ?ifs = "concat (map interface_message (take (unat (config_desc ud ! 4)) (filter is_interface ds)))"
  have len: "6 \<le> length (config_desc ud)" using assms(2) by (auto simp: wf_config_def)
  obtain st s1 where 1: "?id = (st, s1)" by fastforce
  have h: "wrote (op_rep_message 5 @ be_bytes32 1) st s s'"
    if "and_then (transmit_response_head OP_REP_DEVLIST s) (transmit_number_of_devices 1) = (st, s')" for st s'
    by (rule wrote_and_then2 [OF transmit_response_head_wrote transmit_number_of_devices_wrote that])
  have w: "wrote ((op_rep_message 5 @ be_bytes32 1) @ device_id_message) st s s1"
    by (rule wrote_and_then2 [OF h transmit_device_id_wrote 1])
  obtain st2 s2 where d: "and_then_res (st, s1) (transmit_device ud) = Done (st2, s2)"
    "wrote (op_rep_message 5 @ be_bytes32 1 @ device_message (device_desc ud) (config_desc ud)) st2 s s2"
    using wrote_and_then_res [where f = "transmit_device ud", OF w transmit_device_wrote [OF assms(1) len, of s1]]
    unfolding append_assoc device_message_def by (auto simp: returns_iff)
  have r: "transmit_devlist_response ud s = transmit_interfaces ud (unat (config_desc ud ! 4)) 0 (st2, s2)"
    unfolding transmit_devlist_response_def 1 d(1) bind_res.simps prod.case using len by simp
  have m: "devlist_message ud =
      (op_rep_message 5 @ be_bytes32 1 @ device_message (device_desc ud) (config_desc ud)) @ ?ifs"
    unfolding devlist_message_def c(1) by simp
  show ?thesis
    unfolding r m
  proof (rule wrote_step [OF d(2)])
    assume st2
    then show "returns (\<lambda>(st, s'). wrote ?ifs st s2 s') (transmit_interfaces ud (unat (config_desc ud ! 4)) 0 (st2, s2))"
      using transmit_interfaces_wrote [OF c(3,2,4,5), of "[]" c ds "unat (config_desc ud ! 4)" s2] c(6) by simp
  next
    assume "\<not> st2"
    then show "transmit_interfaces ud (unat (config_desc ud ! 4)) 0 (st2, s2) = Done (False, s2)"
      using transmit_interfaces_False [OF c(3,2,4,5) refl c(6)] by simp
  qed
qed

section \<open>The endpoint table\<close>

lemma load_endpoints_loop_returns:
  "t \<le> length config \<Longrightarrow> returns (\<lambda>_. True) (load_endpoints_loop config t idx eps)"
proof (induction config t idx eps rule: load_endpoints_loop.induct)
  case (1 config t idx eps)
  show ?case
  proof (cases "idx + 7 \<le> t \<and> config ! idx > 0")
    case True
    then have "nth_res config (idx + k) = Done (config ! (idx + k))" if "k < 7" for k
      using "1.prems" that by simp
    note n = this [of 0, simplified] this [of 1] this [of 2] this [of 3] this [of 6]
    show ?thesis
      using True n "1.IH" [OF _ n(1) _ n(2)] "1.prems"
      by (subst load_endpoints_loop.simps) auto
  next
    case False
    then show ?thesis using "1.prems" by (subst load_endpoints_loop.simps) auto
  qed
qed

lemma load_endpoints_returns:
  assumes "4 \<le> length config" and "unat (le16 (config ! 2) (config ! 3)) \<le> length config"
  shows "returns (\<lambda>s'. \<exists>eps. s' = s\<lparr>endpoints := eps\<rparr>) (load_endpoints config s)"
  using load_endpoints_loop_returns [OF assms(2), of 0 "\<lambda>_ _. zero_endpoint"]
  by (auto simp: load_endpoints_def config_total_length_Done [OF assms(1)] returns_iff)

section \<open>Safety of the operations\<close>

lemma wrote_step_post: "wrote bytes st s s' \<Longrightarrow> step_post l I (True, s) \<Longrightarrow> step_post l I (st', s')"
  unfolding wrote_def step_post_def by auto

lemma step_post_imported: "step_post l I (st, s\<lparr>device_imported := i\<rparr>) = step_post l I (st, s)"
  by (simp add: step_post_def)

text \<open>A device program whose configuration can also be listed.\<close>

locale served_device = device_program +
  assumes interfaces: "wf_config (config_desc ud)"
begin

lemma process_import_runs:
  assumes p: "step_post l I (True, s)"
  shows "runs l (step_post l I) (process_import ud s)"
  unfolding process_import_def
proof (rule runs_bindI [OF srv_read_runs], use p in \<open>simp add: step_post_def\<close>, clarify)
  fix st s1 n and bs :: "u8 list"
  assume n: "st \<and> l \<longrightarrow> live n"
  let ?s = "s\<lparr>net := n, num_pending_urbs := 0, wait_timeout_us := 500000\<rparr>"
  have "returns (step_post l I) (bind_res (load_endpoints (config_desc ud) ?s) (\<lambda>s.
         bind_res (usbip_device_reset ud (dev s)) (\<lambda>d.
         bind_res (transmit_import_response ud (s\<lparr>dev := d\<rparr>)) (\<lambda>(imported, s).
           Done (True, s\<lparr>device_imported := imported\<rparr>)))))" if st
  proof -
    have post: "step_post l I (True, ?s\<lparr>endpoints := e, dev := d\<rparr>)" if "dev_inv I d" for e d
      using p that n \<open>st\<close> by (simp add: step_post_def wf_srv_def wf_queue_def pend_def)
    have d: "dev_inv I (dev ?s)" using p by (simp add: step_post_def wf_srv_def)
    have t: "returns (step_post l I) (bind_res (transmit_import_response ud (?s\<lparr>endpoints := e, dev := d\<rparr>))
        (\<lambda>(imported, s). Done (True, s\<lparr>device_imported := imported\<rparr>)))" if "dev_inv I d" for e d
      by (rule returns_bindI [OF transmit_import_response_wrote])
        (use descriptors_len wrote_step_post [OF _ post [OF that]] in \<open>auto simp: step_post_imported\<close>)
    obtain eps where e: "load_endpoints (config_desc ud) ?s = Done (?s\<lparr>endpoints := eps\<rparr>)"
      using load_endpoints_returns [of "config_desc ud" ?s] descriptors_len by (auto simp: returns_iff)
    obtain d' where "usbip_device_reset ud (dev ?s) = Done d'" "dev_inv I d'"
      using reset_returns [OF d] by (auto simp: returns_iff)
    then show ?thesis unfolding e using t [of d' eps] by simp
  qed
  then show "runs l (step_post l I) (if \<not> st then Done (False, s\<lparr>net := n\<rparr>) else
      let s = s\<lparr>net := n, num_pending_urbs := 0, wait_timeout_us := 500000\<rparr> in
         bind_res (load_endpoints (config_desc ud) s) (\<lambda>s.
         bind_res (usbip_device_reset ud (dev s)) (\<lambda>d.
         bind_res (transmit_import_response ud (s\<lparr>dev := d\<rparr>)) (\<lambda>(imported, s).
           Done (True, s\<lparr>device_imported := imported\<rparr>)))))"
    using p by (cases st) (auto simp: step_post_def Let_def intro: returns_runs)
qed

lemma process_cmd_runs:
  assumes "wf_srv I s" and "l \<longrightarrow> live (net s)"
  shows "runs l (\<lambda>(disconnect, s'). wf_srv I s' \<and> (\<not> disconnect \<longrightarrow> device_imported s') \<and>
      (\<not> disconnect \<and> l \<longrightarrow> live (net s'))) (usbip_protocol_process_cmd ud s)"
  unfolding usbip_protocol_process_cmd_def Let_def
proof (rule runs_bindI [OF srv_read_runs [OF assms(2)]], clarify)
  fix st s1 n and bs :: "u8 list"
  assume n: "st \<and> l \<longrightarrow> live n"
  let ?s = "s\<lparr>net := n\<rparr>" and ?h = "op_req_head_of bs"
  have p: "step_post l I (st, ?s)" using assms n by (auto simp: step_post_def)
  have "runs l (step_post l I) (transmit_devlist_response ud ?s)" if st
    by (rule returns_runs [OF returns_mono [OF transmit_devlist_response_wrote]])
      (use descriptors_len interfaces p that in \<open>auto simp: step_post_def wrote_def\<close>)
  then have "runs l (step_post l I) (if \<not> st \<or> SWAP16 (rq_version ?h) \<noteq> USBIP_PROTOCOL_VERSION then Done (False, ?s)
             else if SWAP16 (rq_command_code ?h) = OP_REQ_DEVLIST then transmit_devlist_response ud ?s
             else if SWAP16 (rq_command_code ?h) = OP_REQ_IMPORT then process_import ud ?s
             else Done (False, ?s))"
    using p process_import_runs [of l ?s] by (auto simp: step_post_False dest: step_post_wf)
  then show "runs l (\<lambda>(disconnect, s'). wf_srv I s' \<and> (\<not> disconnect \<longrightarrow> device_imported s') \<and>
      (\<not> disconnect \<and> l \<longrightarrow> live (net s')))
      (bind_res (if \<not> st \<or> SWAP16 (rq_version ?h) \<noteq> USBIP_PROTOCOL_VERSION then Done (False, ?s)
             else if SWAP16 (rq_command_code ?h) = OP_REQ_DEVLIST then transmit_devlist_response ud ?s
             else if SWAP16 (rq_command_code ?h) = OP_REQ_IMPORT then process_import ud ?s
             else Done (False, ?s)) (\<lambda>(status, s). Done (\<not> (status \<and> device_imported s), s)))"
    by (rule runs_bindI) (auto simp: step_post_def)
qed

end

end
