(* ===== verification/Completion.thy ===== *)
theory Completion
  imports Replies
begin

text \<open>
  Completing pending transfers, \<open>complete_pending_urbs\<close> of \<open>src/lib/usbip_protocol.c\<close>: the rounds of
  its loop as a relation, and what they do with the queue, the data of the device and the replies.
\<close>

section \<open>The rounds of the loop\<close>

inductive rounds :: "'d usbip_device_t \<Rightarrow> u64 \<Rightarrow> nat \<Rightarrow> 'd srv \<Rightarrow> bool \<times> 'd srv \<Rightarrow> bool"
  for ud :: "'d usbip_device_t" and now :: u64 where
  finish: "\<not> idx < num_pending_urbs s \<Longrightarrow> rounds ud now idx s (True, s)"
| wait: "idx < num_pending_urbs s \<Longrightarrow> urb = pend s ! idx \<Longrightarrow> now < due_us s urb \<Longrightarrow>
    rounds ud now (idx + 1) (shorten_wait (due_us s urb - now) s) r \<Longrightarrow> rounds ud now idx s r"
| iso: "idx < num_pending_urbs s \<Longrightarrow> urb = pend s ! idx \<Longrightarrow> \<not> now < due_us s urb \<Longrightarrow> ur_isochronous urb \<Longrightarrow>
    transmit_iso_ret_submit ud urb s = Done (True, s1) \<Longrightarrow> remove_pending_urb idx s1 = Done s2 \<Longrightarrow>
    rounds ud now idx s2 r \<Longrightarrow> rounds ud now idx s r"
| iso_fail: "idx < num_pending_urbs s \<Longrightarrow> urb = pend s ! idx \<Longrightarrow> \<not> now < due_us s urb \<Longrightarrow> ur_isochronous urb \<Longrightarrow>
    transmit_iso_ret_submit ud urb s = Done (False, s1) \<Longrightarrow> remove_pending_urb idx s1 = Done s2 \<Longrightarrow>
    rounds ud now idx s (False, s2)"
| empty: "idx < num_pending_urbs s \<Longrightarrow> urb = pend s ! idx \<Longrightarrow> \<not> now < due_us s urb \<Longrightarrow> \<not> ur_isochronous urb \<Longrightarrow>
    usbip_device_fetch_ep_data (ucast (ur_ep urb)) (tx_buffer s) (unat (ur_transfer_buffer_length urb)) (dev s) =
      Done (0, tx, d) \<Longrightarrow>
    rounds ud now (idx + 1) (s\<lparr>tx_buffer := tx, dev := d\<rparr>) r \<Longrightarrow> rounds ud now idx s r"
| data: "idx < num_pending_urbs s \<Longrightarrow> urb = pend s ! idx \<Longrightarrow> \<not> now < due_us s urb \<Longrightarrow> \<not> ur_isochronous urb \<Longrightarrow>
    usbip_device_fetch_ep_data (ucast (ur_ep urb)) (tx_buffer s) (unat (ur_transfer_buffer_length urb)) (dev s) =
      Done (len, tx, d) \<Longrightarrow> 0 < len \<Longrightarrow>
    remove_pending_urb idx (served now urb (s\<lparr>tx_buffer := tx, dev := d\<rparr>)) = Done s1 \<Longrightarrow>
    transmit_ret_submit (ur_seqnum urb) 0 len True s1 = Done (True, s2) \<Longrightarrow>
    rounds ud now idx s2 r \<Longrightarrow> rounds ud now idx s r"
| data_fail: "idx < num_pending_urbs s \<Longrightarrow> urb = pend s ! idx \<Longrightarrow> \<not> now < due_us s urb \<Longrightarrow> \<not> ur_isochronous urb \<Longrightarrow>
    usbip_device_fetch_ep_data (ucast (ur_ep urb)) (tx_buffer s) (unat (ur_transfer_buffer_length urb)) (dev s) =
      Done (len, tx, d) \<Longrightarrow> 0 < len \<Longrightarrow>
    remove_pending_urb idx (served now urb (s\<lparr>tx_buffer := tx, dev := d\<rparr>)) = Done s1 \<Longrightarrow>
    transmit_ret_submit (ur_seqnum urb) 0 len True s1 = Done (False, s2) \<Longrightarrow>
    rounds ud now idx s (False, s2)"

lemma complete_loop_rounds:
  "complete_loop ud now idx s = Done r \<Longrightarrow> rounds ud now idx s r"
proof (induction "num_pending_urbs s - idx" arbitrary: idx s rule: less_induct)
  case less
  note IH = less.hyps
  show ?case
  proof (cases "idx < num_pending_urbs s")
    case False
    then show ?thesis using less.prems by (auto simp: complete_loop_end intro: rounds.finish)
  next
    case True
    have u: "nth_res (pending_urbs s) idx = Done (pend s ! idx)"
      using less.prems True by (subst (asm) complete_loop.simps) (auto simp: res_simps nth_pend)
    let ?u = "pend s ! idx"
    consider (wait) "now < due_us s ?u" | (iso) "\<not> now < due_us s ?u" "ur_isochronous ?u"
      | (data) "\<not> now < due_us s ?u" "\<not> ur_isochronous ?u" by blast
    then show ?thesis
    proof cases
      case wait
      have "rounds ud now (idx + 1) (shorten_wait (due_us s ?u - now) s) r"
        using less.prems True unfolding complete_loop_wait [OF True u wait] by (intro IH) auto
      then show ?thesis by (rule rounds.wait [OF True refl wait])
    next
      case iso
      obtain st s1 s2 where t: "transmit_iso_ret_submit ud ?u s = Done (st, s1)" "remove_pending_urb idx s1 = Done s2"
        "if st then complete_loop ud now idx s2 = Done r else r = (False, s2)"
        using less.prems unfolding complete_loop_iso [OF True u iso] by (auto simp: res_simps split: if_splits)
      have n: "num_pending_urbs s2 - idx < num_pending_urbs s - idx"
        using True transmit_iso_ret_submit_frame [OF t(1)] remove_pending_urb_frame [OF t(2)] by auto
      show ?thesis
      proof (cases st)
        case st: True
        have "rounds ud now idx s2 r" using t(3) st by (intro IH [OF n]) simp
        with t(1,2) st show ?thesis by (intro rounds.iso [OF True refl iso]) auto
      next
        case st: False
        with t(1,2) rounds.iso_fail [OF True refl iso] t(3) show ?thesis by simp
      qed
    next
      case data
      obtain len tx d where f: "usbip_device_fetch_ep_data (ucast (ur_ep ?u)) (tx_buffer s)
          (unat (ur_transfer_buffer_length ?u)) (dev s) = Done (len, tx, d)"
        using less.prems unfolding complete_loop_data [OF True u data] by (auto simp: res_simps)
      note l = less.prems [unfolded complete_loop_data [OF True u data] f bind_res.simps prod.case]
      show ?thesis
      proof (cases "0 < len")
        case False
        then have "rounds ud now (idx + 1) (s\<lparr>tx_buffer := tx, dev := d\<rparr>) r" using l True by (intro IH) auto
        with f False show ?thesis by (intro rounds.empty [OF True refl data]) auto
      next
        case pos: True
        let ?s = "served now ?u (s\<lparr>tx_buffer := tx, dev := d\<rparr>)"
        obtain s1 st s2 where t: "remove_pending_urb idx ?s = Done s1"
          "transmit_ret_submit (ur_seqnum ?u) 0 len True s1 = Done (st, s2)"
          "if st then complete_loop ud now idx s2 = Done r else r = (False, s2)"
          using l pos by (auto simp: res_simps split: if_splits)
        have n: "num_pending_urbs s2 - idx < num_pending_urbs s - idx"
          using True transmit_ret_submit_frame [OF t(2)] remove_pending_urb_frame [OF t(1)] by auto
        show ?thesis
        proof (cases st)
          case st: True
          have "rounds ud now idx s2 r" using t(3) st by (intro IH [OF n]) simp
          with t(1,2) st show ?thesis by (intro rounds.data [OF True refl data f pos]) auto
        next
          case st: False
          with t(1,2) rounds.data_fail [OF True refl data f pos] t(3) show ?thesis by simp
        qed
      qed
    qed
  qed
qed

section \<open>Replies to isochronous transfers\<close>

text \<open>
  The packets of a reply: one length per packet. An IN packet has at most the length the host asked
  for, and together they fit the transfer buffer; an OUT packet was accepted whole.
\<close>

definition iso_lengths :: "pending_urb_t \<Rightarrow> iso_packet_t list \<Rightarrow> nat list \<Rightarrow> bool" where
  "iso_lengths urb packets lens \<longleftrightarrow> length lens = length packets \<and>
     (if ur_direction urb = 0 then lens = map (unat \<circ> pk_length) packets
      else list_all2 (\<lambda>len p. len \<le> unat (pk_length p)) lens packets)"

definition iso_descriptors :: "iso_packet_t list \<Rightarrow> nat list \<Rightarrow> u8 list" where
  "iso_descriptors packets lens = concat (map2 (\<lambda>p len. iso_packet_message p (of_nat len)) packets lens)"

lemma iso_packet_descriptor_message:
  "usbip_iso_packet_descriptor_bytes \<lparr>ip_offset = SWAP32 (pk_offset p), ip_length = SWAP32 (pk_length p),
     ip_actual_length = SWAP32 k, ip_status = SWAP32 0\<rparr> = iso_packet_message p k"
  by (simp add: usbip_iso_packet_descriptor_bytes_def iso_packet_message_def replicate_12)

lemma transmit_iso_reply_wrote:
  assumes "ur_direction urb \<noteq> 0 \<longrightarrow> t \<le> length (tx_buffer s)" and "ds = [] \<longleftrightarrow> ur_number_of_packets urb = 0"
  shows "returns (\<lambda>(st, s'). wrote (ret_submit_message (ur_seqnum urb) 0 (of_nat t) (ur_start_frame urb) (ur_number_of_packets urb) @
      (if ur_direction urb \<noteq> 0 then take t (tx_buffer s) else []) @ concat (map usbip_iso_packet_descriptor_bytes ds)) st s s')
    (transmit_iso_reply urb ds t s)"
proof -
  let ?h = "usbip_header_basic_bytes \<lparr>hb_command = SWAP32 USBIP_RET_SUBMIT, hb_seqnum = SWAP32 (ur_seqnum urb),
      hb_devid = 0, hb_direction = 0, hb_ep = 0\<rparr>"
  let ?r = "usbip_ret_submit_bytes \<lparr>rs_status = SWAP32 0, rs_actual_length = SWAP32 (of_nat t),
      rs_start_frame = SWAP32 (ur_start_frame urb), rs_number_of_packets = SWAP32 (ur_number_of_packets urb),
      rs_error_count = SWAP32 0, rs_padding = 0\<rparr>"
  let ?m = "ret_submit_message (ur_seqnum urb) 0 (of_nat t) (ur_start_frame urb) (ur_number_of_packets urb)"
  let ?data = "if ur_direction urb \<noteq> 0 then take t (tx_buffer s) else []"
  let ?ds = "concat (map usbip_iso_packet_descriptor_bytes ds)"
  have m: "?h @ ?r = ?m"
    using ret_submit_parts [of "ur_seqnum urb" 0 "of_nat t"] unfolding SWAP32_0 .
  obtain st s1 where 1: "and_then (srv_write ?h s) (srv_write ?r) = (st, s1)" by fastforce
  note w1 = wrote_write2 [OF 1, unfolded m]
  define data where "data = (if st \<and> ur_direction urb \<noteq> 0 \<and> t > 0
      then bind_res (read_mem (tx_buffer s1) 0 t) (\<lambda>bytes. Done (srv_write bytes s1)) else Done (st, s1))"
  have r: "transmit_iso_reply urb ds t s = bind_res data (\<lambda>(status, s).
      Done (if status \<and> ur_number_of_packets urb > 0 then srv_write ?ds s else (status, s)))"
    unfolding transmit_iso_reply_def Let_def 1 prod.case data_def ..
  have "returns (\<lambda>(st2, s2). wrote (?m @ ?data) st2 s s2) data"
  proof (rule wrote_step [OF w1])
    assume st
    with assms(1) show "returns (\<lambda>(st2, s2). wrote ?data st2 s1 s2) data"
      using wrote_tx_buffer [OF w1] wrote_write [of "take t (tx_buffer s)" s1] by (auto simp: data_def)
  qed (simp add: data_def)
  then obtain st2 s2 where d: "data = Done (st2, s2)" and w2: "wrote (?m @ ?data) st2 s s2"
    by (auto simp: returns_iff)
  have "returns (\<lambda>(st3, s3). wrote ((?m @ ?data) @ ?ds) st3 s s3) (transmit_iso_reply urb ds t s)"
    unfolding r d bind_res.simps prod.case
  proof (rule wrote_step [OF w2])
    assume st2
    with assms(2) show "returns (\<lambda>(st3, s3). wrote ?ds st3 s2 s3)
        (Done (if st2 \<and> ur_number_of_packets urb > 0 then srv_write ?ds s2 else (st2, s2)))"
      using wrote_write [of ?ds s2] by (auto simp: word_gt_0)
  qed simp
  then show ?thesis by (simp only: append_assoc)
qed

text \<open>
  \<open>reply_to urb msg\<close>: the bytes \<open>msg\<close> are a \<open>USBIP_RET_SUBMIT\<close> that answers the transfer. The lengths it
  announces are those of the data that follows.
\<close>

definition data_reply :: "pending_urb_t \<Rightarrow> u8 list \<Rightarrow> u8 list" where
  "data_reply urb bytes = ret_submit_message (ur_seqnum urb) 0 (of_nat (length bytes)) 0 0xffffffff @ bytes"

definition iso_reply :: "pending_urb_t \<Rightarrow> nat list \<Rightarrow> u8 list \<Rightarrow> u8 list" where
  "iso_reply urb lens bytes =
     ret_submit_message (ur_seqnum urb) 0 (of_nat (sum_list lens)) (ur_start_frame urb) (ur_number_of_packets urb) @
     bytes @ iso_descriptors (take (unat (ur_number_of_packets urb)) (ur_packets urb)) lens"

definition reply_to :: "pending_urb_t \<Rightarrow> u8 list \<Rightarrow> bool" where
  "reply_to urb msg \<longleftrightarrow>
     (if ur_isochronous urb
      then \<exists>lens bytes. msg = iso_reply urb lens bytes \<and>
        iso_lengths urb (take (unat (ur_number_of_packets urb)) (ur_packets urb)) lens \<and>
        (if ur_direction urb = 0 then bytes = []
         else length bytes = sum_list lens \<and> sum_list lens \<le> unat (ur_transfer_buffer_length urb))
      else \<exists>bytes. msg = data_reply urb bytes \<and> bytes \<noteq> [] \<and>
        length bytes \<le> unat (ur_transfer_buffer_length urb) \<and> length bytes \<le> 512)"

lemma iso_descriptors_simps:
  "iso_descriptors [] lens = []"
  "iso_descriptors (p # ps) (k # ks) = iso_packet_message p (of_nat k) @ iso_descriptors ps ks"
  by (simp_all add: iso_descriptors_def)

context device_program
begin

lemma iso_packets_loop_lengths:
  "wf_srv I s \<Longrightarrow> (ur_direction urb \<noteq> 0 \<longrightarrow> t \<le> unat (ur_transfer_buffer_length urb)) \<Longrightarrow>
   unat (ur_transfer_buffer_length urb) \<le> 65536 \<Longrightarrow>
   returns (\<lambda>(ds, t', s'). wf_srv I s' \<and> net s' = net s \<and> length ds = length packets \<and>
     (\<exists>lens. iso_lengths urb packets lens \<and> t' = t + sum_list lens \<and>
        concat (map usbip_iso_packet_descriptor_bytes ds) = iso_descriptors packets lens \<and>
        (ur_direction urb \<noteq> 0 \<longrightarrow> t' \<le> unat (ur_transfer_buffer_length urb))))
     (iso_packets_loop ud urb packets t s)"
proof (induction packets arbitrary: t s)
  case Nil
  then show ?case by (auto simp: iso_lengths_def iso_descriptors_simps)
next
  case (Cons p ps)
  obtain k s1 where 1: "iso_packet_in ud urb p t s = Done (k, s1)" "wf_srv I s1" "net s1 = net s"
    "ur_direction urb \<noteq> 0 \<longrightarrow> t + k \<le> unat (ur_transfer_buffer_length urb) \<and> k \<le> unat (pk_length p)"
    "ur_direction urb = 0 \<longrightarrow> k = unat (pk_length p)"
    using iso_packet_in_returns [OF Cons.prems, of p] by (auto simp: returns_iff)
  have pre: "ur_direction urb \<noteq> 0 \<longrightarrow> t + k \<le> unat (ur_transfer_buffer_length urb)" using 1(4) by blast
  obtain ds t' s' lens where 2: "iso_packets_loop ud urb ps (t + k) s1 = Done (ds, t', s')" "wf_srv I s'"
    "net s' = net s" "length ds = length ps" "iso_lengths urb ps lens" "t' = t + k + sum_list lens"
    "concat (map usbip_iso_packet_descriptor_bytes ds) = iso_descriptors ps lens"
    "ur_direction urb \<noteq> 0 \<longrightarrow> t' \<le> unat (ur_transfer_buffer_length urb)"
    using Cons.IH [OF 1(2) pre Cons.prems(3)] 1(3) by (auto simp: returns_iff)
  have "iso_lengths urb (p # ps) (k # lens)"
    using 2(5) 1(4,5) by (auto simp: iso_lengths_def split: if_splits)
  then have "\<exists>ls. iso_lengths urb (p # ps) ls \<and> t' = t + sum_list ls \<and>
      iso_packet_message p (of_nat k) @ iso_descriptors ps lens = iso_descriptors (p # ps) ls \<and>
      (ur_direction urb \<noteq> 0 \<longrightarrow> t' \<le> unat (ur_transfer_buffer_length urb))"
    using 2(6,8) by (intro exI [of _ "k # lens"]) (auto simp: iso_descriptors_simps)
  then show ?case using 1(1) 2 iso_packet_descriptor_message [of p "of_nat k"] by simp
qed

lemma transmit_iso_ret_submit_wrote:
  assumes "wf_srv I s" and u: "wf_transfer urb" "ur_isochronous urb"
  shows "returns (\<lambda>(st, s'). wf_srv I s' \<and>
     (\<exists>d tx msg. reply_to urb msg \<and> wrote msg st (s\<lparr>dev := d, tx_buffer := tx\<rparr>) s'))
     (transmit_iso_ret_submit ud urb s)"
proof -
  let ?ps = "take (unat (ur_number_of_packets urb)) (ur_packets urb)"
  have p: "read_mem (ur_packets urb) 0 (unat (ur_number_of_packets urb)) = Done ?ps"
    and b: "unat (ur_transfer_buffer_length urb) \<le> 65536" and n: "length ?ps = unat (ur_number_of_packets urb)"
    using u by (simp_all add: wf_transfer_def)
  obtain ds t s1 lens where l: "iso_packets_loop ud urb ?ps 0 s = Done (ds, t, s1)" "wf_srv I s1" "net s1 = net s"
    "length ds = length ?ps" "iso_lengths urb ?ps lens" "t = sum_list lens"
    "concat (map usbip_iso_packet_descriptor_bytes ds) = iso_descriptors ?ps lens"
    "ur_direction urb \<noteq> 0 \<longrightarrow> t \<le> unat (ur_transfer_buffer_length urb)"
    using iso_packets_loop_lengths [OF assms(1) _ b, of 0 ?ps] by (auto simp: returns_iff)
  have tx: "ur_direction urb \<noteq> 0 \<longrightarrow> t \<le> length (tx_buffer s1)" "ds = [] \<longleftrightarrow> ur_number_of_packets urb = 0"
    using l(2,8) b l(4) n by (auto simp: wf_srv_def unsigned_eq_0_iff simp flip: length_0_conv)
  let ?bytes = "if ur_direction urb \<noteq> 0 then take t (tx_buffer s1) else []"
  have "reply_to urb (iso_reply urb lens ?bytes)"
    using u(2) l(5,6,8) tx(1) unfolding reply_to_def by (auto intro!: exI [of _ lens])
  moreover obtain st s' where "transmit_iso_reply urb ds t s1 = Done (st, s')" "wrote (iso_reply urb lens ?bytes) st s1 s'"
    using transmit_iso_reply_wrote [OF tx] l(6,7) by (auto simp: returns_iff iso_reply_def)
  moreover have "s1 = s\<lparr>dev := dev s1, tx_buffer := tx_buffer s1\<rparr>"
    using iso_packets_loop_frame [OF l(1)] by auto
  moreover have "wf_srv I s'" using calculation(3) l(2) by (auto simp: wrote_def)
  ultimately show ?thesis
    unfolding transmit_iso_ret_submit_def p bind_res.simps l(1) prod.case by (auto simp: returns_iff) metis
qed

end

section \<open>Every transfer is answered once, in order\<close>

lemma skip_shuffles:
  assumes "i < length p" and "take (i + 1) p' = take (i + 1) p" and "drop (i + 1) p \<in> shuffles d (drop (i + 1) p')"
  shows "take i p' = take i p \<and> drop i p \<in> shuffles d (drop i p')"
proof -
  have "i < length p'" using arg_cong [OF assms(2), of length] assms(1) by simp
  moreover have "p' ! i = p ! i" using arg_cong [OF assms(2), of "\<lambda>xs. xs ! i"] by simp
  moreover have "take i p' = take i p" using arg_cong [OF assms(2), of "take i"] by (simp add: min_def)
  ultimately show ?thesis
    using assms(1,3) by (simp add: Cons_nth_drop_Suc [symmetric] Cons_in_shuffles_rightI)
qed

lemma served_shuffles:
  assumes "i < length p" and "take i p' = take i (drop_nth i p)" and "drop i (drop_nth i p) \<in> shuffles d (drop i p')"
  shows "take i p' = take i p \<and> drop i p \<in> shuffles (p ! i # d) (drop i p')"
  using assms by (simp add: drop_nth_def Cons_nth_drop_Suc [symmetric] Cons_in_shuffles_leftI)

text \<open>
  Finished transfers are pairs of the transfer and its reply. \<open>stream i\<close> is the data sent for endpoint
  \<open>i\<close>: what follows the 48 bytes of the header of a reply. \<open>paced\<close> says how the endpoint's schedule
  follows: no transfer finishes before the endpoint may be polled, the next poll is one interval
  after \<open>now\<close>, and only one transfer finishes if the interval is not 0.
\<close>

type_synonym finished = "(pending_urb_t \<times> u8 list) list"

definition on_endpoint :: "nat \<Rightarrow> pending_urb_t \<times> u8 list \<Rightarrow> bool" where
  "on_endpoint i f \<longleftrightarrow> \<not> ur_isochronous (fst f) \<and> ep_number (ur_ep (fst f)) = i"

definition stream :: "nat \<Rightarrow> finished \<Rightarrow> u8 list" where
  "stream i fin = concat (map (drop 48 \<circ> snd) (filter (on_endpoint i) fin))"

definition paced :: "u64 \<Rightarrow> nat \<Rightarrow> finished \<Rightarrow> 'd srv \<Rightarrow> 'd srv \<Rightarrow> bool" where
  "paced now i fin s s' \<longleftrightarrow>
     (let k = length (filter (on_endpoint i) fin); e = endpoints s 1 i in
      (if k = 0 then endpoints s' 1 i = e
       else \<not> now < next_poll_us e \<and> endpoints s' 1 i = e\<lparr>next_poll_us := now + interval_us e\<rparr>) \<and>
      (now < now + interval_us e \<longrightarrow> k \<le> 1))"

text \<open>What one round does that finishes the transfer at \<open>idx\<close>, and what the loop does from \<open>idx\<close> on.\<close>

definition completed :: "('d \<Rightarrow> bool) \<Rightarrow> bool \<Rightarrow> u64 \<Rightarrow> nat \<Rightarrow> u8 list \<Rightarrow> 'd srv \<Rightarrow> 'd srv \<Rightarrow> bool" where
  "completed I quiet now idx msg s s' \<longleftrightarrow> wf_srv I s' \<and> pend s' = drop_nth idx (pend s) \<and>
     reply_to (pend s ! idx) msg \<and> sent (net s') = sent (net s) @ msg \<and> input (net s') = input (net s) \<and>
     (\<forall>i. paced now i [(pend s ! idx, msg)] s s') \<and>
     (quiet \<longrightarrow> (\<forall>i > 0. stream i [(pend s ! idx, msg)] @ unread (dev s') i = unread (dev s) i))"

definition answered :: "('d \<Rightarrow> bool) \<Rightarrow> bool \<Rightarrow> u64 \<Rightarrow> nat \<Rightarrow> 'd srv \<Rightarrow> 'd srv \<Rightarrow> bool" where
  "answered I quiet now idx s s' \<longleftrightarrow> wf_srv I s' \<and> take idx (pend s') = take idx (pend s) \<and>
     (\<exists>fin. drop idx (pend s) \<in> shuffles (map fst fin) (drop idx (pend s')) \<and>
       list_all (\<lambda>(urb, msg). reply_to urb msg) fin \<and> sent (net s') = sent (net s) @ concat (map snd fin) \<and>
       input (net s') = input (net s) \<and> (\<forall>i. paced now i fin s s') \<and>
       (quiet \<longrightarrow> (\<forall>i > 0. stream i fin @ unread (dev s') i = unread (dev s) i)))"

lemma paced_Nil: "endpoints s' = endpoints s \<Longrightarrow> paced now i [] s s'"
  by (simp add: paced_def)

lemma paced_Cons:
  assumes "paced now i [f] s s2" and "paced now i fin s2 s'"
  shows "paced now i (f # fin) s s'"
  using assms by (auto simp: paced_def Let_def split: if_splits)

lemma stream_Cons: "stream i (f # fin) = stream i [f] @ stream i fin"
  by (simp add: stream_def)

lemma completed_num:
  assumes "wf_srv I s" and "idx < num_pending_urbs s" and "completed I quiet now idx msg s s2"
  shows "idx \<le> num_pending_urbs s2"
proof -
  have q: "wf_queue s" "wf_queue s2" and p: "pend s2 = drop_nth idx (pend s)"
    using assms(1,3) by (auto simp: completed_def wf_srv_def)
  have "length (pend s2) = length (pend s) - 1" using assms(2) length_pend [OF q(1)] by (simp add: p drop_nth_def)
  then show ?thesis using assms(2) length_pend [OF q(1)] length_pend [OF q(2)] by simp
qed

lemma answered_completed:
  assumes "wf_srv I s" and i: "idx < num_pending_urbs s" and c: "completed I quiet now idx msg s s2"
    and a: "wf_srv I s2 \<Longrightarrow> idx \<le> num_pending_urbs s2 \<Longrightarrow> answered I quiet now idx s2 s'"
  shows "answered I quiet now idx s s'"
proof -
  let ?f = "(pend s ! idx, msg)"
  have q: "wf_queue s" "wf_srv I s2" and p: "pend s2 = drop_nth idx (pend s)"
    using assms(1) c by (auto simp: completed_def wf_srv_def)
  have len: "idx < length (pend s)" using i length_pend [OF q(1)] by simp
  from a [OF q(2) completed_num [OF assms(1) i c]] obtain fin where
    f: "wf_srv I s'" "take idx (pend s') = take idx (drop_nth idx (pend s))"
    "drop idx (drop_nth idx (pend s)) \<in> shuffles (map fst fin) (drop idx (pend s'))"
    "list_all (\<lambda>(urb, msg). reply_to urb msg) fin" "sent (net s') = sent (net s2) @ concat (map snd fin)"
    "input (net s') = input (net s2)" "\<forall>i. paced now i fin s2 s'"
    "quiet \<longrightarrow> (\<forall>i > 0. stream i fin @ unread (dev s') i = unread (dev s2) i)"
    unfolding answered_def p by blast
  have "list_all (\<lambda>(urb, msg). reply_to urb msg) (?f # fin)" "map fst (?f # fin) = pend s ! idx # map fst fin"
    "sent (net s') = sent (net s) @ concat (map snd (?f # fin))" "input (net s') = input (net s)"
    using c f(4-6) by (simp_all add: completed_def)
  moreover have "\<forall>i. paced now i (?f # fin) s s'" using c f(7) unfolding completed_def by (blast intro: paced_Cons)
  moreover have "quiet \<longrightarrow> (\<forall>i > 0. stream i (?f # fin) @ unread (dev s') i = unread (dev s) i)"
    using c f(8) by (simp add: completed_def stream_Cons [of _ ?f fin])
  ultimately show ?thesis using served_shuffles [OF len f(2,3)] f(1) unfolding answered_def by metis
qed

lemma answered_skip:
  assumes "wf_srv I s" and i: "idx < num_pending_urbs s"
    and e: "pend s1 = pend s" "net s1 = net s" "endpoints s1 = endpoints s" "\<forall>i > 0. unread (dev s1) i = unread (dev s) i"
    and a: "answered I quiet now (idx + 1) s1 s'"
  shows "answered I quiet now idx s s'"
proof -
  have len: "idx < length (pend s)" using assms(1) i length_pend [of s] by (simp add: wf_srv_def)
  from a obtain fin where
    f: "wf_srv I s'" "take (idx + 1) (pend s') = take (idx + 1) (pend s)"
    "drop (idx + 1) (pend s) \<in> shuffles (map fst fin) (drop (idx + 1) (pend s'))"
    "list_all (\<lambda>(urb, msg). reply_to urb msg) fin" "sent (net s') = sent (net s) @ concat (map snd fin)"
    "input (net s') = input (net s)" "\<forall>i. paced now i fin s1 s'"
    "quiet \<longrightarrow> (\<forall>i > 0. stream i fin @ unread (dev s') i = unread (dev s1) i)"
    unfolding answered_def e by blast
  have "\<forall>i. paced now i fin s s'" using f(7) by (simp add: paced_def e(3))
  moreover have "quiet \<longrightarrow> (\<forall>i > 0. stream i fin @ unread (dev s') i = unread (dev s) i)" using f(8) e(4) by simp
  ultimately show ?thesis using skip_shuffles [OF len f(2,3)] f(1,4-6) unfolding answered_def by blast
qed

lemma remove_completed:
  assumes "wf_srv I s" "idx < num_pending_urbs s" "remove_pending_urb idx s = Done s'"
  shows "wf_srv I s'" "pend s' = drop_nth idx (pend s)" "net s' = net s" "dev s' = dev s"
    "tx_buffer s' = tx_buffer s" "endpoints s' = endpoints s" "wait_timeout_us s' = wait_timeout_us s"
proof -
  have q: "wf_queue s" using assms(1) by (simp add: wf_srv_def)
  from remove_pending_urb_returns [OF q assms(2)] remove_wf_srv [OF assms(1,2)] assms(3)
  show "wf_srv I s'" "pend s' = drop_nth idx (pend s)" "net s' = net s" "dev s' = dev s"
    "tx_buffer s' = tx_buffer s" "endpoints s' = endpoints s" "wait_timeout_us s' = wait_timeout_us s" by auto
qed

lemma length_ret_submit_message [simp]: "length (ret_submit_message q st n f k) = 48"
  by (simp add: ret_submit_message_def)

lemma stream_data:
  "\<not> ur_isochronous urb \<Longrightarrow>
   stream i [(urb, data_reply urb bytes)] = (if ep_number (ur_ep urb) = i then bytes else [])"
  by (simp add: stream_def on_endpoint_def data_reply_def)

lemma and_15_take_bit: "(x :: 'a::len word) AND 15 = take_bit 4 x"
  by (simp add: take_bit_eq_mask mask_eq_exp_minus_1)

lemma ep_index_ep_number [simp]: "ep_index (ucast ep) = ep_number ep" for ep :: u32
  by (simp add: and_15_take_bit unsigned_take_bit_eq unsigned_ucast_eq)

lemma served_endpoints:
  "endpoints (served now urb s) = (endpoints s)(1 := (endpoints s 1)(ep_number (ur_ep urb) :=
     (endpoints s 1 (ep_number (ur_ep urb)))\<lparr>next_poll_us := now + interval_us (endpoints s 1 (ep_number (ur_ep urb)))\<rparr>))"
  by (simp add: served_def set_endpoint_def Let_def)

lemma paced_data:
  assumes "\<not> now < due_us s urb" and "\<not> ur_isochronous urb" and "endpoints s2 = endpoints (served now urb s)"
  shows "paced now i [(urb, msg)] s s2"
  using assms by (auto simp: paced_def on_endpoint_def due_us_def served_endpoints)

lemma data_completed:
  assumes wf: "wf_srv I s" and i: "idx < num_pending_urbs s" and u: "urb = pend s ! idx"
    "\<not> now < due_us s urb" "\<not> ur_isochronous urb"
    and f: "usbip_device_fetch_ep_data (ucast (ur_ep urb)) (tx_buffer s) (unat (ur_transfer_buffer_length urb)) (dev s) =
      Done (len, tx, d)" "0 < len"
    and r: "remove_pending_urb idx (served now urb (s\<lparr>tx_buffer := tx, dev := d\<rparr>)) = Done s1"
    and t: "transmit_ret_submit (ur_seqnum urb) 0 len True s1 = Done (True, s2)"
  shows "completed I quiet now idx (data_reply urb (take len (unread (dev s) (ep_index (ucast (ur_ep urb)))))) s s2"
    and "len = min (unat (ur_transfer_buffer_length urb)) (length (unread (dev s) (ep_index (ucast (ur_ep urb)))))"
    and "unread (dev s2) = (unread (dev s))(ep_index (ucast (ur_ep urb)) :=
      (if ep_index (ucast (ur_ep urb)) = 0 then [] else drop len (unread (dev s) (ep_index (ucast (ur_ep urb))))))"
    and "endpoints s2 = endpoints (served now urb s)" and "wait_timeout_us s2 = wait_timeout_us s"
proof -
  let ?u = "unread (dev s) (ep_index (ucast (ur_ep urb)))"
  have d: "dev_inv I (dev s)" "wf_device (dev s)" and tx: "length (tx_buffer s) = 65536"
    using wf by (simp_all add: wf_srv_def dev_inv_def)
  have l: "length ?u \<le> 512" using length_unread_le [OF d(2) ep_index_less] .
  then have m: "min (unat (ur_transfer_buffer_length urb)) (length ?u) \<le> length (tx_buffer s)" using tx by linarith
  from usbip_device_fetch_ep_data_spec [OF d(2) m] f have
    len: "len = min (unat (ur_transfer_buffer_length urb)) (length ?u)" "take len tx = take len ?u"
    "length tx = 65536" "wf_device d" "app d = app (dev s)"
    "unread d = (unread (dev s))(ep_index (ucast (ur_ep urb)) :=
      (if ep_index (ucast (ur_ep urb)) = 0 then [] else drop len ?u))" using tx by auto
  let ?s = "served now urb (s\<lparr>tx_buffer := tx, dev := d\<rparr>)"
  have wfs: "wf_srv I ?s" using wf len d(1) tx by (auto simp: dev_inv_def intro!: wf_srv_dev wf_srv_tx)
  note s1 = remove_completed [OF wfs _ r, simplified, OF i]
  have b: "length (take len ?u) = len" "len \<le> 512" using len(1) l by auto
  have "wrote (ret_submit_message (ur_seqnum urb) 0 (of_nat len) 0 0xffffffff @ take len tx) True s1 s2"
    using transmit_ret_submit_wrote [of True len s1 "ur_seqnum urb" 0] t b s1(5) len(3) by (auto simp: returns_iff)
  then obtain n where n: "s2 = s1\<lparr>net := n\<rparr>"
    "sent n = sent (net s1) @ ret_submit_message (ur_seqnum urb) 0 (of_nat len) 0 0xffffffff @ take len tx"
    "input n = input (net s1)" unfolding wrote_def by blast
  then have out: "sent n = sent (net s) @ data_reply urb (take len ?u)"
    unfolding data_reply_def b(1) len(2) using s1(3) by simp
  have "take len ?u \<noteq> []" "len \<le> unat (ur_transfer_buffer_length urb)"
    using b(1) f(2) len(1) by (metis length_greater_0_conv, simp)
  then have "reply_to urb (data_reply urb (take len ?u))"
    unfolding reply_to_def if_not_P [OF u(3)] using b by (intro exI [of _ "take len ?u"]) simp
  moreover have e: "endpoints s2 = endpoints (served now urb s)"
    using n s1 by (simp add: served_def set_endpoint_def Let_def)
  note paced_data [OF u(2,3) e]
  moreover have "\<forall>i > 0. stream i [(urb, data_reply urb (take len ?u))] @ unread (dev s2) i = unread (dev s) i"
    unfolding stream_data [OF u(3)] using n(1) s1(4) len(6) by auto
  ultimately show "completed I quiet now idx (data_reply urb (take len ?u)) s s2"
    using n(1,3) out s1 u(1) by (simp add: completed_def)
  show "endpoints s2 = endpoints (served now urb s)" by (rule e)
  show "len = min (unat (ur_transfer_buffer_length urb)) (length ?u)" by (rule len)
  show "unread (dev s2) = (unread (dev s))(ep_index (ucast (ur_ep urb)) :=
      (if ep_index (ucast (ur_ep urb)) = 0 then [] else drop len ?u))"
    "wait_timeout_us s2 = wait_timeout_us s" using n s1 len(6) by simp_all
qed

lemma empty_fetch:
  assumes wf: "wf_srv I s"
    and f: "usbip_device_fetch_ep_data (ucast (ur_ep urb)) (tx_buffer s) (unat (ur_transfer_buffer_length urb)) (dev s) =
      Done (0, tx, d)"
  shows "wf_srv I (s\<lparr>tx_buffer := tx, dev := d\<rparr>)"
    and "\<forall>i > 0. unread d i = unread (dev s) i"
    and "ur_transfer_buffer_length urb = 0 \<or> unread (dev s) (ep_index (ucast (ur_ep urb))) = []"
proof -
  let ?u = "unread (dev s) (ep_index (ucast (ur_ep urb)))"
  have d: "dev_inv I (dev s)" "wf_device (dev s)" and tx: "length (tx_buffer s) = 65536"
    using wf by (simp_all add: wf_srv_def dev_inv_def)
  have "min (unat (ur_transfer_buffer_length urb)) (length ?u) \<le> length (tx_buffer s)"
    using length_unread_le [OF d(2) ep_index_less, of "ucast (ur_ep urb)"] tx by linarith
  from usbip_device_fetch_ep_data_spec [OF d(2) this] f have
    len: "min (unat (ur_transfer_buffer_length urb)) (length ?u) = 0"
    "length tx = 65536" "wf_device d" "app d = app (dev s)"
    "unread d = (unread (dev s))(ep_index (ucast (ur_ep urb)) :=
      (if ep_index (ucast (ur_ep urb)) = 0 then [] else ?u))" using tx by auto
  then show "wf_srv I (s\<lparr>tx_buffer := tx, dev := d\<rparr>)"
    using wf d(1) tx by (auto simp: dev_inv_def intro!: wf_srv_dev wf_srv_tx)
  show "\<forall>i > 0. unread d i = unread (dev s) i" using len(5) by auto
  show "ur_transfer_buffer_length urb = 0 \<or> ?u = []"
    using len(1) by (auto simp: min_def unsigned_eq_0_iff split: if_splits)
qed

lemma fetch_unread_Nil:
  assumes wf: "wf_srv I s"
    and f: "usbip_device_fetch_ep_data (ucast (ur_ep urb)) (tx_buffer s) m (dev s) = Done (len, tx, d)"
    and "unread (dev s) i = []"
  shows "unread d i = []"
proof -
  have d: "wf_device (dev s)" and tx: "length (tx_buffer s) = 65536" using wf by (simp_all add: wf_srv_def dev_inv_def)
  have "min m (length (unread (dev s) (ep_index (ucast (ur_ep urb))))) \<le> length (tx_buffer s)"
    using length_unread_le [OF d ep_index_less, of "ucast (ur_ep urb)"] tx by linarith
  from usbip_device_fetch_ep_data_spec [OF d this] f assms(3) show ?thesis by auto
qed

text \<open>The isochronous callback does not transmit on the other endpoints.\<close>

definition iso_quiet :: "'d usbip_device_t \<Rightarrow> bool" where
  "iso_quiet ud \<longleftrightarrow> (\<forall>ep m d len bytes d'.
     usbip_device_iso_in ud ep m d = Done (len, bytes, d') \<longrightarrow> unread d' = unread d)"

lemma iso_packets_loop_quiet:
  "iso_quiet ud \<Longrightarrow> iso_packets_loop ud urb packets t s = Done (ds, t', s') \<Longrightarrow> unread (dev s') = unread (dev s)"
proof (induction packets arbitrary: t s ds t')
  case (Cons p ps)
  then obtain k s1 ds1 where 1: "iso_packet_in ud urb p t s = Done (k, s1)"
    and 2: "iso_packets_loop ud urb ps (t + k) s1 = Done (ds1, t', s')"
    by (auto simp: res_simps)
  have "unread (dev s1) = unread (dev s)"
    using 1 Cons.prems(1) by (auto simp: iso_packet_in_def iso_quiet_def res_simps Let_def split: if_splits)
  then show ?case using Cons.IH [OF Cons.prems(1) 2] by simp
qed simp

lemma transmit_iso_quiet:
  assumes "iso_quiet ud" and "transmit_iso_ret_submit ud urb s = Done (st, s')"
  shows "unread (dev s') = unread (dev s)" "endpoints s' = endpoints s" "wait_timeout_us s' = wait_timeout_us s"
proof -
  obtain packets ds len s1 where
    1: "iso_packets_loop ud urb packets 0 s = Done (ds, len, s1)"
    and 2: "transmit_iso_reply urb ds len s1 = Done (st, s')"
    using assms(2) by (auto simp: transmit_iso_ret_submit_def res_simps)
  show "unread (dev s') = unread (dev s)"
    using iso_packets_loop_quiet [OF assms(1) 1] transmit_iso_reply_frame [OF 2] by auto
  show "endpoints s' = endpoints s" "wait_timeout_us s' = wait_timeout_us s"
    using transmit_iso_ret_submit_frame [OF assms(2)] by auto
qed

context device_program
begin

lemma iso_completed:
  assumes wf: "wf_srv I s" and i: "idx < num_pending_urbs s" and u: "urb = pend s ! idx" "ur_isochronous urb"
    and t: "transmit_iso_ret_submit ud urb s = Done (True, s1)" and r: "remove_pending_urb idx s1 = Done s2"
  shows "\<exists>msg. completed I (iso_quiet ud) now idx msg s s2"
proof -
  from transmit_iso_ret_submit_wrote [OF wf wf_srv_nth(2) [OF wf i]] u t
  obtain d tx msg n where w: "wf_srv I s1" "reply_to urb msg" "s1 = s\<lparr>dev := d, tx_buffer := tx, net := n\<rparr>"
    "sent n = sent (net s) @ msg" "input n = input (net s)"
    by (auto simp: wrote_def)
  then have j: "idx < num_pending_urbs s1" "pend s1 = pend s" using i by simp_all
  note s2 = remove_completed [OF w(1) j(1) r]
  have "endpoints s2 = endpoints s" using s2 w(3) by simp
  then have "paced now k [(urb, msg)] s s2" for k
    using u(2) by (simp add: paced_def on_endpoint_def)
  moreover have "stream k [(urb, msg)] = []" for k using u(2) by (simp add: stream_def on_endpoint_def)
  moreover have "iso_quiet ud \<longrightarrow> unread (dev s2) = unread (dev s)"
    using transmit_iso_quiet(1) [OF _ t] s2 by simp
  ultimately show ?thesis using s2 w j u by (auto simp: completed_def)
qed

lemma rounds_replies:
  "rounds ud now idx s r \<Longrightarrow> wf_srv I s \<Longrightarrow> idx \<le> num_pending_urbs s \<Longrightarrow> fst r \<Longrightarrow> answered I (iso_quiet ud) now idx s (snd r)"
proof (induction rule: rounds.induct)
  case (finish idx s)
  then have "drop idx (pend s) = []" by (simp add: wf_srv_def length_pend)
  then show ?case using finish by (auto simp: answered_def stream_def intro!: exI [of _ "[]"] paced_Nil)
next
  case (wait idx s urb r)
  then have "wf_srv I (shorten_wait (due_us s urb - now) s)"
    using step_post_shorter_wait [of False I s "due_us s urb - now"] by (auto simp: step_post_def word_gt_0)
  note a = wait.IH [OF this _ wait.prems(3)]
  show ?case by (rule answered_skip [OF wait.prems(1) wait.hyps(1) _ _ _ _ a]) (use wait.hyps(1) in simp_all)
next
  case (iso idx s urb s1 s2 r)
  obtain msg where c: "completed I (iso_quiet ud) now idx msg s s2"
    using iso_completed [OF iso.prems(1) iso.hyps(1,2,4,5,6)] by blast
  show ?case by (rule answered_completed [OF iso.prems(1) iso.hyps(1) c]) (use iso.IH iso.prems(3) in blast)
next
  case (empty idx s urb tx d r)
  note e = empty_fetch [OF empty.prems(1) empty.hyps(5)]
  have "\<forall>i > 0. unread d i = unread (dev s) i" using e(2) by blast
  note a = empty.IH [OF e(1) _ empty.prems(3)]
  show ?case
    by (rule answered_skip [OF empty.prems(1) empty.hyps(1) _ _ _ _ a])
      (use empty.hyps(1) \<open>\<forall>i > 0. unread d i = unread (dev s) i\<close> in simp_all)
next
  case (data idx s urb len tx d s1 s2 r)
  note c = data_completed(1) [OF data.prems(1) data.hyps(1,2,3,4,5,6,7,8)]
  show ?case by (rule answered_completed [OF data.prems(1) data.hyps(1) c]) (use data.IH data.prems(3) in blast)
qed simp_all

end

lemma complete_pending_urbs_rounds:
  assumes "complete_pending_urbs ud s = Done r"
  obtains now where "now = fst (now_us s)"
    "rounds ud now 0 (s\<lparr>ticks := ticks s + 1, wait_timeout_us := WAIT_TIMEOUT_US\<rparr>) r"
proof -
  have "complete_loop ud (fst (now_us s)) 0 (s\<lparr>ticks := ticks s + 1, wait_timeout_us := 500000\<rparr>) = Done r"
    using assms by (simp add: complete_pending_urbs_def now_us_def Let_def split: prod.splits)
  from that [OF refl complete_loop_rounds [OF this]] show thesis .
qed

lemma wf_srv_start: "wf_srv I s \<Longrightarrow> wf_srv I (s\<lparr>ticks := k, wait_timeout_us := 500000\<rparr>)"
  by (simp add: wf_srv_wait)

lemma complete_pending_urbs_answered:
  assumes "device_program ud I" and "wf_srv I s" and "complete_pending_urbs ud s = Done (True, s')"
  shows "answered I (iso_quiet ud) (fst (now_us s)) 0 s s'"
proof -
  let ?s = "s\<lparr>ticks := ticks s + 1, wait_timeout_us := 500000\<rparr>"
  from assms(3) obtain now where r: "now = fst (now_us s)" "rounds ud now 0 ?s (True, s')"
    by (rule complete_pending_urbs_rounds)
  have "answered I (iso_quiet ud) now 0 ?s s'"
    using device_program.rounds_replies [OF assms(1) r(2) wf_srv_start [OF assms(2)]] by simp
  then show ?thesis by (simp add: answered_def paced_def r(1))
qed

text \<open>
  C3. Completing transfers: every transfer that leaves the queue is answered by exactly one
  \<open>USBIP_RET_SUBMIT\<close> with its sequence number, the replies go out in the order in which the transfers
  were queued, back to back, and the transfers that stay keep their order. Each reply is well
  formed: it announces the length of the data that follows, which fits the host's transfer buffer.
\<close>

theorem complete_pending_urbs_replies:
  assumes "device_program ud I" and "wf_srv I s" and "complete_pending_urbs ud s = Done (True, s')"
  shows "\<exists>finished. pend s \<in> shuffles (map fst finished) (pend s') \<and>
     list_all (\<lambda>(urb, msg). reply_to urb msg) finished \<and>
     sent (net s') = sent (net s) @ concat (map snd finished) \<and> input (net s') = input (net s)"
  using complete_pending_urbs_answered [OF assms] unfolding answered_def by auto

section \<open>Data in order, and nothing due left behind\<close>

text \<open>
  What later rounds leave alone: an endpoint that may not be polled yet, an endpoint without data,
  and the wait is never made longer.
\<close>

definition later :: "u64 \<Rightarrow> 'd srv \<Rightarrow> 'd srv \<Rightarrow> bool" where
  "later now s s' \<longleftrightarrow>
     (\<forall>j. now < next_poll_us (endpoints s 1 j) \<longrightarrow> endpoints s' 1 j = endpoints s 1 j) \<and>
     (\<forall>i. unread (dev s) i = [] \<longrightarrow> unread (dev s') i = []) \<and> wait_timeout_us s' \<le> wait_timeout_us s"

lemma later_trans: "later now s1 s2 \<Longrightarrow> later now s2 s3 \<Longrightarrow> later now s1 s3"
  by (auto simp: later_def intro: order.trans)

lemma later_refl: "later now s s"
  by (simp add: later_def)

lemma later_shorten: "later now s (shorten_wait t s)"
  by (auto simp: later_def shorten_wait_def)

lemma later_data:
  assumes "\<not> now < due_us s urb" and "\<not> ur_isochronous urb"
    and "unread (dev s2) = (unread (dev s))(ep_number (ur_ep urb) :=
      (if ep_number (ur_ep urb) = 0 then [] else drop len (unread (dev s) (ep_number (ur_ep urb)))))"
    and "endpoints s2 = endpoints (served now urb s)" and "wait_timeout_us s2 = wait_timeout_us s"
  shows "later now s s2"
  using assms by (auto simp: later_def due_us_def served_endpoints)

context device_program
begin

lemma rounds_later:
  "rounds ud now idx s r \<Longrightarrow> iso_quiet ud \<Longrightarrow> wf_srv I s \<Longrightarrow> fst r \<Longrightarrow> later now s (snd r)"
proof (induction rule: rounds.induct)
  case (wait idx s urb r)
  then have "wf_srv I (shorten_wait (due_us s urb - now) s)"
    using step_post_shorter_wait [of False I s "due_us s urb - now"] by (auto simp: step_post_def word_gt_0)
  from wait.IH [OF wait.prems(1) this wait.prems(3)] show ?case by (rule later_trans [OF later_shorten])
next
  case (iso idx s urb s1 s2 r)
  obtain msg where c: "completed I (iso_quiet ud) now idx msg s s2"
    using iso_completed [OF iso.prems(2) iso.hyps(1,2,4,5,6)] by blast
  have "unread (dev s2) = unread (dev s)" "endpoints s2 = endpoints s" "wait_timeout_us s2 = wait_timeout_us s"
    using transmit_iso_quiet [OF iso.prems(1) iso.hyps(5)] remove_pending_urb_frame [OF iso.hyps(6)] by auto
  then have "later now s s2" by (simp add: later_def)
  moreover have "wf_srv I s2" using c by (simp add: completed_def)
  ultimately show ?case using iso.IH iso.prems later_trans by blast
next
  case (empty idx s urb tx d r)
  note e = empty_fetch [OF empty.prems(2) empty.hyps(5)]
  have "unread d i = []" if "unread (dev s) i = []" for i
    using fetch_unread_Nil [OF empty.prems(2) empty.hyps(5)] that by simp
  then have "later now s (s\<lparr>tx_buffer := tx, dev := d\<rparr>)" by (simp add: later_def)
  then show ?case using empty.IH empty.prems e(1) later_trans by blast
next
  case (data idx s urb len tx d s1 s2 r)
  note c = data_completed [OF data.prems(2) data.hyps(1-8)]
  have "later now s s2" by (rule later_data [OF data.hyps(3,4) c(3) [unfolded ep_index_ep_number] c(4,5)])
  moreover have "wf_srv I s2" using c(1) unfolding completed_def by blast
  ultimately show ?case using data.IH data.prems later_trans by blast
qed (simp_all add: later_refl)

end

text \<open>Why a transfer stays: it is not due and the wait ends when it is, or there is no data for it.\<close>

definition rightly_pending :: "u64 \<Rightarrow> 'd srv \<Rightarrow> pending_urb_t \<Rightarrow> bool" where
  "rightly_pending now s urb \<longleftrightarrow>
     (now < due_us s urb \<and> wait_timeout_us s \<le> due_us s urb - now) \<or>
     (\<not> ur_isochronous urb \<and> (unread (dev s) (ep_number (ur_ep urb)) = [] \<or> ur_transfer_buffer_length urb = 0))"

lemma rightly_pending_later:
  "rightly_pending now s urb \<Longrightarrow> later now s s' \<Longrightarrow> rightly_pending now s' urb"
  by (auto simp: rightly_pending_def later_def due_us_def intro: order.trans)

lemma rightly_pending_skip:
  assumes "take (i + 1) p' = take (i + 1) p" and "i < length p" and "list_all (rightly_pending now s') (drop (i + 1) p')"
    and "rightly_pending now s' (p ! i)"
  shows "list_all (rightly_pending now s') (drop i p')"
proof -
  have "i < length p'" "p' ! i = p ! i"
    using arg_cong [OF assms(1), of length] arg_cong [OF assms(1), of "\<lambda>xs. xs ! i"] assms(2) by auto
  then show ?thesis using assms(3,4) by (simp add: Cons_nth_drop_Suc [symmetric])
qed

context device_program
begin

lemma rounds_rightly_pending:
  "rounds ud now idx s r \<Longrightarrow> iso_quiet ud \<Longrightarrow> wf_srv I s \<Longrightarrow> idx \<le> num_pending_urbs s \<Longrightarrow> fst r \<Longrightarrow>
   list_all (rightly_pending now (snd r)) (drop idx (pend (snd r)))"
proof (induction rule: rounds.induct)
  case (finish idx s)
  then show ?case by (simp add: wf_srv_def length_pend)
next
  case (wait idx s urb r)
  let ?s = "shorten_wait (due_us s urb - now) s"
  have wf: "wf_srv I ?s"
    using wait.prems(2) wait.hyps(3) step_post_shorter_wait [of False I s "due_us s urb - now"]
    by (auto simp: step_post_def word_gt_0)
  have "rightly_pending now ?s urb"
    using wait.hyps(3) by (auto simp: rightly_pending_def shorten_wait_def due_us_def)
  then have "rightly_pending now (snd r) (pend s ! idx)"
    using rounds_later [OF wait.hyps(4) wait.prems(1) wf wait.prems(4)] wait.hyps(2) rightly_pending_later by blast
  moreover have "take (idx + 1) (pend (snd r)) = take (idx + 1) (pend s)"
    using rounds_replies [OF wait.hyps(4) wf _ wait.prems(4)] wait.hyps(1) by (simp add: answered_def)
  ultimately show ?case
    using rightly_pending_skip wait.IH [OF wait.prems(1) wf _ wait.prems(4)] wait.hyps(1) wait.prems(2)
    by (metis Suc_eq_plus1 Suc_leI length_pend shorten_wait_frame(1) wf_srv_def)
next
  case (iso idx s urb s1 s2 r)
  obtain msg where c: "completed I (iso_quiet ud) now idx msg s s2"
    using iso_completed [OF iso.prems(2) iso.hyps(1,2,4,5,6)] by blast
  then show ?case using iso.IH iso.prems completed_num [OF iso.prems(2) iso.hyps(1) c] by (simp add: completed_def)
next
  case (empty idx s urb tx d r)
  let ?s = "s\<lparr>tx_buffer := tx, dev := d\<rparr>"
  note e = empty_fetch [OF empty.prems(2) empty.hyps(5)]
  have "rightly_pending now ?s urb"
    using e(3) fetch_unread_Nil [OF empty.prems(2) empty.hyps(5)] empty.hyps(4) by (auto simp: rightly_pending_def)
  then have "rightly_pending now (snd r) (pend s ! idx)"
    using rounds_later [OF empty.hyps(6) empty.prems(1) e(1) empty.prems(4)] empty.hyps(2) rightly_pending_later by blast
  moreover have "take (idx + 1) (pend (snd r)) = take (idx + 1) (pend s)"
    using rounds_replies [OF empty.hyps(6) e(1) _ empty.prems(4)] empty.hyps(1) by (simp add: answered_def)
  moreover have "list_all (rightly_pending now (snd r)) (drop (idx + 1) (pend (snd r)))"
    using empty.IH [OF empty.prems(1) e(1) _ empty.prems(4)] empty.hyps(1) by simp
  ultimately show ?case
    using rightly_pending_skip empty.hyps(1) empty.prems(2) by (metis length_pend wf_srv_def)
next
  case (data idx s urb len tx d s1 s2 r)
  note c = data_completed(1) [OF data.prems(2) data.hyps(1-8), where quiet = True]
  then show ?case using data.IH data.prems completed_num [OF data.prems(2) data.hyps(1) c] by (simp add: completed_def)
qed simp_all

end

text \<open>
  C2. The data of an endpoint reaches the host as a stream: what the replies of one call carry for an
  endpoint, followed by what stays unread in the device, is what was unread before. No byte is lost,
  sent twice or sent out of order, however the host sizes its transfers.
\<close>

theorem complete_pending_urbs_stream:
  assumes "device_program ud I" and "iso_quiet ud" and "wf_srv I s" and "complete_pending_urbs ud s = Done (True, s')"
  shows "\<exists>finished. pend s \<in> shuffles (map fst finished) (pend s') \<and>
     sent (net s') = sent (net s) @ concat (map snd finished) \<and>
     (\<forall>i > 0. stream i finished @ unread (dev s') i = unread (dev s) i)"
  using complete_pending_urbs_answered [OF assms(1,3,4)] assms(2) unfolding answered_def by auto

text \<open>
  C12. Interrupt endpoints keep their interval: a transfer finishes only when its endpoint may be
  polled, the next poll is then one interval later, and in one call at most one transfer finishes on
  an endpoint with an interval. Endpoints on which nothing finishes keep their schedule.
\<close>

theorem complete_pending_urbs_paced:
  assumes "device_program ud I" and "wf_srv I s" and "complete_pending_urbs ud s = Done (True, s')"
  shows "\<exists>finished. pend s \<in> shuffles (map fst finished) (pend s') \<and>
     (\<forall>i. let now = fst (now_us s); e = endpoints s 1 i; k = length (filter (on_endpoint i) finished) in
        (k = 0 \<longrightarrow> endpoints s' 1 i = e) \<and>
        (k > 0 \<longrightarrow> next_poll_us e \<le> now \<and> endpoints s' 1 i = e\<lparr>next_poll_us := now + interval_us e\<rparr>) \<and>
        (now < now + interval_us e \<longrightarrow> k \<le> 1))"
proof -
  obtain fin where f: "pend s \<in> shuffles (map fst fin) (pend s')" "\<forall>i. paced (fst (now_us s)) i fin s s'"
    using complete_pending_urbs_answered [OF assms] unfolding answered_def by auto
  have "let now = fst (now_us s); e = endpoints s 1 i; k = length (filter (on_endpoint i) fin) in
        (k = 0 \<longrightarrow> endpoints s' 1 i = e) \<and>
        (k > 0 \<longrightarrow> next_poll_us e \<le> now \<and> endpoints s' 1 i = e\<lparr>next_poll_us := now + interval_us e\<rparr>) \<and>
        (now < now + interval_us e \<longrightarrow> k \<le> 1)" for i
    using f(2) [rule_format, of i] unfolding paced_def Let_def by (auto simp: not_less split: if_splits)
  then show ?thesis using f(1) by blast
qed

text \<open>
  C11. Nothing that could complete is left behind: after a call, a transfer is still pending only
  because it is not due, and then the server's wait ends when it is, or because its endpoint has no
  data for it.
\<close>

theorem complete_pending_urbs_nothing_due:
  assumes "device_program ud I" and "iso_quiet ud" and "wf_srv I s" and "complete_pending_urbs ud s = Done (True, s')"
    and "urb \<in> set (pend s')"
  shows "let now = fst (now_us s) in
     (now < due_us s' urb \<and> wait_timeout_us s' \<le> due_us s' urb - now) \<or>
     (\<not> ur_isochronous urb \<and> (unread (dev s') (ep_number (ur_ep urb)) = [] \<or> ur_transfer_buffer_length urb = 0))"
proof -
  let ?s = "s\<lparr>ticks := ticks s + 1, wait_timeout_us := 500000\<rparr>"
  from assms(4) obtain now where r: "now = fst (now_us s)" "rounds ud now 0 ?s (True, s')"
    by (rule complete_pending_urbs_rounds)
  have "list_all (rightly_pending now s') (pend s')"
    using device_program.rounds_rightly_pending [OF assms(1) r(2) assms(2) wf_srv_start [OF assms(3)]] by simp
  then show ?thesis using assms(5) r(1) by (simp add: list_all_iff rightly_pending_def)
qed

section \<open>Connections that take every write\<close>

text \<open>On a connection whose client takes everything, completing transfers succeeds.\<close>

definition takes_all :: "net \<Rightarrow> bool" where
  "takes_all n \<longleftrightarrow> \<not> stop_server n \<and> wr_script n = []"

lemma srv_write_open:
  "takes_all (net s) \<Longrightarrow> srv_write bytes s = (True, s\<lparr>net := (net s)\<lparr>sent := sent (net s) @ bytes\<rparr>\<rparr>)"
  by (cases "net s"; cases bytes) (simp_all add: srv_write_def tcpip_server_write_def takes_all_def)

lemma takes_all_sent [simp]: "takes_all (n\<lparr>sent := bytes\<rparr>) = takes_all n"
  by (simp add: takes_all_def)

lemma transmit_ret_submit_open:
  "transmit_ret_submit seqnum urb_status len send_data s = Done (st, s') \<Longrightarrow> takes_all (net s) \<Longrightarrow>
   st \<and> takes_all (net s')"
  by (auto simp: transmit_ret_submit_def Let_def srv_write_open res_simps split: if_splits)

lemma and_then_open:
  assumes "takes_all (net s)"
  obtains s2 where "and_then (srv_write as s) (srv_write bs) = (True, s2)" "takes_all (net s2)"
  using assms by (simp add: srv_write_open)

lemma transmit_iso_reply_open:
  assumes r: "transmit_iso_reply urb ds t s = Done (st, s')" and s: "takes_all (net s)"
  shows "st \<and> takes_all (net s')"
proof -
  obtain s2 where s2: "and_then (srv_write (usbip_header_basic_bytes
      \<lparr>hb_command = SWAP32 USBIP_RET_SUBMIT, hb_seqnum = SWAP32 (ur_seqnum urb), hb_devid = 0, hb_direction = 0, hb_ep = 0\<rparr>) s)
      (srv_write (usbip_ret_submit_bytes
        \<lparr>rs_status = SWAP32 0, rs_actual_length = SWAP32 (of_nat t), rs_start_frame = SWAP32 (ur_start_frame urb),
         rs_number_of_packets = SWAP32 (ur_number_of_packets urb), rs_error_count = SWAP32 0, rs_padding = 0\<rparr>)) = (True, s2)"
    and o2: "takes_all (net s2)"
    using and_then_open [OF s] .
  obtain s3 where s3: "(if True \<and> ur_direction urb \<noteq> 0 \<and> t > 0
      then bind_res (read_mem (tx_buffer s2) 0 t) (\<lambda>bytes. Done (srv_write bytes s2)) else Done (True, s2)) = Done (True, s3)"
    and o3: "takes_all (net s3)"
    using r o2 unfolding transmit_iso_reply_def Let_def s2 prod.case
    by (auto simp: srv_write_open res_simps split: if_splits)
  show ?thesis
    using r o3 unfolding transmit_iso_reply_def Let_def s2 prod.case s3
    by (auto simp: srv_write_open split: if_splits)
qed

lemma transmit_iso_ret_submit_open:
  "transmit_iso_ret_submit ud urb s = Done (st, s') \<Longrightarrow> takes_all (net s) \<Longrightarrow> st \<and> takes_all (net s')"
  by (auto simp: transmit_iso_ret_submit_def res_simps
      dest!: iso_packets_loop_frame transmit_iso_reply_open)

lemma remove_pending_urb_net: "remove_pending_urb idx s = Done s' \<Longrightarrow> net s' = net s"
  by (auto dest: remove_pending_urb_frame)

lemma served_removed_net:
  "remove_pending_urb idx (served now urb (s\<lparr>tx_buffer := tx, dev := d\<rparr>)) = Done s' \<Longrightarrow> net s' = net s"
  by (drule remove_pending_urb_net) simp

lemma rounds_open: "rounds ud now idx s r \<Longrightarrow> takes_all (net s) \<Longrightarrow> fst r"
proof (induction rule: rounds.induct)
  case (iso idx s urb s1 s2 r)
  then show ?case
    using transmit_iso_ret_submit_open [OF iso.hyps(5) iso.prems] remove_pending_urb_net [OF iso.hyps(6)] by simp
next
  case (iso_fail idx s urb s1 s2)
  then show ?case using transmit_iso_ret_submit_open [OF iso_fail.hyps(5) iso_fail.prems] by simp
next
  case (data idx s urb len tx d s1 s2 r)
  have "takes_all (net s1)" using served_removed_net [OF data.hyps(7)] data.prems by simp
  from transmit_ret_submit_open [OF data.hyps(8) this] show ?case using data.IH by simp
next
  case (data_fail idx s urb len tx d s1 s2)
  have "takes_all (net s1)" using served_removed_net [OF data_fail.hyps(7)] data_fail.prems by simp
  from transmit_ret_submit_open [OF data_fail.hyps(8) this] show ?case by simp
qed simp_all

lemma complete_pending_urbs_open:
  assumes "device_program ud I" and "wf_srv I s" and "takes_all (net s)"
  obtains s' where "complete_pending_urbs ud s = Done (True, s')"
proof -
  obtain st s' where r: "complete_pending_urbs ud s = Done (st, s')"
    using device_program.complete_pending_urbs_returns [OF assms(1), of False s] assms(2)
    by (auto simp: returns_iff step_post_def)
  have "net (snd (now_us s)) = net s" by (simp add: now_us_def case_prod_unfold Let_def)
  then have st using rounds_open [OF complete_loop_rounds] r assms(3)
    by (fastforce simp: complete_pending_urbs_def case_prod_unfold Let_def)
  with r show thesis using that by simp
qed

end
