(* ===== verification/Server.thy ===== *)
theory Server
  imports Import Completion
begin

text \<open>
  The server, \<open>src/lib/usbip_server.c\<close>: the worker thread, the signal handler, starting and stopping.
  The worker's loops are the program \<open>worker_step\<close>, one step per call into the lower layers; the
  relation \<open>server_step\<close> interleaves them with the Ctrl-C handler, with \<open>usbip_server_stop\<close> and with
  the application, which may change the device between two steps in any way that keeps the device's
  invariant.
\<close>

section \<open>Sessions are kept by the commands\<close>

text \<open>No command of an imported device changes \<open>device_imported\<close>; only the end of the connection does.\<close>

named_theorems imported_frames

lemma srv_read_imported [imported_frames]:
  "srv_read k s = Done (st, bs, s') \<Longrightarrow> device_imported s' = device_imported s"
  by (auto dest: srv_read_frame)

lemma srv_write_imported [imported_frames]: "srv_write bs s = (st, s') \<Longrightarrow> device_imported s' = device_imported s"
  by (auto dest: srv_write_frame)

lemma transmit_ret_submit_imported [imported_frames]:
  "transmit_ret_submit seqnum urb_status len send_data s = Done (st, s') \<Longrightarrow> device_imported s' = device_imported s"
  by (auto dest: transmit_ret_submit_frame)

lemma transmit_iso_ret_submit_imported [imported_frames]:
  "transmit_iso_ret_submit ud urb s = Done (st, s') \<Longrightarrow> device_imported s' = device_imported s"
  by (auto dest: transmit_iso_ret_submit_frame)

lemma remove_pending_urb_imported [imported_frames]:
  "remove_pending_urb idx s = Done s' \<Longrightarrow> device_imported s' = device_imported s"
  by (auto dest: remove_pending_urb_frame)

lemma set_endpoint_imported [simp]: "device_imported (set_endpoint i j e s) = device_imported s"
  by (simp add: set_endpoint_def)

lemma shorten_served_imported [simp]:
  "device_imported (shorten_wait t s) = device_imported s" "device_imported (served now urb s) = device_imported s"
  by (simp_all add: shorten_wait_def served_def Let_def)

lemma unlink_pending_urb_imported [imported_frames]:
  "unlink_pending_urb seqnum s = Done (st, s') \<Longrightarrow> device_imported s' = device_imported s"
  by (auto simp: unlink_pending_urb_def Let_def res_simps dest!: remove_pending_urb_imported
      split: option.splits if_splits)

lemma and_then_imported:
  "and_then (srv_write as s) (srv_write bs) = (st, s') \<Longrightarrow> device_imported s' = device_imported s"
  by (auto dest: and_then_frame)

lemma process_unlink_imported [imported_frames]:
  assumes "process_unlink seqnum s = Done (st, s')"
  shows "device_imported s' = device_imported s"
proof -
  obtain st1 bs s1 where r: "srv_read 28 s = Done (st1, bs, s1)"
    using assms unfolding process_unlink_def by (auto simp: bind_res_Done_iff)
  show ?thesis
  proof (cases st1)
    case False
    then show ?thesis using assms srv_read_imported [OF r] unfolding process_unlink_def r by simp
  next
    case True
    obtain u s2 where u: "unlink_pending_urb (SWAP32 (cu_unlink_seqnum (usbip_cmd_unlink_of bs))) s1 = Done (u, s2)"
      using assms True unfolding process_unlink_def r by (auto simp: bind_res_Done_iff Let_def)
    have "device_imported s' = device_imported s2"
      using assms True unfolding process_unlink_def r bind_res.simps prod.case Let_def u
      by (auto dest: and_then_imported simp del: and_then.simps)
    then show ?thesis using unlink_pending_urb_imported [OF u] srv_read_imported [OF r] by simp
  qed
qed

lemma receive_iso_packets_imported [imported_frames]:
  "receive_iso_packets ud ep ps s = Done s' \<Longrightarrow> device_imported s' = device_imported s"
proof (induction ps arbitrary: s)
  case (Cons p ps)
  then obtain s1 where "receive_iso_packets ud ep ps s1 = Done s'" "device_imported s1 = device_imported s"
    by (auto simp: res_simps split: if_splits)
  with Cons.IH show ?case by simp
qed simp

lemma queue_iso_urb_imported [imported_frames]:
  "queue_iso_urb ud s = Done (st, s') \<Longrightarrow> device_imported s' = device_imported s"
  unfolding queue_iso_urb_def now_us_def Let_def case_prod_unfold
  by (auto simp: res_simps dest!: transmit_iso_ret_submit_imported split: if_splits)

lemma submit_iso_urb_imported [imported_frames]:
  "submit_iso_urb ud inside urb s = Done (st, s') \<Longrightarrow> device_imported s' = device_imported s"
  unfolding submit_iso_urb_def Let_def
  by (auto simp: res_simps dest!: queue_iso_urb_imported receive_iso_packets_imported split: if_splits)

lemma process_iso_submit_imported [imported_frames]:
  "process_iso_submit ud seqnum ep direction cmd s = Done (st, s') \<Longrightarrow> device_imported s' = device_imported s"
  unfolding process_iso_submit_def Let_def
  by (auto simp: res_simps dest!: submit_iso_urb_imported srv_read_imported split: if_splits)

lemma process_control_imported [imported_frames]:
  assumes "process_control ud seqnum direction usb_setup len s = Done (st, s')"
  shows "device_imported s' = device_imported s"
proof -
  obtain sup d where "bind_res
       (if direction = 1 then
          bind_res (usbip_device_fetch_control_reply (tx_buffer s) len d)
            (\<lambda>(answered, tx_length, tx, d).
               Done (if len > 0 \<and> \<not> answered then False else sup, tx_length, s\<lparr>dev := d, tx_buffer := tx\<rparr>))
        else Done (sup, 0, s\<lparr>dev := d\<rparr>))
       (\<lambda>(supported, tx_length, s).
          if \<not> supported then transmit_ret_submit seqnum EP_STALL 0 False s
          else if direction = 0 then transmit_ret_submit seqnum 0 len False s
          else transmit_ret_submit seqnum 0 tx_length True s) = Done (st, s')"
    using assms unfolding process_control_def by (rule bind_res_DoneE) (auto simp only: split: prod.splits)
  then obtain sup2 tx s1 where
    1: "(if direction = 1 then
          bind_res (usbip_device_fetch_control_reply (tx_buffer s) len d)
            (\<lambda>(answered, tx_length, tx, d).
               Done (if len > 0 \<and> \<not> answered then False else sup, tx_length, s\<lparr>dev := d, tx_buffer := tx\<rparr>))
        else Done (sup, 0, s\<lparr>dev := d\<rparr>)) = Done (sup2, tx, s1)"
    and 2: "(if \<not> sup2 then transmit_ret_submit seqnum EP_STALL 0 False s1
          else if direction = 0 then transmit_ret_submit seqnum 0 len False s1
          else transmit_ret_submit seqnum 0 tx True s1) = Done (st, s')"
    by (rule bind_res_DoneE) (auto simp only: split: prod.splits)
  have "device_imported s1 = device_imported s"
    using 1 by (cases "direction = 1") (auto simp: bind_res_Done_iff)
  moreover have "device_imported s' = device_imported s1"
    using 2 transmit_ret_submit_imported by (metis (no_types))
  ultimately show ?thesis by simp
qed

lemma process_data_imported [imported_frames]:
  "process_data ud seqnum ep direction len s = Done (st, s') \<Longrightarrow> device_imported s' = device_imported s"
  unfolding process_data_def queue_urb_def
  by (auto simp: res_simps dest!: transmit_ret_submit_imported split: if_splits)

lemma process_submit_imported [imported_frames]:
  assumes "process_submit ud seqnum ep direction s = Done (st, s')"
  shows "device_imported s' = device_imported s"
proof -
  obtain st1 bs s1 where r: "srv_read 28 s = Done (st1, bs, s1)"
    using assms unfolding process_submit_def by (auto simp: bind_res_Done_iff)
  let ?cmd = "usbip_cmd_submit_of bs"
  let ?len = "SWAP32 (cs_transfer_buffer_length ?cmd)"
  show ?thesis
  proof (cases "\<not> st1 \<or> unat ?len > USBIP_MAX_PACKET_SIZE")
    case True
    then show ?thesis using assms srv_read_imported [OF r] unfolding process_submit_def r by (simp add: Let_def)
  next
    case False
    note c = assms [unfolded process_submit_def r bind_res.simps prod.case Let_def if_not_P [OF False]]
    obtain st2 s2 where
      1: "(if direction = 0 then
            bind_res (srv_read (unat ?len) s1) (\<lambda>(status, data, s).
            bind_res (write_mem (rx_buffer s) 0 data) (\<lambda>rx. Done (status, s\<lparr>rx_buffer := rx\<rparr>)))
          else Done (True, s1)) = Done (st2, s2)"
      and 2: "(if \<not> st2 then Done (False, s2)
            else if ep \<noteq> 0 \<and>
                ep_type (endpoints s2 (dir_index direction) (ep_number ep)) = USB_ENDPOINT_XFER_ISOC
            then process_iso_submit ud seqnum ep direction ?cmd s2
            else if ep = 0
            then process_control ud seqnum direction (cs_setup ?cmd) (unat ?len) s2
            else process_data ud seqnum ep direction ?len s2) = Done (st, s')"
      using c by (rule bind_res_DoneE) (auto simp only: split: prod.splits)
    have "device_imported s2 = device_imported s1"
      using 1 by (cases "direction = 0") (auto simp: bind_res_Done_iff dest!: srv_read_imported)
    moreover have "device_imported s' = device_imported s2"
      using 2 process_iso_submit_imported process_control_imported process_data_imported
      by (metis (no_types) prod.inject res.inject)
    ultimately show ?thesis using srv_read_imported [OF r] by simp
  qed
qed

lemma process_imported_cmd_imported [imported_frames]:
  assumes "process_imported_cmd ud s = Done (st, s')"
  shows "device_imported s' = device_imported s"
proof -
  obtain st1 bs s1 where r: "srv_read 20 s = Done (st1, bs, s1)"
    using assms unfolding process_imported_cmd_def by (auto simp: bind_res_Done_iff)
  have "device_imported s' = device_imported s1"
    using assms unfolding process_imported_cmd_def r bind_res.simps prod.case Let_def
    by (metis (no_types) prod.inject res.inject process_submit_imported process_unlink_imported)
  then show ?thesis using srv_read_imported [OF r] by simp
qed

lemma rounds_imported: "rounds ud now idx s r \<Longrightarrow> device_imported (snd r) = device_imported s"
proof (induction rule: rounds.induct)
  case (iso idx s urb s1 s2 r)
  then show ?case by (metis remove_pending_urb_imported transmit_iso_ret_submit_imported)
next
  case (iso_fail idx s urb s1 s2)
  then show ?case by (metis remove_pending_urb_imported transmit_iso_ret_submit_imported snd_conv)
next
  case (data idx s urb len tx d s1 s2 r)
  have "device_imported s1 = device_imported s" using remove_pending_urb_imported [OF data.hyps(7)] by simp
  then show ?case using transmit_ret_submit_imported [OF data.hyps(8)] data.IH by simp
next
  case (data_fail idx s urb len tx d s1 s2)
  have "device_imported s1 = device_imported s" using remove_pending_urb_imported [OF data_fail.hyps(7)] by simp
  then show ?case using transmit_ret_submit_imported [OF data_fail.hyps(8)] by simp
qed simp_all

lemma complete_pending_urbs_imported [imported_frames]:
  "complete_pending_urbs ud s = Done (st, s') \<Longrightarrow> device_imported s' = device_imported s"
  unfolding complete_pending_urbs_def case_prod_unfold Let_def
  by (drule complete_loop_rounds, drule rounds_imported) (simp add: now_us_def case_prod_unfold Let_def)

lemma process_imported_device_imported:
  assumes "usbip_protocol_process_imported_device ud s = Done (False, s')"
  shows "device_imported s' = device_imported s"
proof -
  obtain data n where w: "tcpip_server_wait_for_data (net s) = (data, n)" by fastforce
  note u = assms [unfolded usbip_protocol_process_imported_device_def w Let_def prod.case]
  obtain st1 s1 where 1: "(if data then process_imported_cmd ud (s\<lparr>net := n\<rparr>) else Done (True, s\<lparr>net := n\<rparr>)) = Done (st1, s1)"
    and 2: "bind_res (if st1 then complete_pending_urbs ud (s1\<lparr>dev := usbip_device_clear_event (dev s1)\<rparr>)
        else Done (False, s1\<lparr>dev := usbip_device_clear_event (dev s1)\<rparr>)) (\<lambda>(status, s).
        if status then Done (False, s)
        else bind_res (usbip_device_reset ud (dev s))
          (\<lambda>d. Done (True, s\<lparr>device_imported := False, num_pending_urbs := 0, dev := d\<rparr>))) = Done (False, s')"
    using u by (cases "if data then process_imported_cmd ud (s\<lparr>net := n\<rparr>) else Done (True, s\<lparr>net := n\<rparr>)") auto
  have "device_imported s1 = device_imported s"
    using 1 process_imported_cmd_imported [of ud "s\<lparr>net := n\<rparr>"] by (cases data) auto
  moreover have "st1 \<and> complete_pending_urbs ud (s1\<lparr>dev := usbip_device_clear_event (dev s1)\<rparr>) = Done (True, s')"
    using 2 by (cases st1) (auto simp: bind_res_Done_iff split: if_splits)
  ultimately show ?thesis using complete_pending_urbs_imported by fastforce
qed

section \<open>The server\<close>

datatype worker = Accepting | Serving | Finished

record 'd server =
  keep_running :: int
  panic_counter :: int
  exited :: bool  \<comment> \<open>\<open>_exit\<close> was called\<close>
  worker :: worker
  proto :: "'d srv"

definition init_server :: "'d srv \<Rightarrow> 'd server" where
  "init_server p = \<lparr>keep_running = 3, panic_counter = 0, exited = False, worker = Accepting, proto = p\<rparr>"

abbreviation (input) on_net :: "(net \<Rightarrow> net) \<Rightarrow> 'd srv \<Rightarrow> 'd srv" where
  "on_net f p \<equiv> p\<lparr>net := f (net p)\<rparr>"

definition int_handler :: "'d server \<Rightarrow> 'd server" where
  "int_handler s =
     (if keep_running s > 0 then
        (let s = s\<lparr>keep_running := keep_running s - 1\<rparr>
         in if keep_running s = 0 then s\<lparr>proto := on_net tcpip_server_stop (proto s)\<rparr> else s)
      else
        (let s = s\<lparr>panic_counter := panic_counter s + 1\<rparr>
         in if panic_counter s = 5 then s\<lparr>exited := True\<rparr> else s))"

text \<open>One step of the worker thread: from one test of \<open>keep_running\<close> to the next.\<close>

definition worker_step :: "'d usbip_device_t \<Rightarrow> 'd server \<Rightarrow> 'd server res" where
  "worker_step usbip_device s =
     (case worker s of
        Accepting \<Rightarrow>
          if keep_running s > 0 then
            (case tcpip_server_wait_for_client (net (proto s)) of (status, n) \<Rightarrow>
               Done (s\<lparr>proto := (proto s)\<lparr>net := n\<rparr>, worker := (if status then Serving else Accepting)\<rparr>))
          else
            Done (s\<lparr>proto := on_net tcpip_server_close
                        ((proto s)\<lparr>dev := usbip_device_stop (dev (proto s))\<rparr>),
                    worker := Finished\<rparr>)
      | Serving \<Rightarrow>
          if keep_running s > 0 then
            bind_res
              (if device_imported (proto s)
               then usbip_protocol_process_imported_device usbip_device (proto s)
               else usbip_protocol_process_cmd usbip_device (proto s))
              (\<lambda>(disconnect, p).
                 Done (if disconnect
                       then s\<lparr>proto := on_net tcpip_server_close_client p, worker := Accepting\<rparr>
                       else s\<lparr>proto := p\<rparr>))
          else Done (s\<lparr>proto := on_net tcpip_server_close_client (proto s), worker := Accepting\<rparr>)
      | Finished \<Rightarrow> Done s)"

text \<open>
  \<open>usbip_server_start\<close>: \<open>event_fd\<close> is what \<open>eventfd\<close> returns, \<open>err\<close> what \<open>pthread_create\<close> returns. The
  worker exists only if the result is true.
\<close>

definition usbip_server_start :: "int \<Rightarrow> open_results \<Rightarrow> int \<Rightarrow> 'd srv \<Rightarrow> bool \<times> 'd srv" where
  "usbip_server_start event_fd r err p =
     (let status = (event_fd \<ge> 0);
          (status, p) = (if status
                         then (case tcpip_server_open r (net p) of (st, n) \<Rightarrow> (st, p\<lparr>net := n\<rparr>))
                         else (False, p))
      in (if status then err = 0 else False, p))"

text \<open>What \<open>usbip_server_stop\<close> does before it waits for the worker to end.\<close>

definition usbip_server_stop :: "'d server \<Rightarrow> 'd server" where
  "usbip_server_stop s = s\<lparr>keep_running := 0, proto := on_net tcpip_server_stop (proto s)\<rparr>"

definition usbip_server_interrupted :: "'d server \<Rightarrow> bool" where
  "usbip_server_interrupted s \<longleftrightarrow> keep_running s = 0"

text \<open>
  The threads of the program: the worker, Ctrl-C, the call of \<open>usbip_server_stop\<close>, and the application's
  calls, which change the device. Nothing restarts a stopped device.
\<close>

inductive server_step :: "'d usbip_device_t \<Rightarrow> ('d \<Rightarrow> bool) \<Rightarrow> 'd server \<Rightarrow> 'd server \<Rightarrow> bool"
  for ud :: "'d usbip_device_t" and I :: "'d \<Rightarrow> bool" where
  work: "\<not> exited s \<Longrightarrow> worker_step ud s = Done s' \<Longrightarrow> server_step ud I s s'"
| interrupt: "\<not> exited s \<Longrightarrow> server_step ud I s (int_handler s)"
| stop: "\<not> exited s \<Longrightarrow> server_step ud I s (usbip_server_stop s)"
| application: "\<not> exited s \<Longrightarrow> dev_inv I d \<Longrightarrow> (device_stopped (dev (proto s)) \<longrightarrow> device_stopped d) \<Longrightarrow>
    server_step ud I s (s\<lparr>proto := (proto s)\<lparr>dev := d\<rparr>\<rparr>)"

inductive server_reachable :: "'d usbip_device_t \<Rightarrow> ('d \<Rightarrow> bool) \<Rightarrow> 'd server \<Rightarrow> 'd server \<Rightarrow> bool"
  for ud :: "'d usbip_device_t" and I :: "'d \<Rightarrow> bool" and s0 :: "'d server" where
  start: "server_reachable ud I s0 s0"
| step: "server_reachable ud I s0 s \<Longrightarrow> server_step ud I s s' \<Longrightarrow> server_reachable ud I s0 s'"

section \<open>Invariant\<close>

definition server_inv :: "('d \<Rightarrow> bool) \<Rightarrow> 'd server \<Rightarrow> bool" where
  "server_inv I s \<longleftrightarrow> wf_srv I (proto s) \<and> 0 \<le> keep_running s \<and> keep_running s \<le> 3 \<and>
     (keep_running s = 0 \<longrightarrow> stop_server (net (proto s))) \<and>
     (keep_running s > 0 \<and> (worker s = Accepting \<or> \<not> device_imported (proto s)) \<longrightarrow>
        \<not> device_imported (proto s) \<and> pend (proto s) = []) \<and>
     (worker s = Finished \<longrightarrow> keep_running s = 0 \<and> device_stopped (dev (proto s)) \<and> server_socket (net (proto s)) < 0)"

lemma wait_for_client_frame:
  "tcpip_server_wait_for_client n = (st, n') \<Longrightarrow> stop_server n' = stop_server n"
  by (auto simp: tcpip_server_wait_for_client_def Let_def split: list.splits if_splits)

lemma pend_net_dev [simp]: "pend (p\<lparr>net := n\<rparr>) = pend p" "pend (p\<lparr>dev := d\<rparr>) = pend p"
  by (simp_all add: pend_def)

lemma wf_srv_dev_stop:
  "wf_srv I p \<Longrightarrow> wf_srv I (p\<lparr>dev := usbip_device_stop (dev p)\<rparr>)"
  by (auto simp: wf_srv_def dev_inv_def usbip_device_stop_def wf_queue_def pend_def)
    (simp add: clear_endpoint_data_def)

lemma wrote_frame: "wrote bytes st s s' \<Longrightarrow> \<exists>n. s' = s\<lparr>net := n\<rparr>"
  unfolding wrote_def by blast

lemma load_endpoints_frame: "load_endpoints config s = Done s' \<Longrightarrow> \<exists>eps. s' = s\<lparr>endpoints := eps\<rparr>"
  by (auto simp: load_endpoints_def bind_res_Done_iff)

lemma bind_srv_read_DoneE:
  assumes "bind_res (srv_read k s) f = Done y"
  obtains st bs n where "srv_read k s = Done (st, bs, s\<lparr>net := n\<rparr>)"
proof -
  obtain st bs s1 where "srv_read k s = Done (st, bs, s1)" using assms by (cases "srv_read k s") auto
  moreover from srv_read_frame [OF this] obtain n where "s1 = s\<lparr>net := n\<rparr>" by blast
  ultimately show thesis using that by simp
qed

context served_device
begin

lemma process_import_end:
  assumes "process_import ud s = Done (st, s')" and "\<not> device_imported s" and "pend s = []"
  shows "pend s' = [] \<and> (\<not> st \<longrightarrow> \<not> device_imported s')"
proof -
  obtain st1 bs n where r: "srv_read 32 s = Done (st1, bs, s\<lparr>net := n\<rparr>)"
    using assms(1) unfolding process_import_def by (rule bind_srv_read_DoneE)
  let ?s = "s\<lparr>net := n, num_pending_urbs := 0, wait_timeout_us := WAIT_TIMEOUT_US\<rparr>"
  have "pend s' = [] \<and> st" if read: st1
  proof -
    obtain s2 d im s3 where 1: "load_endpoints (config_desc ud) ?s = Done s2"
      and 2: "transmit_import_response ud (s2\<lparr>dev := d\<rparr>) = Done (im, s3)"
      and 3: "st" "s' = s3\<lparr>device_imported := im\<rparr>"
      using assms(1) read unfolding process_import_def r by (auto simp: Let_def bind_res_Done_iff)
    obtain n3 where "s3 = (s2\<lparr>dev := d\<rparr>)\<lparr>net := n3\<rparr>"
      using transmit_import_response_wrote [of ud "s2\<lparr>dev := d\<rparr>"] descriptors_len 2 wrote_frame by fastforce
    moreover obtain eps where "s2 = ?s\<lparr>endpoints := eps\<rparr>" using load_endpoints_frame [OF 1] by blast
    ultimately show ?thesis using 3 by (simp add: pend_def)
  qed
  moreover have "s' = s\<lparr>net := n\<rparr>" if "\<not> st1"
    using assms(1) that unfolding process_import_def r by simp
  ultimately show ?thesis using assms(2,3) by (cases st1) auto
qed

lemma process_cmd_end:
  assumes "usbip_protocol_process_cmd ud s = Done (disconnect, s')" and "\<not> device_imported s" and "pend s = []"
  shows "pend s' = [] \<and> (disconnect \<longleftrightarrow> \<not> device_imported s')"
proof -
  obtain st1 bs n where r: "srv_read 8 s = Done (st1, bs, s\<lparr>net := n\<rparr>)"
    using assms(1) unfolding usbip_protocol_process_cmd_def by (rule bind_srv_read_DoneE)
  let ?h = "op_req_head_of bs" and ?s = "s\<lparr>net := n\<rparr>"
  obtain st where
    i: "(if \<not> st1 \<or> SWAP16 (rq_version ?h) \<noteq> USBIP_PROTOCOL_VERSION then Done (False, ?s)
             else if SWAP16 (rq_command_code ?h) = OP_REQ_DEVLIST then transmit_devlist_response ud ?s
             else if SWAP16 (rq_command_code ?h) = OP_REQ_IMPORT then process_import ud ?s
             else Done (False, ?s)) = Done (st, s')"
    and d: "disconnect = (\<not> (st \<and> device_imported s'))"
    using assms(1) unfolding usbip_protocol_process_cmd_def r bind_res.simps prod.case Let_def
    by (rule bind_res_DoneE) auto
  have dl: "\<exists>m. s' = s\<lparr>net := m\<rparr>" if "transmit_devlist_response ud ?s = Done (st, s')"
    using transmit_devlist_response_wrote [of ud ?s] descriptors_len interfaces that wrote_frame by fastforce
  have "pend s' = [] \<and> (\<not> st \<longrightarrow> \<not> device_imported s')"
    using i dl process_import_end [of ?s st s'] assms(2,3) by (auto split: if_splits)
  then show ?thesis using d by auto
qed

lemma worker_step_inv:
  assumes "server_inv I s" and "worker_step ud s = Done s'"
  shows "server_inv I s'"
proof -
  have wf: "wf_srv I (proto s)" using assms(1) by (simp add: server_inv_def)
  show ?thesis
  proof (cases "worker s")
    case Accepting
    then show ?thesis
      using assms wf wait_for_client_frame [of "net (proto s)"] wf_srv_dev_stop [OF wf]
      by (auto simp: worker_step_def server_inv_def tcpip_server_close_def usbip_device_stop_def
          clear_endpoint_data_def split: prod.splits if_splits)
  next
    case Serving
    show ?thesis
    proof (cases "keep_running s > 0")
      case False
      then show ?thesis using Serving assms by (auto simp: worker_step_def server_inv_def tcpip_server_close_client_def)
    next
      case True
      obtain disconnect p where p: "(if device_imported (proto s)
          then usbip_protocol_process_imported_device ud (proto s)
          else usbip_protocol_process_cmd ud (proto s)) = Done (disconnect, p)"
        and s': "s' = (if disconnect then s\<lparr>proto := on_net tcpip_server_close_client p, worker := Accepting\<rparr>
            else s\<lparr>proto := p\<rparr>)"
        using assms(2) Serving True unfolding worker_step_def by (auto elim!: bind_res_DoneE)
      have "wf_srv I p \<and> (disconnect \<or> \<not> device_imported p \<longrightarrow> \<not> device_imported p \<and> pend p = [])"
      proof (cases "device_imported (proto s)")
        case imp: True
        then have p: "usbip_protocol_process_imported_device ud (proto s) = Done (disconnect, p)" using p by simp
        show ?thesis
          using process_imported_device_runs [OF wf, of False] process_imported_device_imported [of ud "proto s" p] p imp
          by (cases disconnect) (auto simp: runs_def)
      next
        case False
        then have p: "usbip_protocol_process_cmd ud (proto s) = Done (disconnect, p)" using p by simp
        have "pend (proto s) = []" using assms(1) True False by (simp add: server_inv_def)
        from process_cmd_end [OF p False this] process_cmd_runs [OF wf, of False] p show ?thesis
          by (auto simp: runs_def)
      qed
      then show ?thesis using assms(1) True Serving s' by (auto simp: server_inv_def)
    qed
  next
    case Finished
    then show ?thesis using assms by (auto simp: worker_step_def)
  qed
qed

lemma worker_step_runs:
  assumes "server_inv I s"
  shows "runs (live (net (proto s))) (\<lambda>s'. True) (worker_step ud s)"
proof -
  have wf: "wf_srv I (proto s)" using assms by (simp add: server_inv_def)
  note i = process_imported_device_runs [OF wf, of "live (net (proto s))"]
    and c = process_cmd_runs [OF wf, of "live (net (proto s))"]
  show ?thesis
    by (cases "worker s")
      (auto simp: worker_step_def split: prod.split intro!: runs_bindI [OF i] runs_bindI [OF c])
qed

lemma server_step_inv: "server_step ud I s s' \<Longrightarrow> server_inv I s \<Longrightarrow> server_inv I s'"
proof (induction rule: server_step.induct)
  case (work s s')
  show ?case by (rule worker_step_inv [OF work.prems work.hyps(2)])
next
  case (interrupt s)
  then show ?case by (auto simp: int_handler_def Let_def server_inv_def tcpip_server_stop_def)
next
  case (stop s)
  then show ?case by (auto simp: usbip_server_stop_def server_inv_def tcpip_server_stop_def)
next
  case (application s d)
  then show ?case by (auto simp: server_inv_def intro: wf_srv_dev)
qed

lemma server_reachable_inv: "server_reachable ud I s0 s \<Longrightarrow> server_inv I s0 \<Longrightarrow> server_inv I s"
  by (induction rule: server_reachable.induct) (auto dest: server_step_inv)

end

lemma server_inv_init: "wf_srv I p \<Longrightarrow> \<not> device_imported p \<Longrightarrow> pend p = [] \<Longrightarrow> server_inv I (init_server p)"
  by (simp add: server_inv_def init_server_def)

text \<open>An interrupted worker ends, whatever it was doing.\<close>

lemma interrupted_worker_ends:
  assumes "server_inv I s" and "usbip_server_interrupted s"
  shows "\<exists>s1 s2. worker_step ud s = Done s1 \<and> worker_step ud s1 = Done s2 \<and> worker s2 = Finished \<and>
     device_stopped (dev (proto s2)) \<and> server_socket (net (proto s2)) < 0"
  using assms
  by (cases "worker s")
    (auto simp: worker_step_def usbip_server_interrupted_def server_inv_def usbip_device_stop_def
      clear_endpoint_data_def tcpip_server_close_def tcpip_server_close_client_def)

section \<open>Properties\<close>


text \<open>
  Ctrl-C: the server is interrupted, and reads and waits are told to give up, from the third
  Ctrl-C on, and the eighth ends the process.
\<close>

theorem ctrl_c:
  "let s = (int_handler ^^ n) (init_server p) in
     (usbip_server_interrupted s \<longleftrightarrow> 3 \<le> n) \<and> (exited s \<longleftrightarrow> 8 \<le> n) \<and>
     stop_server (net (proto s)) = (stop_server (net p) \<or> 3 \<le> n)"
proof -
  have "(int_handler ^^ n) (init_server p) =
      \<lparr>keep_running = max 0 (3 - int n), panic_counter = max 0 (int n - 3), exited = (8 \<le> n), worker = Accepting,
       proto = (if 3 \<le> n then on_net tcpip_server_stop p else p)\<rparr>"
  proof (induction n)
    case 0
    then show ?case by (simp add: init_server_def)
  next
    case (Suc n)
    consider "n < 2" | "n = 2" | "3 \<le> n" by linarith
    then show ?case unfolding funpow.simps comp_apply Suc.IH by cases (auto simp: int_handler_def Let_def)
  qed
  then show ?thesis by (simp add: Let_def usbip_server_interrupted_def tcpip_server_stop_def)
qed

text \<open>
  Shutdown: once the server is interrupted or stopped, the worker ends within two steps, whatever
  it was doing. The device is then stopped, so calls of \<open>usbip_device_transmit\<close> no longer wait, and
  the listening socket is closed.
\<close>

theorem server_shuts_down:
  assumes "served_device ud I" and "wf_srv I p" and "\<not> device_imported p" and "pend p = []"
    and "server_reachable ud I (init_server p) s" and "usbip_server_interrupted s"
  shows "\<exists>s1 s2. worker_step ud s = Done s1 \<and> worker_step ud s1 = Done s2 \<and> worker s2 = Finished \<and>
     device_stopped (dev (proto s2)) \<and> server_socket (net (proto s2)) < 0"
proof -
  have "server_inv I s"
    by (rule served_device.server_reachable_inv [OF assms(1,5)]) (rule server_inv_init [OF assms(2-4)])
  then show ?thesis by (rule interrupted_worker_ends [OF _ assms(6)])
qed

text \<open>
  C39. \<open>usbip_server_start\<close> reports success exactly if every step succeeded; when opening the listening
  socket failed no socket stays open.
\<close>

theorem usbip_server_start_result:
  "case usbip_server_start event_fd r err p of (status, p') \<Rightarrow>
     (status \<longleftrightarrow> event_fd \<ge> 0 \<and> or_socket r \<ge> 0 \<and> or_inet_pton r = 1 \<and> or_bind r \<ge> 0 \<and> or_listen r \<ge> 0 \<and> err = 0) \<and>
     (if event_fd \<ge> 0 \<and> \<not> (or_inet_pton r = 1 \<and> or_bind r \<ge> 0 \<and> or_listen r \<ge> 0)
      then server_socket (net p') < 0
      else if event_fd \<ge> 0 then server_socket (net p') = or_socket r else p' = p)"
  by (auto simp: usbip_server_start_def tcpip_server_open_def tcpip_server_close_def Let_def)

end
