(* ===== verification/Examples.thy ===== *)
theory Examples
  imports Import
begin

text \<open>
  What the example devices share: the macros of \<open>include/descriptor_utils.h\<close>, the decimal numbers of
  \<open>printf\<close>, and two interfaces that several devices implement. \<open>input_collector\<close> is an endpoint whose
  transfers are collected in a buffer until the main loop takes them (the bulk and the serial
  device), \<open>report_device\<close> a HID device that hands out its report descriptor (mouse and keyboard).
\<close>

section \<open>Descriptors\<close>

definition LOBYTE :: "u16 \<Rightarrow> u8" where
  "LOBYTE x = ucast (x AND 0xff)"

definition HIBYTE :: "u16 \<Rightarrow> u8" where
  "HIBYTE x = ucast (drop_bit 8 x AND 0xff)"

abbreviation (input) USB_DEVICE_DESCRIPTOR_LENGTH :: u8 where "USB_DEVICE_DESCRIPTOR_LENGTH \<equiv> 18"
abbreviation (input) USB_BCD_DEVICE_REL :: u16 where "USB_BCD_DEVICE_REL \<equiv> 0x0200"
abbreviation (input) USB_BCD_VERSION :: u16 where "USB_BCD_VERSION \<equiv> 0x0200"

text \<open>The two bytes of a field read back as the field, as \<open>le16\<close> does in the library.\<close>

lemma le16_LOBYTE_HIBYTE: "le16 (LOBYTE x) (HIBYTE x) = x"
proof -
  have "LOBYTE x = ucast x" "HIBYTE x = ucast (drop_bit 8 x)"
    unfolding LOBYTE_def HIBYTE_def
    by (rule bit_word_eqI; auto simp: bit_simps bit_iff_odd_drop_bit [of "255 :: u16"] less_Suc_eq eval_nat_numeral)+
  then show ?thesis by simp
qed

section \<open>Decimal numbers\<close>

fun decimal_nat :: "nat \<Rightarrow> string" where
  "decimal_nat n = (if n < 10 then [char_of (48 + n)] else decimal_nat (n div 10) @ [char_of (48 + n mod 10)])"

declare decimal_nat.simps [simp del]

text \<open>\<open>%d\<close> of \<open>printf\<close>.\<close>

definition decimal :: "int \<Rightarrow> string" where
  "decimal k = (if k < 0 then ''-'' @ decimal_nat (nat (- k)) else decimal_nat (nat k))"

definition read_decimal :: "string \<Rightarrow> nat" where
  "read_decimal ds = foldl (\<lambda>n c. 10 * n + (of_char c - 48)) 0 ds"

lemma read_decimal_nat [simp]: "read_decimal (decimal_nat n) = n"
proof (induction n rule: decimal_nat.induct)
  case (1 n)
  have "n mod 10 < 10" by simp
  then have "of_char (char_of (48 + n mod 10) :: char) - 48 = n mod 10" by simp
  then show ?case
    using 1 by (subst decimal_nat.simps) (simp add: read_decimal_def)
qed

lemma length_decimal_nat: "n < 10 ^ k \<Longrightarrow> 0 < k \<Longrightarrow> length (decimal_nat n) \<le> k"
proof (induction n arbitrary: k rule: decimal_nat.induct)
  case (1 n)
  then show ?case
  proof (cases "n < 10")
    case False
    then have "k \<noteq> 1" using 1 by auto
    with \<open>0 < k\<close> obtain j where "k = Suc j" "0 < j" by (cases k) auto
    with 1 False have "length (decimal_nat (n div 10)) \<le> j" by (auto simp: less_mult_imp_div_less)
    then show ?thesis using False \<open>k = Suc j\<close> by (subst decimal_nat.simps) simp
  qed (subst decimal_nat.simps, simp)
qed

section \<open>Endpoints that collect input\<close>

text \<open>
  \<open>store\<close> is the endpoint callback, \<open>collected\<close> the bytes waiting for the main loop, \<open>cap\<close> the size of
  the buffer. A transfer that fits is appended, one that does not is dropped as a whole.
\<close>

locale input_collector =
  fixes store :: "u8 \<Rightarrow> u8 list \<Rightarrow> nat \<Rightarrow> 'd device \<Rightarrow> 'd device res"
    and collected :: "'d \<Rightarrow> u8 list" and I :: "'d \<Rightarrow> bool" and cap :: nat
  assumes bounded: "I a \<Longrightarrow> length (collected a) \<le> cap"
    and store: "I (app d) \<Longrightarrow> n \<le> length data \<Longrightarrow>
      \<exists>a. store ep data n d = Done (d\<lparr>app := a\<rparr>) \<and> I a \<and>
        collected a = (if length (collected (app d)) + n \<le> cap then collected (app d) @ take n data
                       else collected (app d))"

text \<open>The transfers that a buffer of \<open>cap\<close> bytes with \<open>k\<close> bytes in it takes.\<close>

fun accepted :: "nat \<Rightarrow> nat \<Rightarrow> u8 list list \<Rightarrow> u8 list list" where
  "accepted cap k [] = []"
| "accepted cap k (t # ts) =
     (if k + length t \<le> cap then t # accepted cap (k + length t) ts else accepted cap k ts)"

fun receive_transfers ::
  "(u8 \<Rightarrow> u8 list \<Rightarrow> nat \<Rightarrow> 'd device \<Rightarrow> 'd device res) \<Rightarrow> u8 \<Rightarrow> u8 list list \<Rightarrow> 'd device \<Rightarrow> 'd device res" where
  "receive_transfers store ep [] d = Done d"
| "receive_transfers store ep (t # ts) d =
     bind_res (store ep t (length t) d) (receive_transfers store ep ts)"

lemma accepted_fits: "k + length (concat ts) \<le> cap \<Longrightarrow> accepted cap k ts = ts"
  by (induction cap k ts rule: accepted.induct) auto

lemma accepted_bound: "k \<le> cap \<Longrightarrow> k + length (concat (accepted cap k ts)) \<le> cap"
  by (induction cap k ts rule: accepted.induct) auto

context input_collector
begin

lemma store_returns:
  assumes "dev_inv I d" and "n \<le> length data"
  shows "returns (dev_inv I) (store ep data n d)"
  using store [of d n data ep] assms by (auto simp: dev_inv_def)

lemma receive_transfers_collected:
  "I (app d) \<Longrightarrow>
   \<exists>a. receive_transfers store ep ts d = Done (d\<lparr>app := a\<rparr>) \<and> I a \<and>
     collected a = collected (app d) @ concat (accepted cap (length (collected (app d))) ts)"
proof (induction ts arbitrary: d)
  case Nil
  then show ?case by (intro exI [of _ "app d"]) simp
next
  case (Cons t ts)
  obtain a where a: "store ep t (length t) d = Done (d\<lparr>app := a\<rparr>)" "I a"
    "collected a = (if length (collected (app d)) + length t \<le> cap then collected (app d) @ t else collected (app d))"
    using store [OF Cons.prems, of "length t" t ep] by auto
  have "I (app (d\<lparr>app := a\<rparr>))" using a(2) by simp
  from Cons.IH [OF this] a show ?case by (auto split: if_splits)
qed

end

section \<open>HID devices\<close>

lemma dev_inv_True: "dev_inv (\<lambda>_. True) = wf_device"
  by (simp add: fun_eq_iff dev_inv_def)

text \<open>
  The bits of an input report, as a host computes them from the report descriptor: every Input item
  adds the current report size times the current report count (HID 1.11, section 6.2.2). \<open>width\<close> and
  \<open>count\<close> are the values set so far; items have at most one byte of data.
\<close>

fun hid_input_bits :: "nat \<Rightarrow> nat \<Rightarrow> u8 list \<Rightarrow> nat" where
  "hid_input_bits width count [] = 0"
| "hid_input_bits width count [b] = 0"
| "hid_input_bits width count (b # v # bs) =
     (if b = 0x75 then hid_input_bits (unat v) count bs
      else if b = 0x95 then hid_input_bits width (unat v) bs
      else if b = 0x81 then width * count + hid_input_bits width count bs
      else if b AND 3 = 0 then hid_input_bits width count (v # bs)
      else hid_input_bits width count bs)"

text \<open>
  The class request of a HID driver for the report descriptor is answered with as much of it as the
  host asked for; other requests leave the endpoints alone.
\<close>

locale report_device =
  fixes callback :: "u8 list \<Rightarrow> u8 list \<Rightarrow> nat \<Rightarrow> 'd device \<Rightarrow> 'd device res" and report :: "u8 list"
  assumes report: "length setup = 8 \<Longrightarrow> setup ! 0 = 0x81 \<Longrightarrow> setup ! 1 = 6 \<Longrightarrow> setup ! 3 = 0x22 \<Longrightarrow>
      callback setup data n d =
        bind_res (usbip_device_transmit 0 report (min (unat (le16 (setup ! 6) (setup ! 7))) (length report)) d)
          (\<lambda>(stored, d). Done d)"
    and other: "length setup = 8 \<Longrightarrow> \<not> (setup ! 0 = 0x81 \<and> setup ! 1 = 6 \<and> setup ! 3 = 0x22) \<Longrightarrow>
      \<exists>a. callback setup data n d = Done (d\<lparr>app := a\<rparr>)"
begin

lemma callback_returns:
  assumes "wf_device d" and "length setup = 8"
  shows "returns wf_device (callback setup data n d)"
proof (cases "setup ! 0 = 0x81 \<and> setup ! 1 = 6 \<and> setup ! 3 = 0x22")
  case True
  have "returns (\<lambda>(stored, d'). wf_device d')
      (usbip_device_transmit 0 report (min (unat (le16 (setup ! 6) (setup ! 7))) (length report)) d)"
    by (rule usbip_device_transmit_returns [OF assms(1)]) simp
  then have "returns wf_device (bind_res (usbip_device_transmit 0 report
      (min (unat (le16 (setup ! 6) (setup ! 7))) (length report)) d) (\<lambda>(stored, d). Done d))"
    by (rule returns_bindI) auto
  then show ?thesis using True by (simp add: report [OF assms(2)])
next
  case False
  then show ?thesis using other [OF assms(2) False, of data n d] assms(1) by auto
qed

lemma get_report:
  assumes "wf_device d" and "\<not> device_stopped d" and "length setup = 8"
    and "setup ! 0 = 0x81" and "setup ! 1 = 6" and "setup ! 3 = 0x22" and "length report \<le> 512"
    and "control_data_callback ud = callback" and "512 \<le> length tx"
  shows "\<exists>d1 d2 len tx'. usbip_device_control ud setup data n d = Done (True, d1) \<and>
     usbip_device_fetch_control_reply tx (unat (le16 (setup ! 6) (setup ! 7))) d1 = Done (True, len, tx', d2) \<and>
     take len tx' = take (unat (le16 (setup ! 6) (setup ! 7))) report"
proof -
  let ?w = "unat (le16 (setup ! 6) (setup ! 7))" and ?d = "control_start d"
  note s = control_start_simps [OF assms(1)]
  have "drop_bit 5 (0x81 :: u8) AND 3 = 0" "(0x81 :: u8) AND 0x1f = 1" by code_simp+
  then have c: "usbip_device_control ud setup data n d =
      bind_res (usbip_device_transmit 0 report (min ?w (length report)) ?d) (\<lambda>(stored, d). Done (True, d))"
    using assms by (simp add: usbip_device_control_alt Let_def control_callback_def report bind_res_assoc case_prod_unfold)
  have l: "cut_length (min ?w (length report)) = min ?w (length report)" using assms(7) by simp
  have t: "take (min ?w (length report)) report = take ?w report" by (simp add: min_def)
  obtain d1 where d1: "usbip_device_transmit 0 report (min ?w (length report)) ?d = Done (True, d1)" "wf_device d1"
      "unread d1 0 = take ?w report" "control_answered d1"
    using usbip_device_transmit_spec [OF s(1), of "min ?w (length report)" report 0] assms(2) s
    unfolding l t by (auto simp: returns_iff)
  have "min ?w (length (unread d1 0)) \<le> length tx"
    using length_unread_le [OF d1(2), of 0] assms(9) by simp
  from fetch_control_reply_spec [OF d1(2) this] c d1 t show ?thesis
    by (auto simp: returns_iff min.commute [of "length report"])
qed

end

end
