(* ===== verification/Usb_Bulk.thy ===== *)
theory Usb_Bulk
  imports Examples Completion
begin

text \<open>
  The bulk example, \<open>src/usb_bulk\<close>: its descriptors, callbacks and main loop. The record \<open>bulk\<close> holds
  the static variables of the program. The main loop takes the collected input in a critical section
  (\<open>bulk_take_input\<close>) and then transmits the answer \<open>bulk_answer\<close> on endpoint 1.
\<close>

section \<open>Descriptors\<close>

definition bulk_strings :: "(u8 \<times> string option) list" where
  "bulk_strings =
     [(1, Some ''Virtual UsbIP''), (2, Some ''Virtual Bulk Device''), (4, Some ''ABC123''), (0, None)]"

abbreviation (input) BULK_VID :: u16 where "BULK_VID \<equiv> 0xfa00"
abbreviation (input) BULK_PID :: u16 where "BULK_PID \<equiv> 0xc001"

definition bulk_device_descriptor :: "u8 list" where
  "bulk_device_descriptor =
     [USB_DEVICE_DESCRIPTOR_LENGTH, USB_DESCRIPTOR_TYPE_DEVICE,
      LOBYTE USB_BCD_VERSION, HIBYTE USB_BCD_VERSION, 0x00, 0x00, 0x00, 64,
      LOBYTE BULK_VID, HIBYTE BULK_VID, LOBYTE BULK_PID, HIBYTE BULK_PID,
      LOBYTE USB_BCD_DEVICE_REL, HIBYTE USB_BCD_DEVICE_REL, 1, 2, 4, 1]"

abbreviation (input) USB_BULK_CONFIG_DESC_LENGTH :: u16 where "USB_BULK_CONFIG_DESC_LENGTH \<equiv> 32"
abbreviation (input) BULK_DATA_PACKET_SZE :: u16 where "BULK_DATA_PACKET_SZE \<equiv> 512"

definition bulk_config_descriptor :: "u8 list" where
  "bulk_config_descriptor =
     [0x09, USB_DESCRIPTOR_TYPE_CONFIGURATION,
      LOBYTE USB_BULK_CONFIG_DESC_LENGTH, HIBYTE USB_BULK_CONFIG_DESC_LENGTH,
      0x01, 0x01, 0x00, 0xC0, 0x32,
      \<comment> \<open>vendor specific interface\<close>
      0x09, USB_DESCRIPTOR_TYPE_INTERFACE, 0x00, 0x00, 0x02, 0xFF, 0x00, 0x00, 0x00,
      \<comment> \<open>endpoint OUT\<close>
      0x07, USB_DESCRIPTOR_TYPE_ENDPOINT, 0x01, 0x02,
      LOBYTE BULK_DATA_PACKET_SZE, HIBYTE BULK_DATA_PACKET_SZE, 0x00,
      \<comment> \<open>endpoint IN\<close>
      0x07, USB_DESCRIPTOR_TYPE_ENDPOINT, 0x81, 0x02,
      LOBYTE BULK_DATA_PACKET_SZE, HIBYTE BULK_DATA_PACKET_SZE, 0x00]"

definition bulk_langid_desc :: "u8 list" where
  "bulk_langid_desc = [4, USB_DESCRIPTOR_TYPE_STRING, LOBYTE 0x409, HIBYTE 0x409]"

section \<open>The program\<close>

abbreviation (input) BULK_INPUT_BUFFER_LENGTH :: nat where "BULK_INPUT_BUFFER_LENGTH \<equiv> 512"

record bulk =
  bk_input_buffer :: "u8 list"
  bk_input_buffer_pos :: nat
  bk_msg_counter :: int

definition init_bulk :: bulk where
  "init_bulk =
     \<lparr>bk_input_buffer = replicate BULK_INPUT_BUFFER_LENGTH 0, bk_input_buffer_pos = 0, bk_msg_counter = 0\<rparr>"

definition bulk_control_data :: "u8 list \<Rightarrow> u8 list \<Rightarrow> nat \<Rightarrow> bulk device \<Rightarrow> bulk device res" where
  "bulk_control_data setup data data_length d = Done d"

definition bulk_endpoint_data :: "u8 \<Rightarrow> u8 list \<Rightarrow> nat \<Rightarrow> bulk device \<Rightarrow> bulk device res" where
  "bulk_endpoint_data ep data data_length d =
     (let a = app d in
      if bk_input_buffer_pos a + data_length \<le> BULK_INPUT_BUFFER_LENGTH then
        bind_res (read_mem data 0 data_length) (\<lambda>bytes.
        bind_res (write_mem (bk_input_buffer a) (bk_input_buffer_pos a) bytes) (\<lambda>buffer.
          Done (d\<lparr>app := a\<lparr>bk_input_buffer := buffer,
                            bk_input_buffer_pos := bk_input_buffer_pos a + data_length\<rparr>\<rparr>)))
      else Done d)"

definition bulk_device :: "bulk usbip_device_t" where
  "bulk_device =
     \<lparr>device_desc = bulk_device_descriptor, config_desc = bulk_config_descriptor,
      langid_desc = bulk_langid_desc, usb_strings = Some bulk_strings,
      control_data_callback = bulk_control_data, ep_data_callback = Some bulk_endpoint_data,
      reset_callback = None, iso_in_callback = None\<rparr>"

text \<open>
  The critical section of the main loop: the bytes it prints, whether a reply is due, and the new
  state. Incrementing the \<open>int\<close> counter beyond its maximum is undefined.
\<close>

definition bulk_take_input :: "bulk \<Rightarrow> (u8 list \<times> bool \<times> bulk) res" where
  "bulk_take_input a =
     (if bk_input_buffer_pos a > 0 then
        bind_res (read_mem (bk_input_buffer a) 0 (bk_input_buffer_pos a)) (\<lambda>printed.
          if bk_msg_counter a < 2147483647
          then Done (printed, True, a\<lparr>bk_input_buffer_pos := 0, bk_msg_counter := bk_msg_counter a + 1\<rparr>)
          else Fault)
      else Done ([], False, a))"

text \<open>The \<open>strlen\<close> bytes of \<open>str_buffer\<close> that are transmitted; \<open>snprintf\<close> writes at most 511 characters.\<close>

definition bulk_answer :: "int \<Rightarrow> u8 list" where
  "bulk_answer msg_counter = map of_char (take 511 (''Message Counter: '' @ decimal msg_counter))"

section \<open>The contract of the library\<close>

definition bulk_inv :: "bulk \<Rightarrow> bool" where
  "bulk_inv a \<longleftrightarrow> length (bk_input_buffer a) = BULK_INPUT_BUFFER_LENGTH \<and>
     bk_input_buffer_pos a \<le> BULK_INPUT_BUFFER_LENGTH"

definition bulk_collected :: "bulk \<Rightarrow> u8 list" where
  "bulk_collected a = take (bk_input_buffer_pos a) (bk_input_buffer a)"

lemma bulk_inv_init: "bulk_inv init_bulk" "bulk_collected init_bulk = []"
  by (simp_all add: bulk_inv_def init_bulk_def bulk_collected_def)

interpretation bulk_input: input_collector bulk_endpoint_data bulk_collected bulk_inv 512
proof
  fix a
  show "bulk_inv a \<Longrightarrow> length (bulk_collected a) \<le> 512" by (simp add: bulk_inv_def bulk_collected_def)
next
  fix d :: "bulk device" and n and data :: "u8 list" and ep
  assume *: "bulk_inv (app d)" "n \<le> length data"
  let ?a = "app d" and ?p = "bk_input_buffer_pos (app d)"
  let ?b = "overwrite (bk_input_buffer ?a) ?p (take n data)"
  have l: "length (bulk_collected ?a) = ?p" using * by (simp add: bulk_collected_def bulk_inv_def)
  show "\<exists>a. bulk_endpoint_data ep data n d = Done (d\<lparr>app := a\<rparr>) \<and> bulk_inv a \<and>
      bulk_collected a = (if length (bulk_collected ?a) + n \<le> 512 then bulk_collected ?a @ take n data
        else bulk_collected ?a)"
  proof (cases "?p + n \<le> 512")
    case True
    then have "take (?p + n) ?b = take ?p (bk_input_buffer ?a) @ take n data"
      using take_overwrite_append [of ?p "take n data" "bk_input_buffer ?a"] * by (simp add: bulk_inv_def)
    then show ?thesis
      using True * unfolding l
      by (intro exI [of _ "?a\<lparr>bk_input_buffer := ?b, bk_input_buffer_pos := ?p + n\<rparr>"])
        (simp add: bulk_endpoint_data_def Let_def bulk_inv_def bulk_collected_def)
  next
    case False
    then show ?thesis
      using * unfolding l by (intro exI [of _ ?a]) (simp add: bulk_endpoint_data_def Let_def)
  qed
qed

lemma bulk_descriptors: "wf_descriptors bulk_device" "wf_config (config_desc bulk_device)"
  by code_simp+

interpretation bulk: served_device bulk_device bulk_inv
proof
  show "wf_descriptors bulk_device" "wf_config (config_desc bulk_device)" by (fact bulk_descriptors)+
next
  fix d :: "bulk device" and n data callback ep
  assume "dev_inv bulk_inv d" "n \<le> length (data :: u8 list)" "ep_data_callback bulk_device = Some callback"
  then show "returns (dev_inv bulk_inv) (callback ep data n d)"
    using bulk_input.store_returns by (auto simp: bulk_device_def)
qed (simp_all add: bulk_device_def bulk_control_data_def)

section \<open>What the device does\<close>

lemma bulk_endpoint_data_counter:
  "bulk_endpoint_data ep data n d = Done d' \<Longrightarrow> bk_msg_counter (app d') = bk_msg_counter (app d)"
  by (auto simp: bulk_endpoint_data_def Let_def res_simps split: if_splits)

lemma receive_transfers_counter:
  "receive_transfers bulk_endpoint_data ep ts d = Done d' \<Longrightarrow> bk_msg_counter (app d') = bk_msg_counter (app d)"
  by (induction ts arbitrary: d) (auto simp: res_simps dest: bulk_endpoint_data_counter)

lemma receive_bulk: "usbip_device_receive bulk_device = bulk_endpoint_data"
  by (simp add: fun_eq_iff usbip_device_receive_def bulk_device_def)

text \<open>
  C37. The bulk example between two rounds of its main loop: the transfers of the host that fit the
  512 byte buffer are collected in order, one that does not fit is dropped as a whole and the later
  ones are not affected. The main loop prints exactly those bytes, empties the buffer, counts one
  message, and answers with a text that fits one transfer and carries the count.
\<close>

theorem bulk_round:
  assumes "bulk_inv (app d)" and "bulk_collected (app d) = []" and "concat (accepted 512 0 ts) \<noteq> []"
    and "0 \<le> bk_msg_counter (app d)" and "bk_msg_counter (app d) < 2147483647"
  shows "\<exists>a a'. receive_transfers (usbip_device_receive bulk_device) ep ts d = Done (d\<lparr>app := a\<rparr>) \<and>
     bulk_take_input a = Done (concat (accepted 512 0 ts), True, a') \<and>
     bulk_inv a' \<and> bulk_collected a' = [] \<and> bk_msg_counter a' = bk_msg_counter (app d) + 1 \<and>
     length (bulk_answer (bk_msg_counter a')) \<le> 27 \<and>
     bulk_answer (bk_msg_counter a') =
       map of_char (''Message Counter: '' @ decimal_nat (nat (bk_msg_counter (app d)) + 1))"
proof -
  obtain a where a: "receive_transfers bulk_endpoint_data ep ts d = Done (d\<lparr>app := a\<rparr>)" "bulk_inv a"
    "bulk_collected a = concat (accepted 512 0 ts)"
    using bulk_input.receive_transfers_collected [OF assms(1), of ep ts] assms(2) by auto
  let ?a = "a\<lparr>bk_input_buffer_pos := 0, bk_msg_counter := bk_msg_counter a + 1\<rparr>"
  have c: "bk_msg_counter a = bk_msg_counter (app d)" using receive_transfers_counter [OF a(1)] by simp
  have p: "0 < bk_input_buffer_pos a" using a(3) assms(3) by (cases "bk_input_buffer_pos a") (auto simp: bulk_collected_def)
  have t: "bulk_take_input a = Done (concat (accepted 512 0 ts), True, ?a)"
    using p a(2,3) assms(5) c by (simp add: bulk_take_input_def bulk_inv_def bulk_collected_def)
  have l: "length (decimal_nat (nat (bk_msg_counter (app d)) + 1)) \<le> 10"
    by (rule length_decimal_nat) (use assms(4,5) in auto)
  have d: "decimal (bk_msg_counter (app d) + 1) = decimal_nat (nat (bk_msg_counter (app d)) + 1)"
    using assms(4) by (simp add: decimal_def nat_add_distrib)
  show ?thesis
    unfolding receive_bulk using a t c d l
    by (intro exI [of _ a] exI [of _ ?a]) (simp add: bulk_inv_def bulk_collected_def bulk_answer_def)
qed

theorem bulk_round_witness:
  "\<exists>a a'. receive_transfers (usbip_device_receive bulk_device) 1 [[72, 105], replicate 511 0, [33]] (init_device init_bulk) =
       Done ((init_device init_bulk)\<lparr>app := a\<rparr>) \<and>
     bulk_take_input a = Done ([72, 105, 33], True, a') \<and> bk_msg_counter a' = 1"
  using bulk_round [of "init_device init_bulk" "[[72, 105], replicate 511 0, [33]]" 1] bulk_inv_init
  by (simp add: init_bulk_def) blast

section \<open>A session\<close>

text \<open>An imported bulk device with one transfer pending, on a given connection.\<close>

definition bulk_session :: "pending_urb_t \<Rightarrow> net \<Rightarrow> bulk srv" where
  "bulk_session urb n =
     (init_srv n ((init_device init_bulk)\<lparr>endpoint_data := (endpoint_data (init_device init_bulk))[1 :=
        \<lparr>ep_data = [79, 75, 33] @ replicate 509 0, ep_data_length = 3\<rparr>]\<rparr>) (\<lambda>_. (0, 0)))
     \<lparr>device_imported := True, pending_urbs := replicate 32 urb, num_pending_urbs := 1\<rparr>"

definition bulk_in_urb :: pending_urb_t where
  "bulk_in_urb = zero_urb\<lparr>ur_seqnum := 7, ur_ep := 1, ur_direction := 1, ur_transfer_buffer_length := 64\<rparr>"

definition bulk_iso_urb :: pending_urb_t where
  "bulk_iso_urb = zero_urb\<lparr>ur_seqnum := 8, ur_ep := 2, ur_direction := 1, ur_isochronous := True, ur_complete_us := 1000\<rparr>"

lemma bulk_session_simps:
  "net (bulk_session urb n) = n" "pend (bulk_session urb n) = [urb]" "num_pending_urbs (bulk_session urb n) = 1"
  "pending_urbs (bulk_session urb n) = replicate 32 urb" "fst (now_us (bulk_session urb n)) = 0"
  by (simp_all add: bulk_session_def init_srv_def pend_def now_us_def)

lemma bulk_session_device:
  "dev_inv bulk_inv (dev (bulk_session urb n))" "unread (dev (bulk_session urb n)) 1 = [79, 75, 33]"
  "\<not> device_stopped (dev (bulk_session urb n))"
proof -
  let ?e = "\<lparr>ep_data = [79, 75, 33] @ replicate 509 0, ep_data_length = 3\<rparr> :: device_endpoint_data_t"
  let ?d = "(init_device init_bulk)\<lparr>endpoint_data := (endpoint_data (init_device init_bulk))[1 := ?e]\<rparr>"
  have d: "dev (bulk_session urb n) = ?d" by (simp add: bulk_session_def init_srv_def)
  have "wf_device ?d" by (rule wf_device_update) (simp_all add: wf_endpoint_def)
  then show "dev_inv bulk_inv (dev (bulk_session urb n))" unfolding d by (simp add: dev_inv_def bulk_inv_init)
  show "unread (dev (bulk_session urb n)) 1 = [79, 75, 33]"
    unfolding d using unread_update [of "init_device init_bulk" 1 ?e] by simp
  show "\<not> device_stopped (dev (bulk_session urb n))" unfolding d by simp
qed

lemma wf_bulk_session:
  assumes "wf_transfer urb"
  shows "wf_srv bulk_inv (bulk_session urb n)"
  using assms bulk_session_device(1) [of urb n]
  by (auto simp: wf_srv_def wf_queue_def bulk_session_def init_srv_def pend_def zero_urb_def wf_transfer_def list_all_length)

lemma bulk_urbs: "wf_transfer bulk_in_urb" "wf_transfer bulk_iso_urb"
  by (simp_all add: wf_transfer_def bulk_in_urb_def bulk_iso_urb_def zero_urb_def)

lemma bulk_iso_quiet: "iso_quiet bulk_device"
  by (auto simp: iso_quiet_def usbip_device_iso_in_def bulk_device_def)

text \<open>The properties of the library, applied to this session.\<close>

theorem imported_device_safe_witness:
  "returns (\<lambda>(disconnect, s'). wf_srv bulk_inv s' \<and> (disconnect \<longrightarrow> \<not> device_imported s' \<and> pend s' = []))
    (usbip_protocol_process_imported_device bulk_device (bulk_session bulk_in_urb (connected [1, 2, 3])))"
  using imported_device_safe [OF bulk.device_program_axioms wf_bulk_session [OF bulk_urbs(1)], of "connected [1, 2, 3]"]
  by (cases "usbip_protocol_process_imported_device bulk_device (bulk_session bulk_in_urb (connected [1, 2, 3]))")
    (auto simp: runs_def bulk_session_simps)

lemma bulk_session_completes:
  obtains s' where "complete_pending_urbs bulk_device (bulk_session bulk_in_urb (connected [])) = Done (True, s')"
  using complete_pending_urbs_open [OF bulk.device_program_axioms wf_bulk_session [OF bulk_urbs(1)], of "connected []"]
  by (auto simp: bulk_session_simps takes_all_def connected_def)

theorem complete_pending_urbs_replies_witness:
  "\<exists>s' finished. complete_pending_urbs bulk_device (bulk_session bulk_in_urb (connected [])) = Done (True, s') \<and>
     [bulk_in_urb] \<in> shuffles (map fst finished) (pend s') \<and>
     list_all (\<lambda>(urb, msg). reply_to urb msg) finished \<and> sent (net s') = concat (map snd finished)"
proof -
  obtain s' where r: "complete_pending_urbs bulk_device (bulk_session bulk_in_urb (connected [])) = Done (True, s')"
    by (rule bulk_session_completes)
  from complete_pending_urbs_replies [OF bulk.device_program_axioms wf_bulk_session [OF bulk_urbs(1)] r]
  show ?thesis using r by (auto simp: bulk_session_simps)
qed

theorem complete_pending_urbs_stream_witness:
  "\<exists>s' finished. complete_pending_urbs bulk_device (bulk_session bulk_in_urb (connected [])) = Done (True, s') \<and>
     [bulk_in_urb] \<in> shuffles (map fst finished) (pend s') \<and> sent (net s') = concat (map snd finished) \<and>
     stream 1 finished @ unread (dev s') 1 = [79, 75, 33]"
proof -
  obtain s' where r: "complete_pending_urbs bulk_device (bulk_session bulk_in_urb (connected [])) = Done (True, s')"
    by (rule bulk_session_completes)
  from complete_pending_urbs_stream [OF bulk.device_program_axioms bulk_iso_quiet wf_bulk_session [OF bulk_urbs(1)] r]
  obtain finished where f: "[bulk_in_urb] \<in> shuffles (map fst finished) (pend s')" "sent (net s') = concat (map snd finished)"
      "\<forall>i > 0. stream i finished @ unread (dev s') i = unread (dev (bulk_session bulk_in_urb (connected []))) i"
    unfolding bulk_session_simps connected_simps append_Nil by blast
  have "stream 1 finished @ unread (dev s') 1 = [79, 75, 33]"
    using f(3) [rule_format, of 1] unfolding bulk_session_device by simp
  then show ?thesis using r f(1,2) by blast
qed

theorem complete_pending_urbs_paced_witness:
  "\<exists>s' finished. complete_pending_urbs bulk_device (bulk_session bulk_in_urb (connected [])) = Done (True, s') \<and>
     [bulk_in_urb] \<in> shuffles (map fst finished) (pend s') \<and>
     (filter (on_endpoint 2) finished = [] \<longrightarrow> endpoints s' 1 2 = zero_endpoint)"
proof -
  obtain s' where r: "complete_pending_urbs bulk_device (bulk_session bulk_in_urb (connected [])) = Done (True, s')"
    by (rule bulk_session_completes)
  have e: "endpoints (bulk_session bulk_in_urb (connected [])) 1 2 = zero_endpoint"
    by (simp add: bulk_session_def init_srv_def)
  from complete_pending_urbs_paced [OF bulk.device_program_axioms wf_bulk_session [OF bulk_urbs(1)] r]
  obtain finished where f: "[bulk_in_urb] \<in> shuffles (map fst finished) (pend s')"
      "\<And>i. length (filter (on_endpoint i) finished) = 0 \<Longrightarrow>
         endpoints s' 1 i = endpoints (bulk_session bulk_in_urb (connected [])) 1 i"
    unfolding Let_def bulk_session_simps by blast
  have "filter (on_endpoint 2) finished = [] \<longrightarrow> endpoints s' 1 2 = zero_endpoint"
    using f(2) [of 2] e by simp
  then show ?thesis using r f(1) by blast
qed

theorem complete_pending_urbs_nothing_due_witness:
  "\<exists>s'. complete_pending_urbs bulk_device (bulk_session bulk_iso_urb (connected [])) = Done (True, s') \<and>
     bulk_iso_urb \<in> set (pend s') \<and> wait_timeout_us s' \<le> 1000"
proof -
  let ?s = "(snd (now_us (bulk_session bulk_iso_urb (connected []))))\<lparr>wait_timeout_us := WAIT_TIMEOUT_US\<rparr>"
  have s: "num_pending_urbs ?s = 1" "nth_res (pending_urbs ?s) 0 = Done bulk_iso_urb" "due_us ?s bulk_iso_urb = 1000"
    "pend ?s = [bulk_iso_urb]"
    by (simp_all add: bulk_session_def init_srv_def now_us_def due_us_def bulk_iso_urb_def pend_def)
  have r: "complete_pending_urbs bulk_device (bulk_session bulk_iso_urb (connected [])) =
      Done (True, shorten_wait 1000 ?s)"
    using complete_loop_wait [of 0 ?s bulk_iso_urb 0 bulk_device] s
    by (simp add: complete_pending_urbs_def case_prod_unfold bulk_session_simps complete_loop_end)
  have "bulk_iso_urb \<in> set (pend (shorten_wait 1000 ?s))" using s(4) by simp
  from complete_pending_urbs_nothing_due [OF bulk.device_program_axioms bulk_iso_quiet wf_bulk_session [OF bulk_urbs(2)] r this]
  have "wait_timeout_us (shorten_wait 1000 ?s) \<le> 1000"
    by (auto simp: Let_def bulk_session_simps due_us_def bulk_iso_urb_def)
  with r \<open>bulk_iso_urb \<in> set (pend (shorten_wait 1000 ?s))\<close> show ?thesis by blast
qed

theorem get_descriptor_answer_witness:
  "\<exists>d1 d2 len tx'. usbip_device_control bulk_device [0x80, 6, 0, 1, 0, 0, 18, 0] [] 18 (init_device init_bulk) = Done (True, d1) \<and>
     usbip_device_fetch_control_reply (replicate 512 0) 18 d1 = Done (True, len, tx', d2) \<and>
     take len tx' = bulk_device_descriptor"
proof -
  have "length bulk_device_descriptor = 18" "unat (bulk_device_descriptor ! 0) = 18"
    by (simp_all add: bulk_device_descriptor_def)
  then have "std_descriptor bulk_device 1 0 = Some bulk_device_descriptor"
    by (simp add: std_descriptor_def bulk_device_def)
  with get_descriptor_answer [of "init_device init_bulk" bulk_device "[0x80, 6, 0, 1, 0, 0, 18, 0]" "replicate 512 0" "[]" 18]
    bulk_descriptors \<open>length bulk_device_descriptor = 18\<close>
  show ?thesis by simp
qed

end
