(* ===== verification/Sessions.thy ===== *)
theory Sessions
  imports Server Usb_Bulk
begin

text \<open>
  The server with a device program: the theorems on the life of the server applied to the bulk example.
\<close>

definition bulk_server :: "bulk srv" where
  "bulk_server = init_srv (connected []) (init_device init_bulk) (\<lambda>_. (0, 0))"

lemma bulk_server_start: "wf_srv bulk_inv bulk_server" "\<not> device_imported bulk_server" "pend bulk_server = []"
proof -
  have "dev_inv bulk_inv (init_device init_bulk)" by (simp add: dev_inv_def bulk_inv_def init_bulk_def)
  then show "wf_srv bulk_inv bulk_server" unfolding bulk_server_def by (rule wf_init_srv)
  show "\<not> device_imported bulk_server" "pend bulk_server = []"
    by (simp_all add: bulk_server_def init_srv_def pend_def)
qed

lemma bulk_server_live: "live (net bulk_server)"
  by (simp add: bulk_server_def init_srv_def)


theorem server_shuts_down_witness:
  "\<exists>s1 s2. worker_step bulk_device (usbip_server_stop (init_server bulk_server)) = Done s1 \<and>
     worker_step bulk_device s1 = Done s2 \<and> worker s2 = Finished \<and>
     device_stopped (dev (proto s2)) \<and> server_socket (net (proto s2)) < 0"
proof -
  have "server_reachable bulk_device bulk_inv (init_server bulk_server) (usbip_server_stop (init_server bulk_server))"
    by (rule server_reachable.step [OF server_reachable.start server_step.stop]) (simp add: init_server_def)
  then show ?thesis
    by (rule server_shuts_down [OF bulk.served_device_axioms bulk_server_start])
       (simp add: usbip_server_interrupted_def usbip_server_stop_def)
qed

end
