(* ===== verification/Concurrency.thy ===== *)
theory Concurrency
  imports Device Urb_Queue
begin

text \<open>
  The threads of a device program around the mutex \<open>ep_access_mutex\<close>, the condition variable
  \<open>ep_data_consumed\<close> and the event descriptor of \<open>src/lib/usbip_device.c\<close>. Any number of threads are
  inside \<open>usbip_device_transmit\<close>, one server thread waits for the client and for the event, processes
  commands and completes pending transfers, and resets or stops the device. A step of \<open>sys_step\<close> is one
  stretch that holds the mutex, or one access to the event descriptor, in the order of the source; the
  lock of the callbacks, \<open>receive_lock\<close>, and the critical sections are steps of their own. The
  fields \<open>resets\<close>, \<open>staged\<close>, \<open>fetched\<close> and \<open>origin\<close> record the past and influence no step.
\<close>

section \<open>The system\<close>

text \<open>
  A call of \<open>usbip_device_transmit\<close>: its arguments, the value of \<open>reset_generation\<close> it read, and the number
  of resets before it began.
\<close>

record transmit_call =
  tc_ep :: u8
  tc_data :: "u8 list"
  tc_length :: nat
  tc_generation :: u32
  tc_start :: nat

text \<open>
  Where a thread is: outside, inside \<open>pthread_cond_wait\<close> and not woken, woken and waiting for the mutex, or
  past the mutex with data stored and the event not yet written.
\<close>

datatype call = Idle | Blocked transmit_call | Woken transmit_call | Stored u8

text \<open>
  Where the server thread is: in \<open>ppoll\<close>, processing a command, before entry \<open>i\<close> of the loop of
  \<open>complete_pending_urbs\<close>, between the mutex and the event of \<open>usbip_device_reset\<close>, or ended.
\<close>

datatype phase = Waiting | Processing | Completing nat | Resetting | Halted

text \<open>The variables of a thread that decide whether it may wait in \<open>usbip_device_transmit\<close>.\<close>

record thread =
  is_server_thread :: bool
  in_critical_section :: bool

definition may_wait :: "thread \<Rightarrow> bool" where
  "may_wait th \<longleftrightarrow> \<not> is_server_thread th \<and> \<not> in_critical_section th"

definition usbip_device_mark_server_thread :: "thread \<Rightarrow> thread" where
  "usbip_device_mark_server_thread th = th\<lparr>is_server_thread := True\<rparr>"

record 'd system =
  dv :: "'d device"
  calls :: "nat \<Rightarrow> call"
  queue :: "(u8 \<times> nat) list"  \<comment> \<open>endpoint and length of the pending IN transfers\<close>
  phase :: phase
  threads :: "nat \<Rightarrow> thread"
  receive_lock :: "nat option"  \<comment> \<open>the thread that holds it\<close>
  timed :: bool  \<comment> \<open>a pending transfer was not due, \<open>ppoll\<close> wakes up when it is\<close>
  resets :: nat
  staged :: "nat \<Rightarrow> u8 list"
  fetched :: "nat \<Rightarrow> u8 list"
  origin :: "nat \<Rightarrow> nat"

definition init_system :: "'d \<Rightarrow> 'd system" where
  "init_system a =
     \<lparr>dv = init_device a, calls = (\<lambda>_. Idle), queue = [], phase = Waiting,
      threads = (\<lambda>_. \<lparr>is_server_thread = False, in_critical_section = False\<rparr>), receive_lock = None,
      timed = False, resets = 0,
      staged = (\<lambda>_. []), fetched = (\<lambda>_. []), origin = (\<lambda>_. 0)\<rparr>"

text \<open>\<open>pthread_cond_broadcast\<close>\<close>

definition broadcast :: "'d system \<Rightarrow> 'd system" where
  "broadcast s = s\<lparr>calls := (\<lambda>t. case calls s t of Blocked c \<Rightarrow> Woken c | c \<Rightarrow> c)\<rparr>"

text \<open>\<open>None\<close>: the thread has to wait for the lock.\<close>

definition usbip_device_critical_section_enter :: "nat \<Rightarrow> 'd system \<Rightarrow> 'd system option" where
  "usbip_device_critical_section_enter t s =
     (if receive_lock s = None
      then Some (s\<lparr>receive_lock := Some t, threads := (threads s)(t := (threads s t)\<lparr>in_critical_section := True\<rparr>)\<rparr>)
      else None)"

definition usbip_device_critical_section_exit :: "nat \<Rightarrow> 'd system \<Rightarrow> 'd system" where
  "usbip_device_critical_section_exit t s =
     s\<lparr>threads := (threads s)(t := (threads s t)\<lparr>in_critical_section := False\<rparr>), receive_lock := None\<rparr>"

text \<open>The part of \<open>usbip_device_reset\<close> that holds the mutex, without the broadcast.\<close>

definition reset_locked :: "'d device \<Rightarrow> 'd device" where
  "reset_locked d =
     (let d = clear_endpoint_data d
      in d\<lparr>configuration_value := 0, control_answered := False, reset_generation := reset_generation d + 1\<rparr>)"

lemma usbip_device_reset_parts:
  "usbip_device_reset ud d =
     (let d = usbip_device_clear_event (reset_locked d)
      in case reset_callback ud of None \<Rightarrow> Done d | Some callback \<Rightarrow> callback d)"
  by (simp add: usbip_device_reset_def reset_locked_def Let_def)

text \<open>Thread \<open>t\<close> after an attempt of its call \<open>c\<close>.\<close>

definition attempted :: "nat \<Rightarrow> transmit_call \<Rightarrow> transmit_result \<Rightarrow> 'd device \<Rightarrow> 'd system \<Rightarrow> 'd system" where
  "attempted t c r d s =
     (let i = ep_index (tc_ep c) in
      case r of
        Tr_wait \<Rightarrow> s\<lparr>dv := d, calls := (calls s)(t := Blocked c)\<rparr>
      | Tr_return stored \<Rightarrow>
          if stored
          then s\<lparr>dv := d, calls := (calls s)(t := Stored (tc_ep c)),
                 staged := (staged s)(i := staged s i @ take (cut_length (tc_length c)) (tc_data c)),
                 origin := (origin s)(i := tc_start c)\<rparr>
          else s\<lparr>dv := d, calls := (calls s)(t := Idle)\<rparr>)"

abbreviation (input) attempt_call :: "bool \<Rightarrow> transmit_call \<Rightarrow> 'd device \<Rightarrow> (transmit_result \<times> 'd device) res" where
  "attempt_call w c d \<equiv> transmit_attempt w (tc_generation c) (tc_ep c) (tc_data c) (tc_length c) d"

text \<open>The server thread after it fetched \<open>bytes\<close> from endpoint \<open>i\<close>.\<close>

definition after_fetch :: "nat \<Rightarrow> u8 list \<Rightarrow> 'd device \<Rightarrow> 'd system \<Rightarrow> 'd system" where
  "after_fetch i bytes d s =
     (let s = s\<lparr>dv := d, fetched := (fetched s)(i := fetched s i @ bytes)\<rparr>
      in if ep_data_length (endpoint_data d ! i) = 0 then broadcast s else s)"

definition forget :: "'d system \<Rightarrow> 'd system" where
  "forget s = s\<lparr>staged := (\<lambda>_. []), fetched := (\<lambda>_. []), queue := []\<rparr>"

inductive sys_step :: "'d system \<Rightarrow> 'd system \<Rightarrow> bool" where
  \<comment> \<open>threads in \<open>usbip_device_transmit\<close>\<close>
  begin_call: "calls s t = Idle \<Longrightarrow> tc_length c \<le> length (tc_data c) \<Longrightarrow>
    tc_generation c = reset_generation (dv s) \<Longrightarrow> tc_start c = resets s \<Longrightarrow>
    attempt_call (may_wait (threads s t)) c (dv s) = Done (r, d) \<Longrightarrow> sys_step s (attempted t c r d s)"
| spurious: "calls s t = Blocked c \<Longrightarrow> sys_step s (s\<lparr>calls := (calls s)(t := Woken c)\<rparr>)"
| resume: "calls s t = Woken c \<Longrightarrow> attempt_call True c (dv s) = Done (r, d) \<Longrightarrow> sys_step s (attempted t c r d s)"
| notify: "calls s t = Stored ep \<Longrightarrow>
    sys_step s (s\<lparr>dv := snd (transmit_finish ep (Tr_return True) (dv s)), calls := (calls s)(t := Idle)\<rparr>)"
  \<comment> \<open>critical sections, and callbacks of the server thread, run under \<open>receive_lock\<close>\<close>
| mark: "calls s t = Idle \<Longrightarrow> sys_step s (s\<lparr>threads := (threads s)(t := usbip_device_mark_server_thread (threads s t))\<rparr>)"
| enter: "calls s t = Idle \<Longrightarrow> usbip_device_critical_section_enter t s = Some s' \<Longrightarrow> sys_step s s'"
| leave: "calls s t = Idle \<Longrightarrow> receive_lock s = Some t \<Longrightarrow> in_critical_section (threads s t) \<Longrightarrow>
    sys_step s (usbip_device_critical_section_exit t s)"
| begin_callback: "calls s t = Idle \<Longrightarrow> is_server_thread (threads s t) \<Longrightarrow> receive_lock s = None \<Longrightarrow>
    sys_step s (s\<lparr>receive_lock := Some t\<rparr>)"
| end_callback: "calls s t = Idle \<Longrightarrow> receive_lock s = Some t \<Longrightarrow> is_server_thread (threads s t) \<Longrightarrow>
    \<not> in_critical_section (threads s t) \<Longrightarrow> sys_step s (s\<lparr>receive_lock := None\<rparr>)"
  \<comment> \<open>callbacks and critical sections change the program's variables\<close>
| application: "sys_step s (s\<lparr>dv := (dv s)\<lparr>app := a\<rparr>\<rparr>)"
  \<comment> \<open>the server thread\<close>
| poll: "phase s = Waiting \<Longrightarrow> sys_step s (s\<lparr>phase := Processing\<rparr>)"
| submit: "phase s = Processing \<Longrightarrow> sys_step s (s\<lparr>queue := queue s @ [(ep, m)]\<rparr>)"
| unlink: "phase s = Processing \<Longrightarrow> i < length (queue s) \<Longrightarrow> sys_step s (s\<lparr>queue := drop_nth i (queue s)\<rparr>)"
| control: "phase s = Processing \<Longrightarrow> sys_step s (s\<lparr>dv := control_start (dv s)\<rparr>)"
| configure: "phase s = Processing \<Longrightarrow> sys_step s (s\<lparr>dv := (dv s)\<lparr>configuration_value := v\<rparr>\<rparr>)"
| control_reply: "phase s = Processing \<Longrightarrow> ENDPOINT_MAX_DATA_LENGTH \<le> length buffer \<Longrightarrow>
    usbip_device_fetch_control_reply buffer m (dv s) = Done (answered, len, buffer', d) \<Longrightarrow>
    sys_step s (after_fetch 0 (take len buffer') d s)"
| clear_event: "phase s = Processing \<Longrightarrow>
    sys_step s (s\<lparr>dv := usbip_device_clear_event (dv s), phase := Completing 0, timed := False\<rparr>)"
| not_due: "phase s = Completing i \<Longrightarrow> i < length (queue s) \<Longrightarrow>
    sys_step s (s\<lparr>phase := Completing (i + 1), timed := True\<rparr>)"
| complete: "phase s = Completing i \<Longrightarrow> i < length (queue s) \<Longrightarrow> queue s ! i = (ep, m) \<Longrightarrow>
    ENDPOINT_MAX_DATA_LENGTH \<le> length buffer \<Longrightarrow>
    usbip_device_fetch_ep_data ep buffer m (dv s) = Done (len, buffer', d) \<Longrightarrow>
    s' = after_fetch (ep_index ep) (take len buffer') d s \<Longrightarrow>
    sys_step s (if len > 0 then s'\<lparr>queue := drop_nth i (queue s)\<rparr> else s'\<lparr>phase := Completing (i + 1)\<rparr>)"
| all_checked: "phase s = Completing i \<Longrightarrow> \<not> i < length (queue s) \<Longrightarrow> sys_step s (s\<lparr>phase := Waiting\<rparr>)"
| reset: "phase s \<noteq> Halted \<Longrightarrow>
    sys_step s (broadcast (forget (s\<lparr>dv := reset_locked (dv s), phase := Resetting, resets := resets s + 1\<rparr>)))"
| reset_event: "phase s = Resetting \<Longrightarrow>
    sys_step s (s\<lparr>dv := usbip_device_clear_event (dv s), phase := Waiting\<rparr>)"
| stop: "phase s \<noteq> Halted \<Longrightarrow>
    sys_step s (broadcast (forget (s\<lparr>dv := usbip_device_stop (dv s), phase := Halted\<rparr>)))"

inductive sys_reachable :: "'d \<Rightarrow> 'd system \<Rightarrow> bool" for a where
  start: "sys_reachable a (init_system a)"
| step: "sys_reachable a s \<Longrightarrow> sys_step s s' \<Longrightarrow> sys_reachable a s'"

section \<open>Invariant\<close>

text \<open>A call that has begun, and one that waits.\<close>

definition call_ok :: "'d system \<Rightarrow> transmit_call \<Rightarrow> bool" where
  "call_ok s c \<longleftrightarrow> tc_length c \<le> length (tc_data c) \<and>
     tc_generation c = of_nat (tc_start c) \<and> tc_start c \<le> resets s"

definition rightly_blocked :: "'d device \<Rightarrow> transmit_call \<Rightarrow> bool" where
  "rightly_blocked d c \<longleftrightarrow> 0 < ep_index (tc_ep c) \<and> \<not> device_stopped d \<and> unread d (ep_index (tc_ep c)) \<noteq> []"

definition calls_inv :: "'d system \<Rightarrow> bool" where
  "calls_inv s \<longleftrightarrow> (\<forall>t. case calls s t of
       Blocked c \<Rightarrow> call_ok s c \<and> rightly_blocked (dv s) c
     | Woken c \<Rightarrow> call_ok s c
     | _ \<Rightarrow> True)"

text \<open>What the threads stored since the last reset is what was fetched and what is still unread.\<close>

definition stream_inv :: "'d system \<Rightarrow> bool" where
  "stream_inv s \<longleftrightarrow> (\<forall>i. 0 < i \<and> i < 16 \<longrightarrow> fetched s i @ unread (dv s) i = staged s i)"

definition generation_inv :: "'d system \<Rightarrow> bool" where
  "generation_inv s \<longleftrightarrow> reset_generation (dv s) = of_nat (resets s) \<and>
     (resets s < 2 ^ 32 \<longrightarrow> (\<forall>i. 0 < i \<and> i < 16 \<and> unread (dv s) i \<noteq> [] \<longrightarrow> origin s i = resets s))"

text \<open>The server thread will look at endpoint \<open>i\<close> again without the help of the client.\<close>

definition heard :: "'d system \<Rightarrow> nat \<Rightarrow> bool" where
  "heard s i \<longleftrightarrow> ep_data_event (dv s) > 0 \<or> timed s \<or> (\<exists>t ep. calls s t = Stored ep \<and> ep_index ep = i)"

definition checked :: "'d system \<Rightarrow> (u8 \<times> nat) list" where
  "checked s = (case phase s of Waiting \<Rightarrow> queue s | Completing i \<Rightarrow> take i (queue s) | _ \<Rightarrow> [])"

definition wake_inv :: "'d system \<Rightarrow> bool" where
  "wake_inv s \<longleftrightarrow> (\<forall>ep m. (ep, m) \<in> set (checked s) \<longrightarrow> 0 < m \<longrightarrow> 0 < ep_index ep \<longrightarrow>
     unread (dv s) (ep_index ep) \<noteq> [] \<longrightarrow> heard s (ep_index ep))"

definition sys_inv :: "'d system \<Rightarrow> bool" where
  "sys_inv s \<longleftrightarrow> wf_device (dv s) \<and> calls_inv s \<and> stream_inv s \<and> generation_inv s \<and> wake_inv s \<and>
     (phase s = Resetting \<longrightarrow> queue s = [])"

lemmas sys_inv_defs = sys_inv_def calls_inv_def stream_inv_def generation_inv_def wake_inv_def

lemma checked_frame [simp]:
  "checked (s\<lparr>dv := d\<rparr>) = checked s" "checked (s\<lparr>calls := f\<rparr>) = checked s" "checked (s\<lparr>staged := g\<rparr>) = checked s"
  "checked (s\<lparr>fetched := g\<rparr>) = checked s" "checked (s\<lparr>origin := h\<rparr>) = checked s"
  by (simp_all add: checked_def split: phase.splits)

lemma broadcast_simps [simp]:
  "dv (broadcast s) = dv s" "queue (broadcast s) = queue s" "phase (broadcast s) = phase s"
  "timed (broadcast s) = timed s" "resets (broadcast s) = resets s" "staged (broadcast s) = staged s"
  "fetched (broadcast s) = fetched s" "origin (broadcast s) = origin s" "checked (broadcast s) = checked s"
  by (simp_all add: broadcast_def checked_def split: phase.splits)

lemma broadcast_calls:
  "calls (broadcast s) t \<noteq> Blocked c" "calls (broadcast s) t = Stored ep \<longleftrightarrow> calls s t = Stored ep"
  "calls (broadcast s) t = Woken c \<longleftrightarrow> calls s t = Woken c \<or> calls s t = Blocked c"
  by (auto simp: broadcast_def split: call.splits)

lemma heard_broadcast [simp]: "heard (broadcast s) i = heard s i"
  by (simp add: heard_def broadcast_calls)

lemma calls_inv_iff:
  "calls_inv s \<longleftrightarrow> (\<forall>t c. calls s t = Blocked c \<longrightarrow> call_ok s c \<and> rightly_blocked (dv s) c) \<and>
     (\<forall>t c. calls s t = Woken c \<longrightarrow> call_ok s c)"
  by (auto simp: calls_inv_def split: call.splits)

lemma call_ok_mono: "call_ok s c \<Longrightarrow> resets s \<le> resets s' \<Longrightarrow> call_ok s' c"
  by (simp add: call_ok_def)

text \<open>A broadcast wakes everybody, so the device may have changed.\<close>

lemma calls_inv_broadcast:
  assumes "\<And>t c. calls s t = Blocked c \<or> calls s t = Woken c \<Longrightarrow> call_ok s c"
  shows "calls_inv (broadcast s)"
  using assms by (auto simp: calls_inv_iff broadcast_calls call_ok_def)

lemma sys_inv_init: "sys_inv (init_system a)"
  by (simp add: sys_inv_defs init_system_def checked_def) (simp add: init_device_def)

subsection \<open>Threads\<close>

lemma heard_mono:
  assumes "heard s i" and "0 < i" and "ep_data_event (dv s) > 0 \<longrightarrow> ep_data_event (dv s') > 0" and "timed s \<longrightarrow> timed s'"
    and "\<forall>t ep. calls s t = Stored ep \<longrightarrow> 0 < ep_index ep \<longrightarrow> calls s' t = Stored ep \<or> ep_data_event (dv s') > 0"
  shows "heard s' i"
  using assms unfolding heard_def by blast

lemma wake_inv_mono:
  assumes "wake_inv s" and "set (checked s') \<subseteq> set (checked s)"
    and "\<forall>i. 0 < i \<longrightarrow> unread (dv s') i \<noteq> [] \<longrightarrow> unread (dv s) i \<noteq> []"
    and "ep_data_event (dv s) > 0 \<longrightarrow> ep_data_event (dv s') > 0" and "timed s \<longrightarrow> timed s'"
    and "\<forall>t ep. calls s t = Stored ep \<longrightarrow> 0 < ep_index ep \<longrightarrow> calls s' t = Stored ep \<or> ep_data_event (dv s') > 0"
  shows "wake_inv s'"
  using assms(1-3) heard_mono [OF _ _ assms(4-6)] unfolding wake_inv_def by blast

lemma heard_stored: "calls s t = Stored ep \<Longrightarrow> heard s (ep_index ep)"
  unfolding heard_def by blast

lemma attempted_inv:
  assumes inv: "sys_inv s" and c: "call_ok s c" and idle: "\<forall>ep. calls s t \<noteq> Stored ep"
    and r: "attempt_call w c (dv s) = Done (r, d)"
  shows "sys_inv (attempted t c r d s)"
proof -
  let ?i = "ep_index (tc_ep c)"
  have wf: "wf_device (dv s)" using inv by (simp add: sys_inv_def)
  have "cut_length (tc_length c) \<le> length (tc_data c)" using c by (auto simp: call_ok_def)
  note spec = transmit_attempt_spec [OF wf this, where may_wait = w and g = "tc_generation c" and ep = "tc_ep c",
      unfolded r returns.simps prod.case]
  show ?thesis
  proof (cases "r = Tr_return True")
    case False
    have d: "d = dv s" using spec False by blast
    define x where "x = (if r = Tr_wait then Blocked c else Idle)"
    have s': "attempted t c r d s = s\<lparr>dv := dv s, calls := (calls s)(t := x)\<rparr>"
      using False unfolding d x_def by (cases r) (simp_all add: attempted_def)
    have "r = Tr_wait \<Longrightarrow> rightly_blocked (dv s) c" using spec by (simp add: rightly_blocked_def)
    then have "calls_inv (s\<lparr>dv := dv s, calls := (calls s)(t := x)\<rparr>)"
      using inv c by (auto simp: sys_inv_def calls_inv_iff x_def call_ok_def)
    moreover have "wake_inv (s\<lparr>dv := dv s, calls := (calls s)(t := x)\<rparr>)"
      by (rule wake_inv_mono [of s]) (use inv idle in \<open>auto simp: sys_inv_def\<close>)
    ultimately show ?thesis using inv unfolding s' by (simp add: sys_inv_def stream_inv_def generation_inv_def)
  next
    case True
    let ?s = "attempted t c r d s"
    have s': "?s = s\<lparr>dv := d, calls := (calls s)(t := Stored (tc_ep c)),
        staged := (staged s)(?i := staged s ?i @ take (cut_length (tc_length c)) (tc_data c)),
        origin := (origin s)(?i := tc_start c)\<rparr>"
      unfolding True by (simp add: attempted_def Let_def)
    have st: "wf_device d" "device_stopped d = device_stopped (dv s)" "reset_generation d = reset_generation (dv s)"
        "ep_data_event d = ep_data_event (dv s)" "tc_generation c = reset_generation (dv s)"
        "?i = 0 \<or> unread (dv s) ?i = []"
        "unread d = (unread (dv s))(?i := take (cut_length (tc_length c)) (tc_data c))"
      using spec True by blast+
    have "rightly_blocked d c'" if "rightly_blocked (dv s) c'" for c'
      using that st(2,6,7) by (cases "ep_index (tc_ep c') = ?i") (auto simp: rightly_blocked_def)
    then have "calls_inv ?s"
      using inv unfolding s' by (auto simp: sys_inv_def calls_inv_iff intro: call_ok_mono [of s])
    moreover have "stream_inv ?s"
      using inv st(6,7) unfolding s' by (auto simp: sys_inv_def stream_inv_def)
    moreover have "tc_start c = resets s" if "resets s < 2 ^ 32"
    proof -
      have "(of_nat (tc_start c) :: u32) = of_nat (resets s)" "tc_start c \<le> resets s"
        using c inv st(5) by (simp_all add: call_ok_def sys_inv_def generation_inv_def)
      then show ?thesis using that unat_of_nat_less [where 'a = 32, of "resets s"] unat_of_nat_less [where 'a = 32, of "tc_start c"]
        by simp
    qed
    then have "generation_inv ?s"
      using inv st(3,7) unfolding s' by (auto simp: sys_inv_def generation_inv_def)
    moreover have "wake_inv ?s"
    proof -
      have "heard ?s e" if "unread d e \<noteq> []" "unread (dv s) e \<noteq> [] \<longrightarrow> heard s e" "0 < e" for e
      proof (cases "e = ?i")
        case True
        then show ?thesis using heard_stored [of ?s t "tc_ep c"] by (simp add: s')
      next
        case False
        then have "heard s e" using that st(7) by simp
        then show ?thesis by (rule heard_mono) (use idle that(3) st(4) in \<open>auto simp: s'\<close>)
      qed
      then show ?thesis using inv unfolding wake_inv_def s' sys_inv_def by simp
    qed
    ultimately show ?thesis using st(1) inv by (simp add: sys_inv_def s')
  qed
qed

lemma spurious_inv:
  assumes "sys_inv s" and "calls s t = Blocked c"
  shows "sys_inv (s\<lparr>calls := (calls s)(t := Woken c)\<rparr>)"
proof -
  have "wake_inv (s\<lparr>calls := (calls s)(t := Woken c)\<rparr>)"
    by (rule wake_inv_mono [of s]) (use assms in \<open>auto simp: sys_inv_def\<close>)
  then show ?thesis using assms by (auto simp: sys_inv_def calls_inv_iff call_ok_def stream_inv_def generation_inv_def)
qed

lemma notify_inv:
  assumes inv: "sys_inv s" and t: "calls s t = Stored ep"
  shows "sys_inv (s\<lparr>dv := snd (transmit_finish ep (Tr_return True) (dv s)), calls := (calls s)(t := Idle)\<rparr>)"
proof -
  let ?d = "snd (transmit_finish ep (Tr_return True) (dv s))"
  have d: "wf_device ?d = wf_device (dv s)" "unread ?d = unread (dv s)" "device_stopped ?d = device_stopped (dv s)"
      "reset_generation ?d = reset_generation (dv s)" "0 < ep_index ep \<longrightarrow> 0 < ep_data_event ?d"
      "0 < ep_data_event (dv s) \<longrightarrow> 0 < ep_data_event ?d"
    by (auto simp: transmit_finish_def Let_def event_write_frame)
  have "wake_inv (s\<lparr>dv := ?d, calls := (calls s)(t := Idle)\<rparr>)"
    by (rule wake_inv_mono [of s]) (use inv d t in \<open>auto simp: sys_inv_def\<close>)
  moreover have "rightly_blocked ?d = rightly_blocked (dv s)" by (simp add: fun_eq_iff rightly_blocked_def d)
  ultimately show ?thesis
    using inv by (auto simp: sys_inv_def calls_inv_iff call_ok_def stream_inv_def generation_inv_def d)
qed

subsection \<open>The server thread\<close>

text \<open>Steps that leave endpoints and event alone.\<close>

lemma same_data_inv:
  assumes "sys_inv s" and "wf_device d" and "\<forall>i. 0 < i \<longrightarrow> unread d i = unread (dv s) i"
    and "device_stopped d = device_stopped (dv s)" and "reset_generation d = reset_generation (dv s)"
    and "ep_data_event d = ep_data_event (dv s)"
  shows "sys_inv (s\<lparr>dv := d\<rparr>)"
proof -
  have "wake_inv (s\<lparr>dv := d\<rparr>)" by (rule wake_inv_mono [of s]) (use assms in \<open>auto simp: sys_inv_def\<close>)
  moreover have "rightly_blocked d = rightly_blocked (dv s)"
    using assms(3,4) by (auto simp: fun_eq_iff rightly_blocked_def)
  ultimately show ?thesis
    using assms by (auto simp: sys_inv_def calls_inv_iff call_ok_def stream_inv_def generation_inv_def)
qed

lemma same_field [simp]:
  "phase s = p \<Longrightarrow> s\<lparr>phase := p\<rparr> = s" "s\<lparr>phase := p, queue := queue s\<rparr> = s\<lparr>phase := p\<rparr>"
  "s\<lparr>dv := d, phase := p, timed := timed s\<rparr> = s\<lparr>dv := d, phase := p\<rparr>"
  by (cases s; simp)+

lemma phase_inv:
  assumes "sys_inv s" and "set (checked (s\<lparr>phase := p, queue := q\<rparr>)) \<subseteq> set (checked s)"
    and "p = Resetting \<longrightarrow> q = []"
  shows "sys_inv (s\<lparr>phase := p, queue := q\<rparr>)"
proof -
  have "wake_inv (s\<lparr>phase := p, queue := q\<rparr>)"
    by (rule wake_inv_mono [of s]) (use assms in \<open>auto simp: sys_inv_def\<close>)
  then show ?thesis using assms(1,3)
    by (simp add: sys_inv_def calls_inv_iff call_ok_def stream_inv_def generation_inv_def)
qed

lemma forget_inv:
  assumes "sys_inv s" and "wf_device d" and "\<forall>i < 16. unread d i = []"
    and "reset_generation d = of_nat n" and "resets s \<le> n"
  shows "sys_inv (broadcast (forget (s\<lparr>dv := d, phase := p, resets := n\<rparr>)))"
proof -
  let ?s = "forget (s\<lparr>dv := d, phase := p, resets := n\<rparr>)"
  have f: "dv ?s = d" "resets ?s = n" "calls ?s = calls s" "staged ?s = (\<lambda>_. [])" "fetched ?s = (\<lambda>_. [])" "checked ?s = []" "queue ?s = []"
    by (simp_all add: forget_def checked_def split: phase.splits)
  have "calls_inv (broadcast ?s)"
    by (rule calls_inv_broadcast)
       (use assms(1,5) in \<open>auto simp: f sys_inv_def calls_inv_iff intro: call_ok_mono [of s]\<close>)
  then show ?thesis using assms(2-4) by (auto simp: sys_inv_def stream_inv_def generation_inv_def wake_inv_def f)
qed

lemma after_fetch_inv:
  assumes inv: "sys_inv s" and wf: "wf_device d" and i: "i < 16"
    and u: "unread d = (unread (dv s))(i := rest)" and bytes: "i = 0 \<or> unread (dv s) i = bytes @ rest"
    and same: "device_stopped d = device_stopped (dv s)" "reset_generation d = reset_generation (dv s)"
      "ep_data_event d = ep_data_event (dv s)"
  shows "sys_inv (after_fetch i bytes d s)"
proof -
  let ?s = "s\<lparr>dv := d, fetched := (fetched s)(i := fetched s i @ bytes)\<rparr>"
  have w: "wake_inv ?s"
    by (rule wake_inv_mono [of s]) (use inv u bytes same in \<open>auto simp: sys_inv_def\<close>)
  have st: "stream_inv ?s" "generation_inv ?s"
    using inv u bytes same by (auto simp: sys_inv_def stream_inv_def generation_inv_def)
  have ok: "call_ok ?s c" if "calls s t = Blocked c \<or> calls s t = Woken c" for t c
    using inv that by (auto simp: sys_inv_def calls_inv_iff call_ok_def)
  show ?thesis
  proof (cases "rest = []")
    case True
    then have "ep_data_length (endpoint_data d ! i) = 0" using unread_Nil_iff [OF wf i] u by simp
    moreover have "calls_inv (broadcast ?s)" by (rule calls_inv_broadcast) (use ok in auto)
    moreover have "wake_inv (broadcast ?s)"
      by (rule wake_inv_mono [OF w]) (auto simp: broadcast_calls)
    ultimately show ?thesis using st wf inv
      by (simp add: after_fetch_def Let_def sys_inv_def stream_inv_def generation_inv_def)
  next
    case False
    then have "ep_data_length (endpoint_data d ! i) \<noteq> 0" using unread_Nil_iff [OF wf i] u by simp
    moreover have "calls_inv ?s"
      using inv ok False u bytes same(1) by (auto simp: sys_inv_def calls_inv_iff rightly_blocked_def)
    ultimately show ?thesis using st w wf inv by (simp add: after_fetch_def Let_def sys_inv_def)
  qed
qed

text \<open>A step that checks nothing: the event may be cleared.\<close>

lemma clear_event_inv:
  assumes "sys_inv s" and "checked (s\<lparr>phase := p, timed := b\<rparr>) = []" and "p \<noteq> Resetting"
  shows "sys_inv (s\<lparr>dv := usbip_device_clear_event (dv s), phase := p, timed := b\<rparr>)"
proof -
  let ?d = "usbip_device_clear_event (dv s)"
  have d: "device_stopped ?d = device_stopped (dv s)" "reset_generation ?d = reset_generation (dv s)"
    by (simp_all add: usbip_device_clear_event_def)
  have "rightly_blocked ?d = rightly_blocked (dv s)" by (simp add: fun_eq_iff rightly_blocked_def d)
  moreover have "checked (s\<lparr>dv := ?d, phase := p, timed := b\<rparr>) = []"
    using assms(2) by (simp add: checked_def split: phase.splits)
  ultimately show ?thesis
    using assms by (simp add: sys_inv_def calls_inv_iff call_ok_def stream_inv_def generation_inv_def wake_inv_def d)
qed

lemma not_due_inv:
  assumes "sys_inv s" and "p \<noteq> Resetting"
  shows "sys_inv (s\<lparr>phase := p, timed := True\<rparr>)"
  using assms by (simp add: sys_inv_def calls_inv_iff call_ok_def stream_inv_def generation_inv_def wake_inv_def heard_def)

lemma after_fetch_frame [simp]:
  "queue (after_fetch i bytes d s) = queue s" "phase (after_fetch i bytes d s) = phase s"
  "checked (after_fetch i bytes d s) = checked s" "dv (after_fetch i bytes d s) = d"
  by (simp_all add: after_fetch_def Let_def)

lemma fetched_inv:
  assumes inv: "sys_inv s" and buf: "512 \<le> length buffer"
    and f: "usbip_device_fetch_ep_data ep buffer m (dv s) = Done (len, buffer', d)"
  shows "sys_inv (after_fetch (ep_index ep) (take len buffer') d s)"
    "0 < m \<Longrightarrow> len = 0 \<Longrightarrow> unread d (ep_index ep) = []"
proof -
  have wf: "wf_device (dv s)" using inv by (simp add: sys_inv_def)
  have "min m (length (unread (dv s) (ep_index ep))) \<le> length buffer"
    using buf length_unread_le [OF wf ep_index_less, of ep] by linarith
  note spec = usbip_device_fetch_ep_data_spec [OF wf this, unfolded f returns.simps prod.case]
  let ?u = "unread (dv s) (ep_index ep)"
  have t: "take len buffer' = take len ?u" "len = min m (length ?u)"
    "unread d = (unread (dv s))(ep_index ep := (if ep_index ep = 0 then [] else drop len ?u))"
    using spec by blast+
  have u: "ep_index ep = 0 \<or> ?u = take len buffer' @ (if ep_index ep = 0 then [] else drop len ?u)"
    using t(1) by simp
  show "sys_inv (after_fetch (ep_index ep) (take len buffer') d s)"
    by (rule after_fetch_inv [OF inv _ ep_index_less _ u]) (use spec in blast)+
  show "unread d (ep_index ep) = []" if "0 < m" "len = 0"
    using t(2,3) that by (simp add: min_def split: if_splits)
qed

lemma take_drop_nth: "i \<le> length xs \<Longrightarrow> take i (drop_nth i xs) = take i xs"
  by (simp add: drop_nth_def)

lemma complete_inv:
  assumes inv: "sys_inv s" and p: "phase s = Completing i" "i < length (queue s)" "queue s ! i = (ep, m)"
    and buf: "512 \<le> length buffer" and f: "usbip_device_fetch_ep_data ep buffer m (dv s) = Done (len, buffer', d)"
    and s': "s' = after_fetch (ep_index ep) (take len buffer') d s"
  shows "sys_inv (if len > 0 then s'\<lparr>queue := drop_nth i (queue s)\<rparr> else s'\<lparr>phase := Completing (i + 1)\<rparr>)"
proof (cases "len > 0")
  note fetched = fetched_inv [OF inv buf f]
  case True
  have "set (checked (s'\<lparr>phase := phase s', queue := drop_nth i (queue s)\<rparr>)) \<subseteq> set (checked s')"
    using p by (simp add: s' checked_def take_drop_nth)
  from phase_inv [OF fetched(1) [folded s'] this] show ?thesis using True p by (simp add: s')
next
  note fetched = fetched_inv [OF inv buf f]
  case False
  let ?s = "s'\<lparr>phase := Completing (i + 1)\<rparr>"
  have c: "checked ?s = checked s' @ [(ep, m)]"
    using p by (simp add: checked_def s' take_Suc_conv_app_nth)
  have inv': "sys_inv s'" using fetched(1) by (simp add: s')
  have "unread d (ep_index ep) = []" if "0 < m" using fetched(2) that False by simp
  moreover have "heard ?s j = heard s' j" for j by (simp add: heard_def)
  ultimately have "wake_inv ?s"
    using inv' unfolding wake_inv_def c sys_inv_def by (auto simp: s')
  then show ?thesis
    using False inv' by (simp add: sys_inv_def calls_inv_iff call_ok_def stream_inv_def generation_inv_def)
qed

lemma lock_frame:
  "sys_inv (s\<lparr>threads := th\<rparr>) = sys_inv s" "sys_inv (s\<lparr>receive_lock := l\<rparr>) = sys_inv s"
  by (simp_all add: sys_inv_defs call_ok_def checked_def heard_def cong: phase.case_cong call.case_cong)

lemma sys_step_inv: "sys_step s s' \<Longrightarrow> sys_inv s \<Longrightarrow> sys_inv s'"
proof (induction rule: sys_step.induct)
  case (begin_call s t c r d)
  have "call_ok s c" using begin_call by (simp add: call_ok_def sys_inv_def generation_inv_def)
  with begin_call show ?case by (intro attempted_inv) auto
next
  case (spurious s t c)
  then show ?case by (intro spurious_inv)
next
  case (resume s t c r d)
  have "call_ok s c" using resume by (auto simp: sys_inv_def calls_inv_iff)
  with resume show ?case by (intro attempted_inv) auto
next
  case (notify s t ep)
  then show ?case by (intro notify_inv)
next
  case (mark s t)
  then show ?case by (simp add: lock_frame)
next
  case (enter s t s')
  then show ?case by (auto simp: usbip_device_critical_section_enter_def lock_frame split: if_splits)
next
  case (leave s t)
  then show ?case by (simp add: usbip_device_critical_section_exit_def lock_frame)
next
  case (begin_callback s t)
  then show ?case by (simp add: lock_frame)
next
  case (end_callback s t)
  then show ?case by (simp add: lock_frame)
next
  case (application s a)
  then show ?case by (intro same_data_inv) (auto simp: sys_inv_def)
next
  case (poll s)
  then show ?case using phase_inv [of s "queue s" Processing] by (simp add: checked_def)
next
  case (submit s ep m)
  then show ?case using phase_inv [of s "queue s @ [(ep, m)]" Processing] by (simp add: checked_def)
next
  case (unlink s i)
  then show ?case using phase_inv [of s "drop_nth i (queue s)" Processing] by (simp add: checked_def)
next
  case (control s)
  then show ?case
    by (intro same_data_inv) (auto simp: sys_inv_def control_start_simps, simp add: control_start_def)
next
  case (configure s v)
  then show ?case by (intro same_data_inv) (auto simp: sys_inv_def)
next
  case (control_reply s buffer m answered len buffer' d)
  have "sys_inv (s\<lparr>dv := (dv s)\<lparr>control_answered := False\<rparr>\<rparr>)"
    using control_reply.prems by (intro same_data_inv) (auto simp: sys_inv_def)
  moreover have "usbip_device_fetch_ep_data 0 buffer m ((dv s)\<lparr>control_answered := False\<rparr>) = Done (len, buffer', d)"
    using control_reply.hyps(3) by (auto simp: usbip_device_fetch_control_reply_def bind_res_Done_iff Let_def)
  ultimately show ?case
    using fetched_inv(1) [where s = "s\<lparr>dv := (dv s)\<lparr>control_answered := False\<rparr>\<rparr>" and ep = 0] control_reply.hyps(2)
    by (simp add: after_fetch_def)
next
  case (clear_event s)
  then show ?case by (intro clear_event_inv) (simp_all add: checked_def)
next
  case (not_due s i)
  then show ?case by (intro not_due_inv) simp_all
next
  case (complete s i ep m buffer len buffer' d s')
  then show ?case by (intro complete_inv)
next
  case (all_checked s i)
  then show ?case using phase_inv [of s "queue s" Waiting] by (simp add: checked_def)
next
  case (reset s)
  then show ?case
    by (intro forget_inv) (auto simp: sys_inv_def generation_inv_def reset_locked_def Let_def, simp_all add: clear_endpoint_data_def)
next
  case (reset_event s)
  then show ?case using clear_event_inv [where s = s and p = Waiting and b = "timed s"] by (simp add: checked_def sys_inv_def)
next
  case (stop s)
  then show ?case
    using forget_inv [where s = s and d = "usbip_device_stop (dv s)" and n = "resets s" and p = Halted]
    by (simp add: sys_inv_def generation_inv_def usbip_device_stop_def) (simp add: clear_endpoint_data_def)
qed

lemma sys_reachable_inv: "sys_reachable a s \<Longrightarrow> sys_inv s"
  by (induction rule: sys_reachable.induct) (auto intro: sys_inv_init sys_step_inv)

section \<open>The lock of the callbacks\<close>

definition lock_inv :: "'d system \<Rightarrow> bool" where
  "lock_inv s \<longleftrightarrow> (\<forall>t. receive_lock s = Some t \<longrightarrow> \<not> may_wait (threads s t)) \<and>
     (\<forall>t c. calls s t = Blocked c \<or> calls s t = Woken c \<longrightarrow> may_wait (threads s t))"

lemma attempted_lock:
  "receive_lock (attempted t c r d s) = receive_lock s" "threads (attempted t c r d s) = threads s"
  "calls (attempted t c r d s) = (calls s)(t :=
     case r of Tr_wait \<Rightarrow> Blocked c | Tr_return stored \<Rightarrow> if stored then Stored (tc_ep c) else Idle)"
  by (simp_all add: attempted_def Let_def split: transmit_result.splits)

lemma broadcast_lock:
  "receive_lock (broadcast s) = receive_lock s" "threads (broadcast s) = threads s"
  "receive_lock (forget s) = receive_lock s" "threads (forget s) = threads s" "calls (forget s) = calls s"
  "receive_lock (after_fetch i bytes d s) = receive_lock s" "threads (after_fetch i bytes d s) = threads s"
  by (simp_all add: broadcast_def forget_def after_fetch_def Let_def)

lemma lock_inv_attempted:
  assumes "lock_inv s" and "r = Tr_wait \<Longrightarrow> may_wait (threads s t)"
  shows "lock_inv (attempted t c r d s)"
  using assms by (auto simp: lock_inv_def attempted_lock split: transmit_result.splits if_splits)

lemma lock_inv_broadcast: "lock_inv s \<Longrightarrow> lock_inv (broadcast s)"
  by (auto simp: lock_inv_def broadcast_calls broadcast_lock)

lemma lock_inv_forget: "lock_inv (forget (s\<lparr>dv := d, phase := p, resets := k\<rparr>)) = lock_inv s"
  "lock_inv (forget (s\<lparr>dv := d, phase := p\<rparr>)) = lock_inv s"
  by (simp_all add: lock_inv_def broadcast_lock)

lemma lock_inv_fetch: "lock_inv s \<Longrightarrow> lock_inv (after_fetch i bytes d s)"
proof -
  assume "lock_inv s"
  then have "lock_inv (s\<lparr>dv := d, fetched := (fetched s)(i := fetched s i @ bytes)\<rparr>)" by (simp add: lock_inv_def)
  then show ?thesis by (simp add: after_fetch_def Let_def lock_inv_broadcast)
qed

lemma transmit_attempt_wait: "transmit_attempt w g ep data n d = Done (Tr_wait, d') \<Longrightarrow> w"
  by (auto simp: transmit_attempt_def transmit_store_def Let_def res_simps split: if_splits)

lemma lock_inv_threads:
  assumes "lock_inv s" and "calls s' = calls s" and "\<forall>u. u \<noteq> t \<longrightarrow> threads s' u = threads s u"
    and "receive_lock s' = None \<or> receive_lock s' = Some t \<or> receive_lock s' = receive_lock s"
    and "receive_lock s' = Some t \<longrightarrow> \<not> may_wait (threads s' t)" and "calls s t = Idle"
  shows "lock_inv s'"
  using assms unfolding lock_inv_def by (metis call.distinct(1,3) option.distinct(1) option.inject)

lemma sys_step_lock_inv: "sys_step s s' \<Longrightarrow> lock_inv s \<Longrightarrow> lock_inv s'"
proof (induction rule: sys_step.induct)
  case (begin_call s t c r d)
  show ?case by (rule lock_inv_attempted [OF begin_call.prems]) (use begin_call.hyps(5) transmit_attempt_wait in blast)
next
  case (resume s t c r d)
  have "may_wait (threads s t)" using resume.prems resume.hyps(1) unfolding lock_inv_def by blast
  then show ?case by (rule lock_inv_attempted [OF resume.prems])
next
  case (spurious s t c)
  then show ?case unfolding lock_inv_def by simp
next
  case (notify s t ep)
  then show ?case unfolding lock_inv_def by simp
next
  case (mark s t)
  show ?case
    by (rule lock_inv_threads [OF mark.prems, of _ t]) (use mark.hyps in \<open>simp_all add: usbip_device_mark_server_thread_def may_wait_def\<close>)
next
  case (enter s t s')
  show ?case
    by (rule lock_inv_threads [OF enter.prems, of _ t])
       (use enter.hyps in \<open>auto simp: usbip_device_critical_section_enter_def may_wait_def split: if_splits\<close>)
next
  case (leave s t)
  show ?case by (rule lock_inv_threads [OF leave.prems, of _ t]) (use leave.hyps in \<open>simp_all add: usbip_device_critical_section_exit_def\<close>)
next
  case (begin_callback s t)
  show ?case by (rule lock_inv_threads [OF begin_callback.prems, of _ t]) (use begin_callback.hyps in \<open>simp_all add: may_wait_def\<close>)
next
  case (end_callback s t)
  show ?case by (rule lock_inv_threads [OF end_callback.prems, of _ t]) (use end_callback.hyps in simp_all)
next
  case (control_reply s buffer m answered len buffer' d)
  then show ?case by (simp add: lock_inv_fetch)
next
  case (complete s i ep m buffer len buffer' d s')
  then have "lock_inv s'" by (simp add: lock_inv_fetch)
  then show ?case by (simp add: lock_inv_def)
next
  case (reset s)
  then show ?case by (simp add: lock_inv_broadcast lock_inv_forget)
next
  case (stop s)
  then show ?case by (simp add: lock_inv_broadcast lock_inv_forget)
qed (simp_all add: lock_inv_def)

lemma sys_reachable_lock_inv: "sys_reachable a s \<Longrightarrow> lock_inv s"
proof (induction rule: sys_reachable.induct)
  case start
  show ?case by (simp add: lock_inv_def init_system_def)
qed (rule sys_step_lock_inv)

section \<open>Properties of the running system\<close>

text \<open>
  C21. The library cannot deadlock on \<open>receive_lock\<close>: the thread that holds it, the server thread in a
  callback or a thread in a critical section, is not waiting in \<open>usbip_device_transmit\<close> for the host to
  fetch data, and no call it makes will wait.
\<close>

theorem lock_holder_never_waits:
  assumes "sys_reachable a s" and "receive_lock s = Some t"
  shows "(\<forall>c. calls s t \<noteq> Blocked c \<and> calls s t \<noteq> Woken c) \<and>
     (\<forall>c d. attempt_call (may_wait (threads s t)) c (dv s) \<noteq> Done (Tr_wait, d))"
  using sys_reachable_lock_inv [OF assms(1)] assms(2) transmit_attempt_wait by (auto simp: lock_inv_def)

text \<open>
  C6. No broadcast is lost: in every reachable state of the system, a thread asleep inside
  \<open>usbip_device_transmit\<close> has a reason to be, its endpoint holds data the host has not fetched and the
  device is not stopped. When the last byte is fetched, or on a reset or a stop, nobody stays asleep.
\<close>

theorem no_lost_broadcast:
  assumes "sys_reachable a s" and "calls s t = Blocked c"
  shows "0 < ep_index (tc_ep c) \<and> unread (dv s) (ep_index (tc_ep c)) \<noteq> [] \<and> \<not> device_stopped (dv s)"
  using sys_reachable_inv [OF assms(1)] assms(2) by (simp add: sys_inv_def calls_inv_iff rightly_blocked_def)

text \<open>
  C5. No wakeup is lost: while the server thread waits in \<open>ppoll\<close> and a pending IN transfer could be
  completed with data that is there, the event descriptor is readable, or a timeout was set for a transfer
  that is not due yet, or the thread that stored data on that endpoint is about to write the event.
\<close>

theorem no_lost_wakeup:
  assumes "sys_reachable a s" and "phase s = Waiting" and "(ep, m) \<in> set (queue s)" and "0 < m"
    and "0 < ep_index ep" and "unread (dv s) (ep_index ep) \<noteq> []"
  shows "ep_data_event (dv s) > 0 \<or> timed s \<or> (\<exists>t e. calls s t = Stored e \<and> ep_index e = ep_index ep)"
  using sys_reachable_inv [OF assms(1)] assms(2-)
  by (simp add: sys_inv_def wake_inv_def checked_def flip: heard_def)

text \<open>
  C7. However the threads interleave, an endpoint is a queue: the data fetched for the host since the last
  reset, followed by what is still unread, is the data the calls of \<open>usbip_device_transmit\<close> stored, each
  call's data whole and in the order of the calls.
\<close>

theorem transmitted_stream:
  assumes "sys_reachable a s" and "0 < i" and "i < 16"
  shows "fetched s i @ unread (dv s) i = staged s i"
  using sys_reachable_inv [OF assms(1)] assms(2,3) by (simp add: sys_inv_def stream_inv_def)

text \<open>
  C20. Data meant for one host never reaches the next: what waits on an endpoint was stored by a call that
  began after the last reset, as long as the 32 bit counter \<open>reset_generation\<close> has not come round.
\<close>

theorem no_stale_data:
  assumes "sys_reachable a s" and "resets s < 2 ^ 32" and "0 < i" and "i < 16" and "unread (dv s) i \<noteq> []"
  shows "origin s i = resets s"
  using sys_reachable_inv [OF assms(1)] assms(2-) by (simp add: sys_inv_def generation_inv_def)

text \<open>
  C24. Stopping the server releases every thread: none is asleep in \<open>usbip_device_transmit\<close>, and one that was
  woken returns false and leaves the device alone.
\<close>

theorem stop_releases_threads:
  assumes "sys_reachable a s" and "device_stopped (dv s)"
  shows "case calls s t of Blocked c \<Rightarrow> False
    | Woken c \<Rightarrow> attempt_call True c (dv s) = Done (Tr_return False, dv s)
    | _ \<Rightarrow> True"
proof -
  have "calls_inv s" "wf_device (dv s)" using sys_reachable_inv [OF assms(1)] by (simp_all add: sys_inv_def)
  then show ?thesis using assms(2) transmit_attempt_cases(2) [of "dv s"]
    by (fastforce simp: calls_inv_iff rightly_blocked_def call_ok_def split: call.splits)
qed

section \<open>A run\<close>

text \<open>
  The host asks for 64 bytes of endpoint 1, which is empty. Thread 0 transmits one byte there and has not
  written the event yet, thread 1 transmits as well and has to wait; in the end the server stops.
\<close>

definition perform :: "nat \<Rightarrow> transmit_call \<Rightarrow> 'd system \<Rightarrow> 'd system" where
  "perform t c s = (case attempt_call True c (dv s) of Done (r, d) \<Rightarrow> attempted t c r d s | _ \<Rightarrow> s)"

definition run_call :: transmit_call where
  "run_call = \<lparr>tc_ep = 1, tc_data = [7], tc_length = 1, tc_generation = 0, tc_start = 0\<rparr>"

definition run_waiting :: "unit system" where
  "run_waiting = (init_system ())\<lparr>queue := [(1, 64)]\<rparr>"

definition run_stored :: "unit system" where
  "run_stored = perform 0 run_call run_waiting"

definition run_blocked :: "unit system" where
  "run_blocked = perform 1 run_call run_stored"

definition run_stopped :: "unit system" where
  "run_stopped = broadcast (forget (run_blocked\<lparr>dv := usbip_device_stop (dv run_blocked), phase := Halted\<rparr>))"

lemma ep_index_1 [simp]: "ep_index 1 = 1"
  by code_simp

lemma init_system_simps [simp]:
  "dv (init_system a) = init_device a" "calls (init_system a) = (\<lambda>_. Idle)" "queue (init_system a) = []"
  "phase (init_system a) = Waiting" "resets (init_system a) = 0" "timed (init_system a) = False"
  "may_wait (threads (init_system a) t)" "receive_lock (init_system a) = None"
  by (simp_all add: init_system_def may_wait_def)

lemma fetch_nothing:
  "usbip_device_fetch_ep_data 1 (replicate 512 0) 64 (init_device ()) = Done (0, replicate 512 0, init_device ())"
  by code_simp

lemma run_waiting_reachable: "sys_reachable () run_waiting"
proof -
  let ?s = "init_system () :: unit system"
  let ?p = "?s\<lparr>phase := Processing\<rparr>"
  let ?q = "?p\<lparr>queue := [(1, 64)]\<rparr>"
  let ?c = "?q\<lparr>dv := usbip_device_clear_event (dv ?q), phase := Completing 0, timed := False\<rparr>"
  have e: "usbip_device_clear_event (init_device ()) = init_device ()"
    by (simp add: usbip_device_clear_event_def init_device_def)
  have "sys_reachable () ?p" by (rule sys_reachable.step [OF sys_reachable.start sys_step.poll]) simp
  then have "sys_reachable () ?q"
    by (rule sys_reachable.step) (use sys_step.submit [of ?p 1 64] in simp)
  then have c: "sys_reachable () ?c" by (rule sys_reachable.step [OF _ sys_step.clear_event]) simp
  let ?f = "after_fetch 1 [] (init_device ()) ?c"
  have "sys_step ?c (?f\<lparr>phase := Completing 1\<rparr>)"
    using sys_step.complete [of ?c 0 1 64 "replicate 512 0" 0 "replicate 512 0" "init_device ()" ?f]
    by (simp add: e fetch_nothing)
  from sys_reachable.step [OF c this] have "sys_reachable () (?f\<lparr>phase := Completing 1\<rparr>)" .
  then have "sys_reachable () (?f\<lparr>phase := Completing 1, phase := Waiting\<rparr>)"
    by (rule sys_reachable.step [OF _ sys_step.all_checked [where i = 1]]) simp_all
  moreover have "?f\<lparr>phase := Completing 1, phase := Waiting\<rparr> = run_waiting"
    by (simp add: run_waiting_def after_fetch_def broadcast_def e Let_def init_system_def fun_eq_iff)
  ultimately show ?thesis by simp
qed

lemma perform_reachable:
  assumes "sys_reachable a s" and "calls s t = Idle" and "tc_length c \<le> length (tc_data c)"
    and "tc_generation c = reset_generation (dv s)" and "tc_start c = resets s" and "may_wait (threads s t)"
  shows "sys_reachable a (perform t c s)"
proof -
  have "sys_step s (attempted t c r d s)" if "attempt_call True c (dv s) = Done (r, d)" for r d
    using sys_step.begin_call [OF assms(2-5)] assms(6) that by simp
  then show ?thesis using assms(1)
    by (auto simp: perform_def split: res.splits intro: sys_reachable.step)
qed

lemma run_stored_reachable: "sys_reachable () run_stored"
  unfolding run_stored_def
  by (rule perform_reachable [OF run_waiting_reachable]) (simp_all add: run_waiting_def run_call_def init_device_def)

text \<open>A call that finds its endpoint empty stores its data, one that finds data waits.\<close>

lemma perform_stores:
  assumes inv: "sys_inv s" and c: "tc_length c \<le> length (tc_data c)" "tc_generation c = reset_generation (dv s)"
    and empty: "unread (dv s) (ep_index (tc_ep c)) = []" and "\<not> device_stopped (dv s)"
  obtains d where "perform t c s = attempted t c (Tr_return True) d s"
    "unread d = (unread (dv s))(ep_index (tc_ep c) := take (cut_length (tc_length c)) (tc_data c))"
    "device_stopped d = device_stopped (dv s)" "reset_generation d = reset_generation (dv s)"
proof -
  have wf: "wf_device (dv s)" using inv by (simp add: sys_inv_def)
  have "cut_length (tc_length c) \<le> length (tc_data c)" using c by simp
  from transmit_attempt_spec [OF wf this, where may_wait = True and g = "tc_generation c" and ep = "tc_ep c"]
  obtain r d where a: "attempt_call True c (dv s) = Done (r, d)" "r = Tr_return True"
    "unread d = (unread (dv s))(ep_index (tc_ep c) := take (cut_length (tc_length c)) (tc_data c))"
    "device_stopped d = device_stopped (dv s)" "reset_generation d = reset_generation (dv s)"
    using assms by (cases "attempt_call True c (dv s)") auto
  then show ?thesis by (intro that [of d]) (simp_all add: perform_def)
qed

lemma perform_waits:
  assumes "sys_inv s" and "tc_length c \<le> length (tc_data c)" and "0 < ep_index (tc_ep c)"
    and "unread (dv s) (ep_index (tc_ep c)) \<noteq> []" and "\<not> device_stopped (dv s)"
  shows "perform t c s = s\<lparr>calls := (calls s)(t := Blocked c)\<rparr>"
proof -
  have wf: "wf_device (dv s)" using assms(1) by (simp add: sys_inv_def)
  have "cut_length (tc_length c) \<le> length (tc_data c)" using assms(2) by simp
  from transmit_attempt_cases(1) [OF wf this refl] assms show ?thesis
    by (simp add: perform_def attempted_def Let_def)
qed

lemma run_stored_simps:
  "calls run_stored = (\<lambda>_. Idle)(0 := Stored 1)" "unread (dv run_stored) 1 = [7]"
  "\<not> device_stopped (dv run_stored)" "queue run_stored = [(1, 64)]" "phase run_stored = Waiting"
  "resets run_stored = 0" "reset_generation (dv run_stored) = 0" "may_wait (threads run_stored t)"
  "receive_lock run_stored = None"
proof -
  have i: "unread (init_device ()) 1 = []" "\<not> device_stopped (init_device ())" "reset_generation (init_device ()) = 0"
    by code_simp+
  obtain d where d: "run_stored = attempted 0 run_call (Tr_return True) d run_waiting"
    "unread d = (unread (dv run_waiting))(ep_index (tc_ep run_call) := take (cut_length (tc_length run_call)) (tc_data run_call))"
    "device_stopped d = device_stopped (dv run_waiting)" "reset_generation d = reset_generation (dv run_waiting)"
    unfolding run_stored_def
    by (rule perform_stores [OF sys_reachable_inv [OF run_waiting_reachable], of run_call 0])
       (use i in \<open>simp_all add: run_waiting_def run_call_def\<close>)
  show "calls run_stored = (\<lambda>_. Idle)(0 := Stored 1)" "unread (dv run_stored) 1 = [7]"
    "\<not> device_stopped (dv run_stored)" "queue run_stored = [(1, 64)]" "phase run_stored = Waiting"
    "resets run_stored = 0" "reset_generation (dv run_stored) = 0" "may_wait (threads run_stored t)"
    "receive_lock run_stored = None"
    using i d(2-) by (simp_all add: d(1) attempted_def Let_def run_call_def run_waiting_def)
qed

lemma run_blocked_simps: "run_blocked = run_stored\<lparr>calls := (\<lambda>_. Idle)(0 := Stored 1, 1 := Blocked run_call)\<rparr>"
  unfolding run_blocked_def
  by (subst perform_waits [OF sys_reachable_inv [OF run_stored_reachable]])
     (use run_stored_simps(2) in \<open>simp_all add: run_stored_simps run_call_def\<close>)

lemma run_blocked_reachable: "sys_reachable () run_blocked"
  unfolding run_blocked_def
  by (rule perform_reachable [OF run_stored_reachable]) (simp_all add: run_stored_simps run_call_def)

lemma run_stopped_reachable: "sys_reachable () run_stopped"
  unfolding run_stopped_def
  by (rule sys_reachable.step [OF run_blocked_reachable sys_step.stop])
     (simp add: run_blocked_simps run_stored_simps)

text \<open>Thread 2 enters a critical section while thread 1 waits.\<close>

definition run_critical :: "unit system" where
  "run_critical = the (usbip_device_critical_section_enter 2 run_blocked)"

theorem lock_holder_never_waits_witness:
  "receive_lock run_critical = Some 2 \<and>
   attempt_call (may_wait (threads run_critical 2)) run_call (dv run_critical) \<noteq> Done (Tr_wait, dv run_critical)"
proof -
  have e: "usbip_device_critical_section_enter 2 run_blocked = Some run_critical"
    by (simp add: run_critical_def usbip_device_critical_section_enter_def run_blocked_simps run_stored_simps)
  have "sys_reachable () run_critical"
    by (rule sys_reachable.step [OF run_blocked_reachable sys_step.enter [OF _ e]]) (simp add: run_blocked_simps)
  moreover have l: "receive_lock run_critical = Some 2"
    by (simp add: run_critical_def usbip_device_critical_section_enter_def run_blocked_simps run_stored_simps)
  ultimately show ?thesis using lock_holder_never_waits [of "()" run_critical 2] by blast
qed

theorem no_lost_broadcast_witness:
  "calls run_blocked 1 = Blocked run_call \<and> unread (dv run_blocked) 1 \<noteq> []"
  using no_lost_broadcast [OF run_blocked_reachable, of 1 run_call]
  by (simp add: run_blocked_simps run_call_def)

theorem no_lost_wakeup_witness:
  "ep_data_event (dv run_stored) > 0 \<or> timed run_stored \<or> (\<exists>t e. calls run_stored t = Stored e \<and> ep_index e = 1)"
  using no_lost_wakeup [OF run_stored_reachable, of 1 64] run_stored_simps(2) by (simp add: run_stored_simps(4,5))

theorem transmitted_stream_witness: "fetched run_stored 1 @ [7] = staged run_stored 1"
  using transmitted_stream [OF run_stored_reachable, of 1] run_stored_simps(2) by simp

theorem no_stale_data_witness: "origin run_stored 1 = resets run_stored"
  using no_stale_data [OF run_stored_reachable, of 1] run_stored_simps(2) by (simp add: run_stored_simps(6))

theorem stop_releases_threads_witness:
  "calls run_stopped 1 = Woken run_call \<and>
   attempt_call True run_call (dv run_stopped) = Done (Tr_return False, dv run_stopped)"
proof -
  have c: "calls run_stopped 1 = Woken run_call" "device_stopped (dv run_stopped)"
    by (simp_all add: run_stopped_def broadcast_calls forget_def run_blocked_simps usbip_device_stop_def clear_endpoint_data_def)
  then show ?thesis using stop_releases_threads [OF run_stopped_reachable c(2), of 1] by simp
qed

end
