(* ===== verification/Simulation.thy ===== *)
theory Simulation
  imports Concurrency Usb_Bulk
begin

text \<open>
  The server thread of the concurrent system is the server's code: one pass of
  \<open>usbip_protocol_process_imported_device\<close> (\<open>src/lib/usbip_protocol.c\<close>) that receives no command is a
  run of steps of \<open>sys_step\<close>, on the same device and with the pending transfers of the queue.
\<close>

section \<open>The relation between the two\<close>

text \<open>The transfers that wait for data of an endpoint, as the system has them.\<close>

definition waiting :: "pending_urb_t list \<Rightarrow> (u8 \<times> nat) list" where
  "waiting urbs = map (\<lambda>urb. (ucast (ur_ep urb), unat (ur_transfer_buffer_length urb)))
     (filter (\<lambda>urb. \<not> ur_isochronous urb) urbs)"

definition matches :: "'d srv \<Rightarrow> 'd system \<Rightarrow> bool" where
  "matches s sys \<longleftrightarrow> dv sys = dev s \<and> queue sys = waiting (pend s)"

text \<open>
  The isochronous callback and the reset callback of a program keep to its own variables: they do not
  call \<open>usbip_device_transmit\<close>.
\<close>

definition keeps_to_app :: "'d usbip_device_t \<Rightarrow> bool" where
  "keeps_to_app ud \<longleftrightarrow>
     (\<forall>ep m d len bytes d'. usbip_device_iso_in ud ep m d = Done (len, bytes, d') \<longrightarrow> (\<exists>a. d' = d\<lparr>app := a\<rparr>)) \<and>
     (\<forall>callback d d'. reset_callback ud = Some callback \<longrightarrow> callback d = Done d' \<longrightarrow> (\<exists>a. d' = d\<lparr>app := a\<rparr>))"

lemma waiting_simps [simp]: "waiting [] = []" "waiting (xs @ ys) = waiting xs @ waiting ys"
  "waiting (urb # urbs) =
     (if ur_isochronous urb then waiting urbs
      else (ucast (ur_ep urb), unat (ur_transfer_buffer_length urb)) # waiting urbs)"
  by (simp_all add: waiting_def)

lemma waiting_take_Suc:
  assumes "i < length urbs"
  shows "waiting (take (i + 1) urbs) = waiting (take i urbs) @ waiting [urbs ! i]"
  using assms by (simp add: take_Suc_conv_app_nth)

lemma waiting_nth:
  assumes "i < length urbs" and "\<not> ur_isochronous (urbs ! i)"
  defines "k \<equiv> length (waiting (take i urbs))"
  shows "k < length (waiting urbs)"
    "waiting urbs ! k = (ucast (ur_ep (urbs ! i)), unat (ur_transfer_buffer_length (urbs ! i)))"
    "waiting (drop_nth i urbs) = drop_nth k (waiting urbs)"
proof -
  have "waiting urbs = waiting (take i urbs) @
      (ucast (ur_ep (urbs ! i)), unat (ur_transfer_buffer_length (urbs ! i))) # waiting (drop (Suc i) urbs)"
    using assms(2) arg_cong [OF id_take_nth_drop [OF assms(1)], of waiting] by simp
  then show "k < length (waiting urbs)"
    "waiting urbs ! k = (ucast (ur_ep (urbs ! i)), unat (ur_transfer_buffer_length (urbs ! i)))"
    "waiting (drop_nth i urbs) = drop_nth k (waiting urbs)"
    by (simp_all add: k_def drop_nth_def)
qed

lemma waiting_iso:
  assumes "i < length urbs" and "ur_isochronous (urbs ! i)"
  shows "waiting (drop_nth i urbs) = waiting urbs"
  using assms(2) arg_cong [OF id_take_nth_drop [OF assms(1)], of waiting] by (simp add: drop_nth_def)

section \<open>One round of the loop\<close>

lemma transmit_iso_app:
  assumes "keeps_to_app ud" and "transmit_iso_ret_submit ud urb s = Done (st, s')"
  shows "\<exists>a. dev s' = (dev s)\<lparr>app := a\<rparr>"
proof -
  have loop: "iso_packets_loop ud urb packets t s = Done (ds, t', s1) \<Longrightarrow> \<exists>a. dev s1 = (dev s)\<lparr>app := a\<rparr>"
    for packets t ds t' s1
  proof (induction packets arbitrary: t s ds t')
    case Nil
    then show ?case by (auto intro: exI [of _ "app (dev s)"])
  next
    case (Cons p ps)
    then obtain k s2 ds2 where 1: "iso_packet_in ud urb p t s = Done (k, s2)"
      and 2: "iso_packets_loop ud urb ps (t + k) s2 = Done (ds2, t', s1)"
      by (auto simp: res_simps)
    have "\<exists>a. dev s2 = (dev s)\<lparr>app := a\<rparr>"
      using 1 assms(1) by (fastforce simp: iso_packet_in_def keeps_to_app_def res_simps Let_def split: if_splits
        intro: exI [of _ "app (dev s)"])
    then show ?case using Cons.IH [OF 2] by auto
  qed
  obtain packets ds len s1 where
    1: "iso_packets_loop ud urb packets 0 s = Done (ds, len, s1)"
    and 2: "transmit_iso_reply urb ds len s1 = Done (st, s')"
    using assms(2) by (auto simp: transmit_iso_ret_submit_def res_simps)
  show ?thesis using loop [OF 1] transmit_iso_reply_frame [OF 2] by auto
qed

text \<open>Where the system is when the loop is at \<open>idx\<close>.\<close>

definition at_round :: "nat \<Rightarrow> 'd srv \<Rightarrow> 'd system \<Rightarrow> bool" where
  "at_round idx s sys \<longleftrightarrow> matches s sys \<and> phase sys = Completing (length (waiting (take idx (pend s))))"

definition reaches :: "'d system \<Rightarrow> bool \<times> 'd srv \<Rightarrow> bool" where
  "reaches sys r \<longleftrightarrow> (\<exists>sys'. sys_step\<^sup>*\<^sup>* sys sys' \<and> dv sys' = dev (snd r) \<and> phase sys' \<noteq> Halted \<and>
     (fst r \<longrightarrow> phase sys' = Waiting \<and> matches (snd r) sys'))"

lemma reaches_step: "sys_step sys sys1 \<Longrightarrow> reaches sys1 r \<Longrightarrow> reaches sys r"
  unfolding reaches_def by (meson converse_rtranclp_into_rtranclp)

lemma at_round_simps:
  assumes "at_round idx s sys" and "idx < length (pend s)"
  shows "\<not> ur_isochronous (pend s ! idx) \<Longrightarrow> at_round (idx + 1) s (sys\<lparr>phase := Completing (length (waiting (take idx (pend s))) + 1), timed := b\<rparr>)"
    "ur_isochronous (pend s ! idx) \<Longrightarrow> at_round (idx + 1) s sys"
  using assms by (simp_all add: at_round_def matches_def waiting_take_Suc [unfolded Suc_eq_plus1 [symmetric]])

lemma at_round_same: "dev s' = dev s \<Longrightarrow> pend s' = pend s \<Longrightarrow> at_round idx s' sys = at_round idx s sys"
  by (simp add: at_round_def matches_def)

lemma remove_pending_urb_dev: "remove_pending_urb idx s = Done s' \<Longrightarrow> dev s' = dev s"
  by (auto simp: remove_pending_urb_def Let_def res_simps split: if_splits)

text \<open>A fetch of the loop is a step \<open>complete\<close>.\<close>

lemma fetch_step:
  assumes at: "at_round idx s sys" and i: "idx < length (pend s)" "urb = pend s ! idx" "\<not> ur_isochronous urb"
    and tx: "512 \<le> length (tx_buffer s)"
    and f: "usbip_device_fetch_ep_data (ucast (ur_ep urb)) (tx_buffer s) (unat (ur_transfer_buffer_length urb)) (dev s) =
      Done (len, tx, d)"
  shows "0 < len \<Longrightarrow> \<exists>sys1. sys_step sys sys1 \<and> dv sys1 = d \<and> phase sys1 \<noteq> Halted \<and>
      (\<forall>s1. dev s1 = d \<longrightarrow> pend s1 = drop_nth idx (pend s) \<longrightarrow> at_round idx s1 sys1)"
    "len = 0 \<Longrightarrow> \<exists>sys1. sys_step sys sys1 \<and> at_round (idx + 1) (s\<lparr>tx_buffer := tx, dev := d\<rparr>) sys1"
proof -
  let ?k = "length (waiting (take idx (pend s)))"
  let ?s = "after_fetch (ep_index (ucast (ur_ep urb))) (take len tx) d sys"
  note w = waiting_nth [OF i(1) i(3) [unfolded i(2)]]
  have a: "phase sys = Completing ?k" "queue sys = waiting (pend s)" "dv sys = dev s"
    using at by (simp_all add: at_round_def matches_def)
  have step: "sys_step sys (if len > 0 then ?s\<lparr>queue := drop_nth ?k (queue sys)\<rparr> else ?s\<lparr>phase := Completing (?k + 1)\<rparr>)"
    by (rule sys_step.complete [OF a(1) _ _ tx _ refl]) (use w a(2,3) f i(2) in simp_all)
  show "\<exists>sys1. sys_step sys sys1 \<and> dv sys1 = d \<and> phase sys1 \<noteq> Halted \<and>
      (\<forall>s1. dev s1 = d \<longrightarrow> pend s1 = drop_nth idx (pend s) \<longrightarrow> at_round idx s1 sys1)" if "0 < len"
    using step that a i(1) w(3)
    by (intro exI [of _ "?s\<lparr>queue := drop_nth ?k (queue sys)\<rparr>"]) (auto simp: at_round_def matches_def take_drop_nth)
  show "\<exists>sys1. sys_step sys sys1 \<and> at_round (idx + 1) (s\<lparr>tx_buffer := tx, dev := d\<rparr>) sys1" if "len = 0"
    using step that a i
    by (intro exI [of _ "?s\<lparr>phase := Completing (?k + 1)\<rparr>"])
       (auto simp: at_round_def matches_def waiting_take_Suc [unfolded Suc_eq_plus1 [symmetric]])
qed

lemma iso_step:
  assumes at: "at_round idx s sys" and i: "idx < length (pend s)" "ur_isochronous (pend s ! idx)"
    and d: "dev s2 = (dev s)\<lparr>app := a\<rparr>"
  shows "sys_step sys (sys\<lparr>dv := (dv sys)\<lparr>app := a\<rparr>\<rparr>)"
    "pend s2 = drop_nth idx (pend s) \<Longrightarrow> at_round idx s2 (sys\<lparr>dv := (dv sys)\<lparr>app := a\<rparr>\<rparr>)"
proof -
  show "sys_step sys (sys\<lparr>dv := (dv sys)\<lparr>app := a\<rparr>\<rparr>)" by (rule sys_step.application)
  show "at_round idx s2 (sys\<lparr>dv := (dv sys)\<lparr>app := a\<rparr>\<rparr>)" if "pend s2 = drop_nth idx (pend s)"
    using at d i that waiting_iso [OF i] by (simp add: at_round_def matches_def take_drop_nth)
qed

section \<open>The loop\<close>

context device_program
begin

lemma rounds_simulated:
  "rounds ud now idx s r \<Longrightarrow> wf_srv I s \<Longrightarrow> keeps_to_app ud \<Longrightarrow> at_round idx s sys \<Longrightarrow> reaches sys r"
proof (induction arbitrary: sys rule: rounds.induct)
  case (finish idx s)
  let ?sys = "sys\<lparr>phase := Waiting\<rparr>"
  have "length (pend s) \<le> idx" using finish by (simp add: wf_srv_def length_pend)
  then have "sys_step sys ?sys" "matches s ?sys"
    using finish.prems(3) by (auto simp: at_round_def matches_def intro!: sys_step.all_checked)
  then show ?case by (intro reaches_step [of sys ?sys]) (auto simp: reaches_def matches_def)
next
  case (wait idx s urb r)
  let ?k = "length (waiting (take idx (pend s)))"
  let ?s = "shorten_wait (due_us s urb - now) s"
  have i: "idx < length (pend s)" using wait by (simp add: wf_srv_def length_pend)
  have "wf_srv I ?s"
    using wait.hyps wait.prems step_post_shorter_wait [of False I s "due_us s urb - now"] by (auto simp: step_post_def word_gt_0)
  note IH = wait.IH [OF this wait.prems(2)]
  show ?case
  proof (cases "ur_isochronous urb")
    case True
    then have "at_round (idx + 1) ?s sys"
      using at_round_simps(2) [OF wait.prems(3) i] wait.hyps(2) at_round_same [of ?s s] by simp
    then show ?thesis by (rule IH)
  next
    case False
    let ?sys = "sys\<lparr>phase := Completing (?k + 1), timed := True\<rparr>"
    have "at_round (idx + 1) ?s ?sys"
      using at_round_simps(1) [OF wait.prems(3) i] False wait.hyps(2) at_round_same [of ?s s] by simp
    moreover have "sys_step sys ?sys"
      by (rule sys_step.not_due)
         (use waiting_nth(1) [OF i] False wait.hyps(2) wait.prems(3) in \<open>simp_all add: at_round_def matches_def\<close>)
    ultimately show ?thesis by (blast intro: reaches_step IH)
  qed
next
  case (iso idx s urb s1 s2 r)
  have i: "idx < length (pend s)" using iso by (simp add: wf_srv_def length_pend)
  obtain msg where "completed I (iso_quiet ud) now idx msg s s2"
    using iso_completed [OF iso.prems(1) iso.hyps(1,2,4,5,6)] by blast
  then have c: "wf_srv I s2" "pend s2 = drop_nth idx (pend s)" by (simp_all add: completed_def)
  obtain a where a: "dev s2 = (dev s)\<lparr>app := a\<rparr>"
    using transmit_iso_app [OF iso.prems(2) iso.hyps(5)] remove_pending_urb_dev [OF iso.hyps(6)] by auto
  note step = iso_step [OF iso.prems(3) i iso.hyps(4) [unfolded iso.hyps(2)] a]
  show ?case by (rule reaches_step [OF step(1) iso.IH [OF c(1) iso.prems(2) step(2) [OF c(2)]]])
next
  case (iso_fail idx s urb s1 s2)
  have i: "idx < length (pend s)" using iso_fail by (simp add: wf_srv_def length_pend)
  obtain a where a: "dev s2 = (dev s)\<lparr>app := a\<rparr>"
    using transmit_iso_app [OF iso_fail.prems(2) iso_fail.hyps(5)] remove_pending_urb_dev [OF iso_fail.hyps(6)] by auto
  note step = iso_step(1) [OF iso_fail.prems(3) i iso_fail.hyps(4) [unfolded iso_fail.hyps(2)] a]
  show ?case
    by (rule reaches_step [OF step]) (use iso_fail.prems(3) a in \<open>auto simp: reaches_def at_round_def matches_def\<close>)
next
  case (empty idx s urb tx d r)
  have i: "idx < length (pend s)" "512 \<le> length (tx_buffer s)" using empty by (simp_all add: wf_srv_def length_pend)
  from fetch_step(2) [OF empty.prems(3) i(1) empty.hyps(2,4) i(2) empty.hyps(5)] obtain sys1 where
    "sys_step sys sys1" "at_round (idx + 1) (s\<lparr>tx_buffer := tx, dev := d\<rparr>) sys1" by blast
  then show ?case
    using empty.IH [OF empty_fetch(1) [OF empty.prems(1) empty.hyps(5)] empty.prems(2)] by (blast intro: reaches_step)
next
  case (data idx s urb len tx d s1 s2 r)
  have i: "idx < length (pend s)" "512 \<le> length (tx_buffer s)" using data by (simp_all add: wf_srv_def length_pend)
  have c: "wf_srv I s2" "pend s2 = drop_nth idx (pend s)"
    using data_completed(1) [OF data.prems(1) data.hyps(1-8)] by (simp_all add: completed_def)
  have "dev s2 = d" using remove_pending_urb_dev [OF data.hyps(7)] transmit_ret_submit_frame [OF data.hyps(8)] by auto
  with fetch_step(1) [OF data.prems(3) i(1) data.hyps(2,4) i(2) data.hyps(5,6)] c(2) obtain sys1 where
    "sys_step sys sys1" "at_round idx s2 sys1" by blast
  then show ?case using data.IH [OF c(1) data.prems(2)] by (blast intro: reaches_step)
next
  case (data_fail idx s urb len tx d s1 s2)
  have i: "idx < length (pend s)" "512 \<le> length (tx_buffer s)" using data_fail by (simp_all add: wf_srv_def length_pend)
  have "dev s2 = d"
    using remove_pending_urb_dev [OF data_fail.hyps(7)] transmit_ret_submit_frame [OF data_fail.hyps(8)] by auto
  moreover from fetch_step(1) [OF data_fail.prems(3) i(1) data_fail.hyps(2,4) i(2) data_fail.hyps(5,6)]
  obtain sys1 where "sys_step sys sys1" "dv sys1 = d" "phase sys1 \<noteq> Halted" by blast
  ultimately show ?case by (auto intro: reaches_step simp: reaches_def)
qed

end

section \<open>A pass of the server thread\<close>

lemma at_round_start:
  assumes "matches s sys" and "phase sys = Waiting" and "pend s1 = pend s"
    and "dev s1 = usbip_device_clear_event (dev s)"
  shows "\<exists>sys1. sys_step\<^sup>*\<^sup>* sys sys1 \<and> at_round 0 s1 sys1"
proof -
  let ?p = "sys\<lparr>phase := Processing\<rparr>"
  let ?c = "?p\<lparr>dv := usbip_device_clear_event (dv ?p), phase := Completing 0, timed := False\<rparr>"
  have "sys_step sys ?p" "sys_step ?p ?c" using assms(2) by (intro sys_step.poll sys_step.clear_event; simp)+
  then have "sys_step\<^sup>*\<^sup>* sys ?c" by (meson converse_rtranclp_into_rtranclp rtranclp.rtrancl_refl)
  moreover have "at_round 0 s1 ?c" using assms by (simp add: at_round_def matches_def)
  ultimately show ?thesis by blast
qed

lemma reset_simulated:
  assumes "keeps_to_app ud" and "usbip_device_reset ud (dv sys) = Done d" and "phase sys \<noteq> Halted"
  shows "\<exists>sys'. sys_step\<^sup>*\<^sup>* sys sys' \<and> dv sys' = d \<and> queue sys' = [] \<and> phase sys' = Waiting"
proof -
  let ?r = "broadcast (forget (sys\<lparr>dv := reset_locked (dv sys), phase := Resetting, resets := resets sys + 1\<rparr>))"
  let ?e = "?r\<lparr>dv := usbip_device_clear_event (dv ?r), phase := Waiting\<rparr>"
  have "sys_step sys ?r" by (rule sys_step.reset [OF assms(3)])
  moreover have "sys_step ?r ?e" by (rule sys_step.reset_event) (simp add: forget_def)
  ultimately have e: "sys_step\<^sup>*\<^sup>* sys ?e" by (meson converse_rtranclp_into_rtranclp rtranclp.rtrancl_refl)
  have q: "queue ?e = []" "dv ?e = usbip_device_clear_event (reset_locked (dv sys))" by (simp_all add: forget_def)
  obtain a where d: "d = (dv ?e)\<lparr>app := a\<rparr>"
  proof (cases "reset_callback ud")
    case None
    then show ?thesis using assms(2) that [of "app (dv ?e)"] by (simp add: usbip_device_reset_parts forget_def)
  next
    case (Some callback)
    then show ?thesis
      using assms(1,2) that unfolding keeps_to_app_def usbip_device_reset_parts q by (simp add: Let_def) blast
  qed
  have "sys_step\<^sup>*\<^sup>* sys (?e\<lparr>dv := (dv ?e)\<lparr>app := a\<rparr>\<rparr>)"
    by (rule rtranclp.rtrancl_into_rtrancl [OF e sys_step.application])
  then show ?thesis using q(1) d by (intro exI [of _ "?e\<lparr>dv := (dv ?e)\<lparr>app := a\<rparr>\<rparr>"]) (simp add: q(2))
qed


lemma bulk_keeps_to_app: "keeps_to_app bulk_device"
proof -
  have "\<exists>a. d = d\<lparr>app := a\<rparr>" for d :: "bulk device" by (rule exI [of _ "app d"]) simp
  then show ?thesis by (auto simp: keeps_to_app_def usbip_device_iso_in_def bulk_device_def Let_def res_simps)
qed

text \<open>The event wakes the server, the client is silent, and the host has asked for data of endpoint 1.\<close>

definition event_session :: "bulk srv" where
  "event_session = bulk_session bulk_in_urb ((connected [])\<lparr>poll_script := [(1, 0)]\<rparr>)"

definition bulk_system :: "bulk system" where
  "bulk_system = (init_system init_bulk)\<lparr>dv := dev event_session, queue := [(1, 64)]\<rparr>"


end
