(* ===== verification/Usb_Keyboard.thy ===== *)
theory Usb_Keyboard
  imports Examples
begin

text \<open>
  The keyboard example, \<open>src/usb_keyboard\<close>: a HID keyboard that types a text once it is configured. The
  record \<open>keyboard\<close> holds \<open>configuration_active\<close>. The main loop waits for \<open>keyboard_take_configuration\<close> to
  give true and then transmits the reports of \<open>keyboard_type\<close> one after the other.
\<close>

section \<open>Descriptors\<close>

definition keyboard_strings :: "(u8 \<times> string option) list" where
  "keyboard_strings =
     [(1, Some ''Virtual UsbIP''), (2, Some ''Virtual HID Keyboard''), (4, Some ''ABC123''), (0, None)]"

abbreviation (input) KEYBOARD_VID :: u16 where "KEYBOARD_VID \<equiv> 0xfa00"
abbreviation (input) KEYBOARD_PID :: u16 where "KEYBOARD_PID \<equiv> 0x0003"

definition usb_keyboard_device :: "u8 list" where
  "usb_keyboard_device =
     [USB_DEVICE_DESCRIPTOR_LENGTH, USB_DESCRIPTOR_TYPE_DEVICE,
      LOBYTE USB_BCD_VERSION, HIBYTE USB_BCD_VERSION, 0x00, 0x00, 0x00, 64,
      LOBYTE KEYBOARD_VID, HIBYTE KEYBOARD_VID, LOBYTE KEYBOARD_PID, HIBYTE KEYBOARD_PID,
      LOBYTE USB_BCD_DEVICE_REL, HIBYTE USB_BCD_DEVICE_REL, 1, 2, 4, 1]"

abbreviation (input) USB_KEYBOARD_CONFIG_DESC_LENGTH :: u16 where "USB_KEYBOARD_CONFIG_DESC_LENGTH \<equiv> 34"
abbreviation (input) HID_KEYBOARD_REPORT_DESC_LENGTH :: u16 where "HID_KEYBOARD_REPORT_DESC_LENGTH \<equiv> 63"
abbreviation (input) USB_KEYBOARD_HID_EP_DATA_IN :: u8 where "USB_KEYBOARD_HID_EP_DATA_IN \<equiv> 0x81"
abbreviation (input) USB_KEYBOARD_HID_POLL_INTERVAL :: u8 where "USB_KEYBOARD_HID_POLL_INTERVAL \<equiv> 7"
abbreviation (input) KEYBOARD_HID_BCD :: u16 where "KEYBOARD_HID_BCD \<equiv> 0x111"

definition usb_keyboard_configuration :: "u8 list" where
  "usb_keyboard_configuration =
     [0x09, USB_DESCRIPTOR_TYPE_CONFIGURATION,
      LOBYTE USB_KEYBOARD_CONFIG_DESC_LENGTH, HIBYTE USB_KEYBOARD_CONFIG_DESC_LENGTH,
      0x01, 0x01, 0x00, 0xC0, 0x32,
      \<comment> \<open>keyboard interface\<close>
      0x09, USB_DESCRIPTOR_TYPE_INTERFACE, 0x00, 0x00, 0x01, 0x03, 0x01, 0x01, 0,
      \<comment> \<open>HID descriptor\<close>
      0x09, USB_DESCRIPTOR_TYPE_HID, LOBYTE KEYBOARD_HID_BCD, HIBYTE KEYBOARD_HID_BCD, 0x00, 0x01,
      USB_DESCRIPTOR_TYPE_REPORT,
      LOBYTE HID_KEYBOARD_REPORT_DESC_LENGTH, HIBYTE HID_KEYBOARD_REPORT_DESC_LENGTH,
      \<comment> \<open>endpoint\<close>
      0x07, USB_DESCRIPTOR_TYPE_ENDPOINT, USB_KEYBOARD_HID_EP_DATA_IN, 0x03, 0x08, 0x00,
      USB_KEYBOARD_HID_POLL_INTERVAL]"

definition keyboard_langid_desc :: "u8 list" where
  "keyboard_langid_desc = [4, USB_DESCRIPTOR_TYPE_STRING, LOBYTE 0x409, HIBYTE 0x409]"

definition usb_keyboard_hid_report :: "u8 list" where
  "usb_keyboard_hid_report =
     [0x05, 0x01, 0x09, 0x06, 0xA1, 0x01, 0x05, 0x07, 0x19, 0xE0, 0x29, 0xE7, 0x15, 0x00, 0x25, 0x01,
      0x75, 0x01, 0x95, 0x08, 0x81, 0x02, 0x95, 0x01, 0x75, 0x08, 0x81, 0x01, 0x95, 0x05, 0x75, 0x01,
      0x05, 0x08, 0x19, 0x01, 0x29, 0x05, 0x91, 0x02, 0x95, 0x01, 0x75, 0x03, 0x91, 0x01, 0x95, 0x06,
      0x75, 0x08, 0x15, 0x00, 0x25, 0x65, 0x05, 0x07, 0x19, 0x00, 0x29, 0x65, 0x81, 0x00, 0xC0]"

section \<open>Characters and keys\<close>

record hid_key_t =
  keycode :: u8
  modifier :: u8

abbreviation (input) MOD_LSHIFT :: u8 where "MOD_LSHIFT \<equiv> 0x02"

text \<open>The \<open>switch\<close> of \<open>ascii_to_hid\<close>: character, key code and modifier of each case.\<close>

definition ascii_switch :: "(char \<times> u8 \<times> u8) list" where
  "ascii_switch =
     [(CHR 0x0A, 0x28, 0), (CHR 0x08, 0x2A, 0), (CHR 0x09, 0x2B, 0), (CHR 0x20, 0x2C, 0),
      (CHR ''-'', 0x2D, 0), (CHR ''='', 0x2E, 0), (CHR ''['', 0x2F, 0), (CHR '']'', 0x30, 0),
      (CHR 0x5C, 0x31, 0), (CHR '';'', 0x33, 0), (CHR 0x27, 0x34, 0), (CHR 0x60, 0x35, 0),
      (CHR '','', 0x36, 0), (CHR ''.'', 0x37, 0), (CHR ''/'', 0x38, 0), (CHR ''!'', 0x1E, MOD_LSHIFT),
      (CHR ''@'', 0x1F, MOD_LSHIFT), (CHR ''#'', 0x20, MOD_LSHIFT), (CHR ''$'', 0x21, MOD_LSHIFT),
      (CHR ''%'', 0x22, MOD_LSHIFT), (CHR ''^'', 0x23, MOD_LSHIFT), (CHR ''&'', 0x24, MOD_LSHIFT),
      (CHR ''*'', 0x25, MOD_LSHIFT), (CHR ''('', 0x26, MOD_LSHIFT), (CHR '')'', 0x27, MOD_LSHIFT),
      (CHR ''_'', 0x2D, MOD_LSHIFT), (CHR ''+'', 0x2E, MOD_LSHIFT), (CHR ''{'', 0x2F, MOD_LSHIFT),
      (CHR ''}'', 0x30, MOD_LSHIFT), (CHR ''|'', 0x31, MOD_LSHIFT), (CHR '':'', 0x33, MOD_LSHIFT),
      (CHR 0x22, 0x34, MOD_LSHIFT), (CHR ''~'', 0x35, MOD_LSHIFT), (CHR ''<'', 0x36, MOD_LSHIFT),
      (CHR ''>'', 0x37, MOD_LSHIFT), (CHR ''?'', 0x38, MOD_LSHIFT)]"

definition ascii_to_hid :: "char \<Rightarrow> hid_key_t" where
  "ascii_to_hid c =
     (let n = of_char c :: u8 in
      if 97 \<le> n \<and> n \<le> 122 then \<lparr>keycode = n - 97 + 0x04, modifier = 0\<rparr>
      else if 65 \<le> n \<and> n \<le> 90 then \<lparr>keycode = n - 65 + 0x04, modifier = MOD_LSHIFT\<rparr>
      else if 49 \<le> n \<and> n \<le> 57 then \<lparr>keycode = n - 49 + 0x1E, modifier = 0\<rparr>
      else if c = CHR ''0'' then \<lparr>keycode = 0x27, modifier = 0\<rparr>
      else case map_of ascii_switch c of
        Some (k, m) \<Rightarrow> \<lparr>keycode = k, modifier = m\<rparr>
      | None \<Rightarrow> \<lparr>keycode = 0, modifier = 0\<rparr>)"

section \<open>The program\<close>

record keyboard =
  kb_configuration_active :: bool

definition init_keyboard :: keyboard where
  "init_keyboard = \<lparr>kb_configuration_active = False\<rparr>"

definition keyboard_control_data :: "u8 list \<Rightarrow> u8 list \<Rightarrow> nat \<Rightarrow> keyboard device \<Rightarrow> keyboard device res" where
  "keyboard_control_data setup data data_length d =
     (let bRequestType = setup ! 0;
          bRequest = setup ! 1
      in
      if bRequestType = 0x81 \<and> bRequest = USB_REQUEST_GET_DESCRIPTOR then
        (if setup ! 3 = USB_DESCRIPTOR_TYPE_REPORT then
           (let len = unat (le16 (setup ! 6) (setup ! 7));
                len = (if len > length usb_keyboard_hid_report then length usb_keyboard_hid_report else len)
            in bind_res (usbip_device_transmit 0 usb_keyboard_hid_report len d) (\<lambda>(stored, d). Done d))
         else Done d)
      else if bRequestType = 0x00 \<and> bRequest = USB_REQUEST_SET_CONFIGURATION then
        Done (d\<lparr>app := (app d)\<lparr>kb_configuration_active := (setup ! 2 \<noteq> 0)\<rparr>\<rparr>)
      else Done d)"

definition keyboard_device :: "keyboard usbip_device_t" where
  "keyboard_device =
     \<lparr>device_desc = usb_keyboard_device, config_desc = usb_keyboard_configuration,
      langid_desc = keyboard_langid_desc, usb_strings = Some keyboard_strings,
      control_data_callback = keyboard_control_data, ep_data_callback = None,
      reset_callback = None, iso_in_callback = None\<rparr>"

text \<open>The critical section of the main loop: is the device configured since the last look?\<close>

definition keyboard_take_configuration :: "keyboard \<Rightarrow> bool \<times> keyboard" where
  "keyboard_take_configuration a =
     (kb_configuration_active a, a\<lparr>kb_configuration_active := False\<rparr>)"

definition typing_string :: string where
  "typing_string = ''Who is typing...''"

text \<open>The reports for one character: the key goes down, then all keys are up.\<close>

definition keyboard_type :: "char \<Rightarrow> u8 list list" where
  "keyboard_type char_to_transmit =
     (let out_buffer = replicate 8 0;
          hid_key = ascii_to_hid char_to_transmit
      in [out_buffer[0 := modifier hid_key, 2 := keycode hid_key], replicate 8 0])"

section \<open>The contract of the library\<close>

interpretation keyboard_report: report_device keyboard_control_data usb_keyboard_hid_report
proof
  fix usb_setup :: "u8 list" and data n and d :: "keyboard device"
  assume "usb_setup ! 0 = 0x81" "usb_setup ! 1 = 6" "usb_setup ! 3 = 0x22"
  then show "keyboard_control_data usb_setup data n d =
      bind_res (usbip_device_transmit 0 usb_keyboard_hid_report
        (min (unat (le16 (usb_setup ! 6) (usb_setup ! 7))) (length usb_keyboard_hid_report)) d) (\<lambda>(stored, d). Done d)"
    by (simp add: keyboard_control_data_def Let_def min_def)
next
  fix usb_setup :: "u8 list" and data n and d :: "keyboard device"
  assume "\<not> (usb_setup ! 0 = 0x81 \<and> usb_setup ! 1 = 6 \<and> usb_setup ! 3 = 0x22)"
  then show "\<exists>a. keyboard_control_data usb_setup data n d = Done (d\<lparr>app := a\<rparr>)"
    by (cases "usb_setup ! 0 = 0 \<and> usb_setup ! 1 = 9") (auto simp: keyboard_control_data_def Let_def intro: exI [of _ "app d"])
qed

interpretation keyboard: served_device keyboard_device "\<lambda>_. True"
proof
  show "wf_descriptors keyboard_device" "wf_config (config_desc keyboard_device)" by code_simp+
qed (use keyboard_report.callback_returns in \<open>auto simp: keyboard_device_def dev_inv_True\<close>)

section \<open>What a host types\<close>

text \<open>
  The key of a report on a host with a US keyboard layout, from the usage tables of the HID
  specification: usage \<open>k\<close> of the keyboard page, with and without shift.
\<close>

definition us_keys :: "bool \<Rightarrow> string" where
  "us_keys shift =
     (if shift then ''ABCDEFGHIJKLMNOPQRSTUVWXYZ!@#$%^&*()'' else ''abcdefghijklmnopqrstuvwxyz1234567890'') @
     [CHR 0x0A, CHR 0x1B, CHR 0x08, CHR 0x09, CHR 0x20] @
     (if shift then ''_+{}|~:'' @ [CHR 0x22] @ ''~<>?''
      else ''-=[]'' @ [CHR 0x5C] @ ''#;'' @ [CHR 0x27, CHR 0x60] @ '',./'')"

definition us_key :: "u8 list \<Rightarrow> char option" where
  "us_key report =
     (let k = unat (report ! 2); keys = us_keys (report ! 0 AND 0x22 \<noteq> 0)
      in if 4 \<le> k \<and> k - 4 < length keys then Some (keys ! (k - 4)) else None)"

text \<open>A host types a character when a key goes down that was not down in the report before.\<close>

fun typed :: "u8 \<Rightarrow> u8 list list \<Rightarrow> char option list" where
  "typed down [] = []"
| "typed down (r # rs) = (if r ! 2 \<noteq> 0 \<and> r ! 2 \<noteq> down then [us_key r] else []) @ typed (r ! 2) rs"

definition typable :: "char \<Rightarrow> bool" where
  "typable c \<longleftrightarrow> (let n = of_char c :: nat in 32 \<le> n \<and> n \<le> 126 \<or> 8 \<le> n \<and> n \<le> 10)"

definition typable_chars :: string where
  "typable_chars =
     '' !'' @ [CHR 0x22] @ ''#$%&'' @ [CHR 0x27] @
     ''()*+,-./0123456789:;<=>?@ABCDEFGHIJKLMNOPQRSTUVWXYZ['' @ [CHR 0x5C] @ '']^_'' @ [CHR 0x60] @
     ''abcdefghijklmnopqrstuvwxyz{|}~'' @ [CHR 0x08] @ [CHR 0x09] @ [CHR 0x0A]"

lemma typable_chars: "map char_of ([32..<127] @ [8, 9, 10] :: nat list) = typable_chars"
  by code_simp

lemma typable_chars_keys:
  "list_all (\<lambda>c. us_key (hd (keyboard_type c)) = Some c \<and> hd (keyboard_type c) ! 2 \<noteq> 0) typable_chars"
  by code_simp

lemma typable_key:
  assumes "typable c"
  shows "us_key (hd (keyboard_type c)) = Some c \<and> hd (keyboard_type c) ! 2 \<noteq> 0"
proof -
  have "of_char c \<in> set ([32..<127] @ [8, 9, 10] :: nat list)"
    using assms unfolding set_append set_upt typable_def Let_def by auto
  then have "char_of (of_char c :: nat) \<in> set typable_chars"
    unfolding typable_chars [symmetric] by (simp only: set_map image_eqI [OF refl])
  then show ?thesis using typable_chars_keys unfolding list_all_iff by simp
qed

lemma keyboard_type_parts: "keyboard_type c = [hd (keyboard_type c), replicate 8 0]"
  by (simp add: keyboard_type_def Let_def)

lemma typed_keyboard_type:
  "list_all typable str \<Longrightarrow> typed 0 (concat (map keyboard_type str)) = map Some str"
proof (induction str)
  case (Cons c str)
  then have "us_key (hd (keyboard_type c)) = Some c" "hd (keyboard_type c) ! 2 \<noteq> 0"
    using typable_key by simp_all
  moreover have "replicate 8 (0 :: u8) ! 2 = 0" by simp
  ultimately have "typed 0 ([hd (keyboard_type c), replicate 8 0] @ concat (map keyboard_type str)) =
      Some c # typed 0 (concat (map keyboard_type str))" by simp
  then show ?case using Cons unfolding list.map concat.simps by (subst keyboard_type_parts) simp
qed simp

text \<open>
  What the keyboard types is what a host with a US layout reads: for every text of printable ASCII
  characters, line feeds, tabs and backspaces, the host types exactly its characters from the reports,
  repeated characters included. In particular it reads the text of the program.
\<close>

theorem keyboard_types_text:
  assumes "list_all typable str"
  shows "typed 0 (concat (map keyboard_type str)) = map Some str \<and>
     typed 0 (concat (map keyboard_type typing_string)) = map Some ''Who is typing...''"
proof -
  have "list_all typable typing_string" by code_simp
  then show ?thesis
    using assms typed_keyboard_type [of str] typed_keyboard_type [of typing_string] unfolding typing_string_def by blast
qed

theorem keyboard_types_text_witness:
  "typed 0 (concat (map keyboard_type ''A~!!'')) = map Some ''A~!!''"
proof -
  have "list_all typable ''A~!!''" by code_simp
  from keyboard_types_text [OF this] show ?thesis by simp
qed

text \<open>
  The keyboard starts to type after every \<open>SET_CONFIGURATION\<close> of the host with a configuration other
  than 0, and only then: the main loop sees the request once, and a request for configuration 0
  before it looked takes it back. The request is accepted and the library stores the value.
\<close>

theorem keyboard_configured:
  "\<exists>d'. usbip_device_control keyboard_device [0x00, 9, config, 0, 0, 0, 0, 0] data n d = Done (True, d') \<and>
     configuration_value d' = config \<and>
     fst (keyboard_take_configuration (app d')) = (config \<noteq> 0) \<and>
     \<not> fst (keyboard_take_configuration (snd (keyboard_take_configuration (app d'))))"
  by (simp add: usbip_device_control_alt device_request_def control_callback_def keyboard_device_def
      keyboard_control_data_def keyboard_take_configuration_def Let_def control_start_def)

text \<open>
  C40. The HID side of the keyboard: a host's request for the report descriptor is answered with as much
  of it as it asked for, the length announced in the HID descriptor is the length of the report
  descriptor, and every report has exactly the size the report descriptor declares and the endpoint
  carries in one packet.
\<close>

theorem keyboard_hid:
  assumes "wf_device d" and "\<not> device_stopped d"
  shows "(\<exists>d1 d2 len tx'.
       usbip_device_control keyboard_device [0x81, 6, 0, 0x22, 0, 0, lo, hi] data n d = Done (True, d1) \<and>
       usbip_device_fetch_control_reply (replicate 512 0) (unat (le16 lo hi)) d1 = Done (True, len, tx', d2) \<and>
       take len tx' = take (unat (le16 lo hi)) usb_keyboard_hid_report) \<and>
     unat (le16 (usb_keyboard_configuration ! 25) (usb_keyboard_configuration ! 26)) = length usb_keyboard_hid_report \<and>
     list_all (\<lambda>report. 8 * length report = hid_input_bits 0 0 usb_keyboard_hid_report \<and>
       length report = unat (le16 (usb_keyboard_configuration ! 31) (usb_keyboard_configuration ! 32))) (keyboard_type c)"
proof -
  have "length usb_keyboard_hid_report \<le> 512" by code_simp
  then have "\<exists>d1 d2 len tx'.
       usbip_device_control keyboard_device [0x81, 6, 0, 0x22, 0, 0, lo, hi] data n d = Done (True, d1) \<and>
       usbip_device_fetch_control_reply (replicate 512 0) (unat (le16 lo hi)) d1 = Done (True, len, tx', d2) \<and>
       take len tx' = take (unat (le16 lo hi)) usb_keyboard_hid_report"
    using keyboard_report.get_report [OF assms, of "[0x81, 6, 0, 0x22, 0, 0, lo, hi]" keyboard_device "replicate 512 0" data n]
    by (simp add: keyboard_device_def)
  moreover have "unat (le16 (usb_keyboard_configuration ! 25) (usb_keyboard_configuration ! 26)) = length usb_keyboard_hid_report"
    "hid_input_bits 0 0 usb_keyboard_hid_report = 64"
    "unat (le16 (usb_keyboard_configuration ! 31) (usb_keyboard_configuration ! 32)) = 8"
    by code_simp+
  ultimately show ?thesis by (simp add: keyboard_type_def Let_def)
qed

theorem keyboard_hid_witness:
  "\<exists>d1 d2 len tx'.
     usbip_device_control keyboard_device [0x81, 6, 0, 0x22, 0, 0, 2, 0] [] 2 (init_device init_keyboard) = Done (True, d1) \<and>
     usbip_device_fetch_control_reply (replicate 512 0) 2 d1 = Done (True, len, tx', d2) \<and> take len tx' = [0x05, 0x01]"
proof -
  have e: "unat (le16 2 0) = 2" "take 2 usb_keyboard_hid_report = [0x05, 0x01]" by code_simp+
  show ?thesis using keyboard_hid [of "init_device init_keyboard" 2 0 "[]" 2 "CHR ''a''"] unfolding e by simp
qed

end
