(* ===== verification/Endpoint_Table.thy ===== *)
theory Endpoint_Table
  imports Usb_Keyboard
begin

text \<open>
  The endpoint table of \<open>load_endpoints\<close> (\<open>src/lib/usbip_protocol.c\<close>): walking over the bytes of a
  configuration gives the same table as looking the endpoints up in the list of its descriptors, and the
  times computed from the table do not wrap around.
\<close>

section \<open>The table as a lookup in the descriptors\<close>

text \<open>
  The entry of endpoint \<open>j\<close> in direction \<open>i\<close> (1 is IN): the type is that of the last descriptor with this
  address, the interval that of the last one that is paced, in microframes of 125 microseconds.
\<close>

definition is_endpoint :: "nat \<Rightarrow> nat \<Rightarrow> u8 list \<Rightarrow> bool" where
  "is_endpoint i j desc \<longleftrightarrow> desc ! 1 = 5 \<and> (if desc ! 2 AND 0x80 \<noteq> 0 then 1 else 0) = i \<and> unat (desc ! 2 AND 0xf) = j"

definition is_paced :: "u8 list \<Rightarrow> bool" where
  "is_paced desc \<longleftrightarrow> desc ! 6 > 0 \<and>
     (desc ! 3 AND 3 = 1 \<or> desc ! 2 AND 0x80 \<noteq> 0 \<and> desc ! 3 AND 3 = 3)"

definition interval_of :: "u8 list \<Rightarrow> nat" where
  "interval_of desc = 125 * 2 ^ (min (unat (desc ! 6)) 16 - 1)"

definition endpoint_table :: "u8 list list \<Rightarrow> nat \<Rightarrow> nat \<Rightarrow> endpoint_t" where
  "endpoint_table ds i j =
     (let own = filter (is_endpoint i j) ds; timed = filter is_paced own in
      zero_endpoint\<lparr>ep_type := (if own = [] then 0 else last own ! 3 AND 3),
        interval_us := (if timed = [] then 0 else of_nat (interval_of (last timed)))\<rparr>)"

text \<open>Endpoint descriptors have the fields that are read of them.\<close>

definition endpoints_complete :: "u8 list list \<Rightarrow> bool" where
  "endpoints_complete ds \<longleftrightarrow> list_all (\<lambda>desc. desc ! 1 = 5 \<longrightarrow> 7 \<le> length desc) ds"

lemma push_bit_interval: "(push_bit (unat (if b > 16 then 16 else b) - 1) 125 :: u64) = of_nat (125 * 2 ^ (min (unat b) 16 - 1))" for b :: u8
proof -
  have "unat (if b > 16 then 16 else b) = min (unat b) 16" by (simp add: min_def word_less_nat_alt)
  then show ?thesis by (simp add: push_bit_eq_mult mult.commute)
qed

lemma load_endpoint_other: "\<not> is_endpoint i j desc \<Longrightarrow> desc ! 1 = 5 \<Longrightarrow>
    load_endpoint (desc ! 2) (desc ! 3) (desc ! 6) eps i j = eps i j"
  by (auto simp: load_endpoint_def is_endpoint_def Let_def)

lemma load_endpoint_own:
  assumes "is_endpoint i j desc"
  shows "load_endpoint (desc ! 2) (desc ! 3) (desc ! 6) eps i j =
    (if is_paced desc then (eps i j)\<lparr>ep_type := desc ! 3 AND 3, interval_us := of_nat (interval_of desc)\<rparr>
     else (eps i j)\<lparr>ep_type := desc ! 3 AND 3\<rparr>)"
  using assms push_bit_interval [of "desc ! 6"]
  by (auto simp: load_endpoint_def is_endpoint_def is_paced_def interval_of_def Let_def)

lemma endpoint_table_snoc:
  "endpoint_table (ds @ [desc]) =
     (if desc ! 1 = 5 then load_endpoint (desc ! 2) (desc ! 3) (desc ! 6) (endpoint_table ds) else endpoint_table ds)"
proof (intro ext)
  fix i j
  show "endpoint_table (ds @ [desc]) i j =
     (if desc ! 1 = 5 then load_endpoint (desc ! 2) (desc ! 3) (desc ! 6) (endpoint_table ds) else endpoint_table ds) i j"
  proof (cases "is_endpoint i j desc")
    case True
    moreover from this have "desc ! 1 = 5" by (simp add: is_endpoint_def)
    ultimately show ?thesis by (simp add: load_endpoint_own endpoint_table_def Let_def)
  next
    case False
    then show ?thesis by (simp add: load_endpoint_other endpoint_table_def)
  qed
qed

lemma short_descriptors:
  assumes "endpoints_complete ds" and "list_all is_descriptor ds" and "length (concat ds) < 7"
  shows "endpoint_table (done @ ds) = endpoint_table done"
  using assms
proof (induction ds arbitrary: "done")
  case (Cons desc ds)
  then have "desc ! 1 \<noteq> 5" by (auto simp: endpoints_complete_def)
  moreover have "endpoint_table ((done @ [desc]) @ ds) = endpoint_table (done @ [desc])"
    by (rule Cons.IH) (use Cons.prems in \<open>auto simp: endpoints_complete_def\<close>)
  ultimately show ?case by (simp add: endpoint_table_snoc)
qed simp

lemma load_endpoints_loop_table:
  assumes "config = a @ concat ds @ rest" and "list_all is_descriptor ds" and "endpoints_complete ds"
    and "total_length = length a + length (concat ds)"
  shows "load_endpoints_loop config total_length (length a) (endpoint_table done) = Done (endpoint_table (done @ ds))"
  using assms
proof (induction ds arbitrary: a "done")
  case Nil
  then show ?case by (subst load_endpoints_loop.simps) simp
next
  case (Cons desc ds)
  have d: "2 \<le> length desc" "unat (desc ! 0) = length desc" using Cons.prems(2) by (simp_all add: is_descriptor_def)
  show ?case
  proof (cases "length a + 7 \<le> total_length")
    case True
    have n: "nth_res config (length a + k) = Done (desc ! k)" if "k < length desc" for k
      using that Cons.prems(1) by (simp add: nth_append)
    have l: "0 < desc ! 0" using d by (auto simp: word_less_nat_alt)
    have "0 < length desc" "1 < length desc" using d(1) by linarith+
    note h = n [OF this(1), unfolded add_0_right] n [OF this(2)]
    have e: "(if desc ! 1 = 5 then
        bind_res (nth_res config (length a + 2)) (\<lambda>bEndpointAddress.
        bind_res (nth_res config (length a + 3)) (\<lambda>bmAttributes.
        bind_res (nth_res config (length a + 6)) (\<lambda>bInterval.
          Done (load_endpoint bEndpointAddress bmAttributes bInterval (endpoint_table done)))))
      else Done (endpoint_table done)) = Done (endpoint_table (done @ [desc]))"
    proof (cases "desc ! 1 = 5")
      case True
      then have "7 \<le> length desc" using Cons.prems(3) by (simp add: endpoints_complete_def)
      then show ?thesis using True n [of 2] n [of 3] n [of 6] by (simp add: endpoint_table_snoc del: nth_res_Done)
    qed (simp add: endpoint_table_snoc)
    have "load_endpoints_loop config total_length (length (a @ desc)) (endpoint_table (done @ [desc])) =
        Done (endpoint_table ((done @ [desc]) @ ds))"
      by (rule Cons.IH) (use Cons.prems in \<open>auto simp: endpoints_complete_def\<close>)
    then show ?thesis
      by (subst load_endpoints_loop.simps) (simp only: True l h e bind_res.simps d(2) if_True length_append append_assoc append.simps)
  next
    case False
    then have "length (concat (desc # ds)) < 7" using Cons.prems(4) by simp
    from short_descriptors [OF Cons.prems(3,2) this] False show ?thesis
      by (subst load_endpoints_loop.simps) simp
  qed
qed

text \<open>
  C18. The table of endpoints that an import fills in by walking over the bytes of the configuration is the
  one that the descriptors of the configuration define: the type of every endpoint, and the service
  interval of interrupt IN and isochronous endpoints as \<open>2 ^ (bInterval - 1)\<close> microframes.
\<close>

theorem load_endpoints_table:
  assumes "4 \<le> length config" and "unat (le16 (config ! 2) (config ! 3)) \<le> length config"
    and "config_descriptors config = Some ds" and "endpoints_complete ds"
  shows "load_endpoints config s = Done (s\<lparr>endpoints := endpoint_table ds\<rparr>)"
proof -
  let ?t = "unat (le16 (config ! 2) (config ! 3))"
  from split_descriptors_Some [OF assms(3) [unfolded config_descriptors_def]]
  have c: "concat ds = take ?t config" "list_all is_descriptor ds" by simp_all
  have "load_endpoints_loop config ?t (length ([] :: u8 list)) (endpoint_table []) = Done (endpoint_table ([] @ ds))"
    by (rule load_endpoints_loop_table [of _ _ _ "drop ?t config"]) (use c assms in simp_all)
  moreover have "endpoint_table [] = (\<lambda>_ _. zero_endpoint)"
    by (simp add: fun_eq_iff endpoint_table_def zero_endpoint_def)
  ultimately show ?thesis by (simp add: load_endpoints_def config_total_length_Done [OF assms(1)])
qed

definition fresh_srv :: "unit srv" where
  "fresh_srv = init_srv (connected []) (init_device ()) (\<lambda>_. (0, 0))"

theorem load_endpoints_table_witness:
  "\<exists>ds. load_endpoints usb_keyboard_configuration fresh_srv = Done (fresh_srv\<lparr>endpoints := endpoint_table ds\<rparr>) \<and>
     endpoint_table ds 1 1 = zero_endpoint\<lparr>ep_type := 3, interval_us := 8000\<rparr>"
proof -
  obtain ds where ds: "config_descriptors usb_keyboard_configuration = Some ds"
    using keyboard.interfaces by (auto simp: wf_config_def keyboard_device_def split: option.splits)
  have "endpoints_complete (the (config_descriptors usb_keyboard_configuration)) \<and>
    endpoint_table (the (config_descriptors usb_keyboard_configuration)) 1 1 = zero_endpoint\<lparr>ep_type := 3, interval_us := 8000\<rparr> \<and>
    4 \<le> length usb_keyboard_configuration \<and>
    unat (le16 (usb_keyboard_configuration ! 2) (usb_keyboard_configuration ! 3)) \<le> length usb_keyboard_configuration"
    by code_simp
  with load_endpoints_table [of usb_keyboard_configuration ds fresh_srv] ds show ?thesis by auto
qed

section \<open>Times\<close>

definition regular :: "endpoint_t \<Rightarrow> bool" where
  "regular e \<longleftrightarrow> interval_us e = 0 \<or> (\<exists>k \<le> 15. unat (interval_us e) = 125 * 2 ^ k)"

lemma load_endpoint_regular:
  assumes "\<forall>i j. regular (eps i j)"
  shows "regular (load_endpoint a b c eps i j)"
proof -
  have "unat (of_nat (125 * 2 ^ k) :: u64) = 125 * 2 ^ k" if "k \<le> 15" for k
    by (rule unat_of_nat_less) (use power_increasing [OF that, of "2 :: nat"] in simp)
  then have "regular (e\<lparr>interval_us := of_nat (125 * 2 ^ (min (unat c) 16 - 1))\<rparr>)" for e
    by (auto simp: regular_def intro!: exI [of _ "min (unat c) 16 - 1"])
  then show ?thesis
    using assms push_bit_interval [of c] by (simp add: load_endpoint_def Let_def) (simp add: regular_def)
qed

lemma load_endpoints_loop_regular:
  "load_endpoints_loop config t idx eps = Done eps' \<Longrightarrow> \<forall>i j. regular (eps i j) \<Longrightarrow> \<forall>i j. regular (eps' i j)"
proof (induction config t idx eps rule: load_endpoints_loop.induct)
  case (1 config t idx eps)
  show ?case
  proof (cases "idx + 7 \<le> t")
    case True
    with "1.prems"(1) obtain b where b: "nth_res config idx = Done b"
      by (subst (asm) load_endpoints_loop.simps) (auto simp: bind_res_Done_iff)
    show ?thesis
    proof (cases "b > 0")
      case pos: True
      with True b "1.prems"(1) obtain y eps1 where
        y: "nth_res config (idx + 1) = Done y"
        "(if y = 5 then bind_res (nth_res config (idx + 2)) (\<lambda>bEndpointAddress.
                 bind_res (nth_res config (idx + 3)) (\<lambda>bmAttributes.
                 bind_res (nth_res config (idx + 6)) (\<lambda>bInterval.
                   Done (load_endpoint bEndpointAddress bmAttributes bInterval eps))))
               else Done eps) = Done eps1" "load_endpoints_loop config t (idx + unat b) eps1 = Done eps'"
        by (subst (asm) load_endpoints_loop.simps) (auto simp: bind_res_Done_iff)
      have "\<forall>i j. regular (eps1 i j)"
        using y(2) "1.prems"(2) by (auto simp: bind_res_Done_iff load_endpoint_regular split: if_splits)
      with "1.IH" [OF True b pos y] show ?thesis by blast
    next
      case False
      then show ?thesis using "1.prems" True b by (subst (asm) load_endpoints_loop.simps) simp
    qed
  next
    case False
    then show ?thesis using "1.prems" by (subst (asm) load_endpoints_loop.simps) simp
  qed
qed

lemma regular_bound: "regular e \<Longrightarrow> unat (interval_us e) \<le> 4096000"
proof -
  have "125 * 2 ^ k \<le> (4096000 :: nat)" if "k \<le> 15" for k :: nat
    using power_increasing [OF that, of "2 :: nat"] by simp
  then show "regular e \<Longrightarrow> ?thesis" by (auto simp: regular_def)
qed

text \<open>
  C19. Times do not wrap around. Whatever configuration a device has, the service interval of an endpoint is
  0 or between 125 microseconds and 4.096 seconds, so that the next poll and the end of an isochronous
  transfer of up to 128 packets, computed in 64 bits, are the sums they stand for, as long as the clock
  and the end of the stream are below \<open>2 ^ 63\<close> microseconds.
\<close>

theorem endpoint_times:
  assumes "load_endpoints config s = Done s'" and "e = endpoints s' i j"
    and "unat now < 2 ^ 63" and "unat stream_end < 2 ^ 63" and "unat packets \<le> 128"
  shows "(interval_us e = 0 \<or> 125 \<le> unat (interval_us e)) \<and> unat (interval_us e) \<le> 4096000 \<and>
     unat (now + interval_us e) = unat now + unat (interval_us e) \<and>
     unat (iso_complete_us packets (e\<lparr>stream_end_us := stream_end\<rparr>) now) =
       max (unat stream_end) (unat now) + unat packets * unat (interval_us e)"
proof -
  obtain t eps where "load_endpoints_loop config t 0 (\<lambda>_ _. zero_endpoint) = Done eps" "s' = s\<lparr>endpoints := eps\<rparr>"
    using assms(1) by (auto simp: load_endpoints_def bind_res_Done_iff)
  moreover have "\<forall>i j. regular zero_endpoint" by (simp add: regular_def zero_endpoint_def)
  ultimately have r: "regular e" using load_endpoints_loop_regular assms(2) by fastforce
  note b = regular_bound [OF r]
  have low: "interval_us e = 0 \<or> 125 \<le> unat (interval_us e)" using r by (auto simp: regular_def)
  have add: "unat (x + y) = unat x + unat y" if "unat x < 2 ^ 63" "unat y \<le> 128 * 4096000" for x y :: u64
    by (rule unat_add_lem [THEN iffD1]) (use that in simp)
  have "unat (ucast packets :: u64) = unat packets" using assms(5) by (simp add: unsigned_ucast_eq take_bit_nat_eq_self)
  then have m: "unat (ucast packets * interval_us e) = unat packets * unat (interval_us e)"
    using mult_le_mono [OF assms(5) b] by (simp add: unat_mult_lem [THEN iffD1])
  have p: "unat (ucast packets * interval_us e) \<le> 128 * 4096000"
    unfolding m by (rule mult_le_mono [OF assms(5) b])
  have "unat (iso_complete_us packets (e\<lparr>stream_end_us := stream_end\<rparr>) now) =
      max (unat stream_end) (unat now) + unat packets * unat (interval_us e)"
    using add [OF assms(3) p] add [OF assms(4) p]
    by (auto simp: iso_complete_us_def Let_def m word_less_nat_alt max_def)
  then show ?thesis using low b add [OF assms(3)] by simp
qed

theorem endpoint_times_witness:
  "\<exists>s'. load_endpoints usb_keyboard_configuration fresh_srv = Done s' \<and>
     unat (iso_complete_us 2 ((endpoints s' 1 1)\<lparr>stream_end_us := 7\<rparr>) 5) = 7 + 2 * unat (interval_us (endpoints s' 1 1))"
proof -
  have "4 \<le> length usb_keyboard_configuration \<and>
    unat (le16 (usb_keyboard_configuration ! 2) (usb_keyboard_configuration ! 3)) \<le> length usb_keyboard_configuration"
    by code_simp
  then obtain s' where l: "load_endpoints usb_keyboard_configuration fresh_srv = Done s'"
    using load_endpoints_returns [of usb_keyboard_configuration fresh_srv] by (auto simp: returns_iff)
  from endpoint_times [OF l refl, where now = 5 and stream_end = 7 and packets = 2] l show ?thesis by auto
qed

end
