(* ===== verification/Attach.thy ===== *)
theory Attach
  imports Usb_Bulk
begin

text \<open>
  Listing and attaching the device: what \<open>usbip_protocol_process_cmd\<close> (\<open>src/lib/usbip_protocol.c\<close>)
  answers to each request of a client, on a connection that takes the answer.
\<close>

section \<open>Requests\<close>

definition op_req_message :: "u16 \<Rightarrow> u16 \<Rightarrow> u8 list \<Rightarrow> u8 list" where
  "op_req_message version code status = be_bytes16 version @ be_bytes16 code @ status"

lemma op_req_message_parse:
  "length status = 4 \<Longrightarrow> rq_version (op_req_head_of (op_req_message v c status)) = SWAP16 v \<and>
   rq_command_code (op_req_head_of (op_req_message v c status)) = SWAP16 c"
  by (cases status rule: list.exhaust)
     (simp_all add: op_req_head_of_def op_req_message_def flip: le_bytes_SWAP)

lemma length_op_req_message: "length status = 4 \<Longrightarrow> length (op_req_message v c status) = 8"
  by (simp add: op_req_message_def be_bytes16_def)

section \<open>A connection that takes the answer\<close>

lemma srv_read_open:
  "srv_read k s = Done (True, bs, s\<lparr>net := n\<rparr>) \<Longrightarrow> takes_all (net s) \<Longrightarrow> takes_all n"
  by (auto simp: srv_read_def tcpip_server_read_def takes_all_def res_simps dest!: read_loop_True arg_cong [where f = net])

lemma transmit_device_open:
  "transmit_device ud s = Done (st, s') \<Longrightarrow> takes_all (net s) \<Longrightarrow> st \<and> takes_all (net s')"
  by (auto simp: transmit_device_def srv_write_open res_simps)

lemma transmit_interfaces_open:
  "transmit_interfaces ud k i (True, s) = Done (st, s') \<Longrightarrow> takes_all (net s) \<Longrightarrow> st"
proof (induction k arbitrary: i s)
  case (Suc k)
  from Suc.prems obtain j n where "transmit_interfaces ud k j (True, s\<lparr>net := n\<rparr>) = Done (st, s')" "takes_all n"
    by (auto simp: srv_write_open res_simps Let_def)
  then show ?case by (intro Suc.IH [of j "s\<lparr>net := n\<rparr>"]) simp_all
qed simp

lemma transmit_import_response_open:
  "transmit_import_response ud s = Done (st, s') \<Longrightarrow> takes_all (net s) \<Longrightarrow> st"
  by (auto simp: transmit_import_response_def transmit_response_head_def transmit_device_id_def srv_write_open
      dest: transmit_device_open)

lemma transmit_devlist_response_open:
  "transmit_devlist_response ud s = Done (st, s') \<Longrightarrow> takes_all (net s) \<Longrightarrow> st"
  by (auto simp: transmit_devlist_response_def transmit_response_head_def transmit_device_id_def
      transmit_number_of_devices_def srv_write_open res_simps dest!: transmit_device_open
      intro: transmit_interfaces_open)

section \<open>The answers\<close>

context served_device
begin

lemma process_import_answer:
  assumes wf: "wf_srv I s" and open_net: "takes_all (net s)" and i: "input (net s) = busid @ rest" "length busid = 32"
  shows "\<exists>s' d. process_import ud s = Done (True, s') \<and> device_imported s' \<and> pend s' = [] \<and>
     usbip_device_reset ud (dev s) = Done d \<and> dev s' = d \<and> wait_timeout_us s' = WAIT_TIMEOUT_US \<and>
     sent (net s') = sent (net s) @ import_message ud \<and> input (net s') = rest"
proof -
  obtain n where n: "srv_read 32 s = Done (True, busid, s\<lparr>net := n\<rparr>)" "input n = rest" "sent n = sent (net s)"
    using srv_read_message [OF i(1)] i(2) by metis
  have t: "takes_all n" using srv_read_open [OF n(1) open_net] .
  let ?s = "s\<lparr>net := n, num_pending_urbs := 0, wait_timeout_us := 500000\<rparr>"
  obtain eps where e: "load_endpoints (config_desc ud) ?s = Done (?s\<lparr>endpoints := eps\<rparr>)"
    using load_endpoints_returns [of "config_desc ud" ?s] descriptors_len by (auto simp: returns_iff)
  obtain d where d: "usbip_device_reset ud (dev s) = Done d"
    using reset_returns [of "dev s"] wf by (auto simp: returns_iff wf_srv_def)
  let ?t = "?s\<lparr>endpoints := eps, dev := d\<rparr>"
  obtain st s2 where r: "transmit_import_response ud ?t = Done (st, s2)" "wrote (import_message ud) st ?t s2"
    using transmit_import_response_wrote [of ud ?t] descriptors_len by (auto simp: returns_iff)
  have st using transmit_import_response_open [OF r(1)] t by simp
  then obtain m where m: "s2 = ?t\<lparr>net := m\<rparr>" "sent m = sent n @ import_message ud" "input m = input n"
    using r(2) by (auto simp: wrote_def)
  have "process_import ud s = Done (True, s2\<lparr>device_imported := True\<rparr>)"
    using n(1) e d r(1) \<open>st\<close> by (simp add: process_import_def)
  then show ?thesis using m d n(2,3) by (intro exI [of _ "s2\<lparr>device_imported := True\<rparr>"] exI [of _ d]) (simp add: pend_def)
qed

lemma devlist_answer:
  assumes "takes_all (net s)"
  shows "\<exists>n. transmit_devlist_response ud s = Done (True, s\<lparr>net := n\<rparr>) \<and>
     sent n = sent (net s) @ devlist_message ud \<and> input n = input (net s)"
proof -
  obtain st s' where r: "transmit_devlist_response ud s = Done (st, s')" "wrote (devlist_message ud) st s s'"
    using transmit_devlist_response_wrote [of ud s] descriptors_len interfaces by (auto simp: returns_iff)
  have st using transmit_devlist_response_open [OF r(1) assms] .
  then show ?thesis using r by (auto simp: wrote_def)
qed

end


text \<open>A client attaches the bulk device.\<close>

definition attach_request :: "u8 list" where
  "attach_request = op_req_message 0x0111 0x8003 [0, 0, 0, 0] @ char_array 32 ''1-1''"


end
