(* ===== verification/Submit.thy ===== *)
theory Submit
  imports Attach
begin

text \<open>
  A host's transfers over the connection: what \<open>process_imported_cmd\<close> and \<open>process_submit\<close>
  (\<open>src/lib/usbip_protocol.c\<close>) make of a \<open>USBIP_CMD_SUBMIT\<close> message, together with the device library that
  answers control requests (\<open>src/lib/usbip_device.c\<close>), on a connection that takes the replies.
\<close>

section \<open>Reading the message\<close>

lemma ret_submit_sent:
  assumes "takes_all (net s)" and "send_data \<longrightarrow> len \<le> length (tx_buffer s)"
  obtains n where "transmit_ret_submit seqnum status len send_data s = Done (True, s\<lparr>net := n\<rparr>)"
    "sent n = sent (net s) @ ret_submit_message seqnum status (of_nat len) 0 0xffffffff @
       (if send_data then take len (tx_buffer s) else [])"
    "input n = input (net s)"
proof -
  obtain st s' where r: "transmit_ret_submit seqnum status len send_data s = Done (st, s')"
    "wrote (ret_submit_message seqnum status (of_nat len) 0 0xffffffff @
      (if send_data then take len (tx_buffer s) else [])) st s s'"
    using transmit_ret_submit_wrote [OF assms(2), of seqnum status] by (auto simp: returns_iff)
  have st using transmit_ret_submit_open [OF r(1) assms(1)] by simp
  then show ?thesis using r that unfolding wrote_def by auto
qed

lemma submit_message_read:
  assumes "input (net s) = cmd_header_message 1 seqnum devid direction ep @ cmd_submit_message fl len fr k iv setup @ data @ rest"
    and "length setup = 8" and "unat len \<le> 65536" and "takes_all (net s)" and "length (rx_buffer s) = 65536"
    and "length data = (if direction = 0 then unat len else 0)"
  obtains n where "process_imported_cmd ud s =
      (let s1 = s\<lparr>net := n, rx_buffer := overwrite (rx_buffer s) 0 data\<rparr> in
       if ep \<noteq> 0 \<and> ep_type (endpoints s (dir_index direction) (ep_number ep)) = 1
       then process_iso_submit ud seqnum ep direction (usbip_cmd_submit_of (cmd_submit_message fl len fr k iv setup)) s1
       else if ep = 0 then process_control ud seqnum direction setup (unat len) s1
       else process_data ud seqnum ep direction len s1)"
    "input n = rest" "sent n = sent (net s)" "takes_all n"
proof -
  let ?h = "cmd_header_message 1 seqnum devid direction ep" and ?c = "cmd_submit_message fl len fr k iv setup"
  obtain n1 where n1: "srv_read 20 s = Done (True, ?h, s\<lparr>net := n1\<rparr>)" "input n1 = ?c @ data @ rest" "sent n1 = sent (net s)"
    using srv_read_message [OF assms(1)] by (metis length_messages(2))
  have t1: "takes_all n1" by (rule srv_read_open [OF n1(1) assms(4)])
  have i1: "input (net (s\<lparr>net := n1\<rparr>)) = ?c @ data @ rest" using n1(2) by simp
  have l: "length ?c = 28" using assms(2) by simp
  obtain n2 where n2: "srv_read 28 (s\<lparr>net := n1\<rparr>) = Done (True, ?c, s\<lparr>net := n2\<rparr>)" "input n2 = data @ rest" "sent n2 = sent n1"
    using srv_read_message [OF i1] l by auto
  have t2: "takes_all n2" using srv_read_open [of 28 "s\<lparr>net := n1\<rparr>" ?c n2] n2(1) t1 by simp
  note parse = cmd_header_message_parse cmd_submit_message_parse [OF assms(2)]
  show ?thesis
  proof (cases "direction = 0")
    case True
    have i2: "input (net (s\<lparr>net := n2\<rparr>)) = data @ rest" using n2(2) by simp
    obtain n3 where n3: "srv_read (unat len) (s\<lparr>net := n2\<rparr>) = Done (True, data, s\<lparr>net := n3\<rparr>)" "input n3 = rest" "sent n3 = sent n2"
      using srv_read_message [OF i2] assms(6) True by auto
    have "takes_all n3" using srv_read_open [of "unat len" "s\<lparr>net := n2\<rparr>" data n3] n3(1) t2 by simp
    then show ?thesis
      using n1 n2 n3 assms(3,5,6) True by (intro that [of n3]) (simp_all add: process_imported_cmd_def process_submit_def parse Let_def)
  next
    case False
    then show ?thesis
      using n1 n2 t2 assms(3,6) by (intro that [of n2]) (simp_all add: process_imported_cmd_def process_submit_def parse Let_def)
  qed
qed

section \<open>Control transfers\<close>

text \<open>
  The reply to a control transfer, from what \<open>usbip_device_control\<close> leaves: a stall, the answer of the
  device, or the number of bytes it took.
\<close>

definition control_reply_message :: "u32 \<Rightarrow> u32 \<Rightarrow> nat \<Rightarrow> bool \<Rightarrow> 'd device \<Rightarrow> u8 list" where
  "control_reply_message seqnum direction len supported d =
     (let answer = take len (unread d 0) in
      if \<not> supported \<or> direction = 1 \<and> len > 0 \<and> \<not> control_answered d
      then ret_submit_message seqnum (- 32) 0 0 0xffffffff
      else if direction = 0 then ret_submit_message seqnum 0 (of_nat len) 0 0xffffffff
      else if direction = 1 then ret_submit_message seqnum 0 (of_nat (length answer)) 0 0xffffffff @ answer
      else ret_submit_message seqnum 0 0 0 0xffffffff)"

context device_program
begin

lemma process_control_reply:
  assumes wf: "wf_srv I s" and open_net: "takes_all (net s)" and su: "length setup = 8" and len: "len \<le> 65536"
  shows "\<exists>supported d s'. usbip_device_control ud setup (rx_buffer s) len (dev s) = Done (supported, d) \<and>
     process_control ud seqnum direction setup len s = Done (True, s') \<and> pend s' = pend s \<and>
     sent (net s') = sent (net s) @ control_reply_message seqnum direction len supported d \<and>
     input (net s') = input (net s)"
proof -
  have d: "dev_inv I (dev s)" and b: "len \<le> length (rx_buffer s)" "length (tx_buffer s) = 65536"
    using wf len by (simp_all add: wf_srv_def)
  obtain sup d1 where c: "usbip_device_control ud setup (rx_buffer s) len (dev s) = Done (sup, d1)" "wf_device d1"
    using control_returns [OF d su b(1)] by (auto simp: returns_iff dev_inv_def)
  show ?thesis
  proof (cases "direction = 1")
    case True
    have "min len (length (unread d1 0)) \<le> length (tx_buffer s)" using length_unread_le [OF c(2), of 0] b(2) by simp
    from fetch_control_reply_spec [OF c(2) this] obtain k tx d2 where
      f: "usbip_device_fetch_control_reply (tx_buffer s) len d1 = Done (control_answered d1, k, tx, d2)"
      "k = min len (length (unread d1 0))" "length tx = 65536" "take k tx = take k (unread d1 0)"
      using b(2) by (auto simp: returns_iff)
    let ?s = "s\<lparr>dev := d2, tx_buffer := tx\<rparr>"
    have k: "take k (unread d1 0) = take len (unread d1 0)" "length (take len (unread d1 0)) = k" "k \<le> length (tx_buffer ?s)"
      using f(2,3) length_unread_le [OF c(2), of 0] by (auto simp: min_def)
    obtain n where n: "transmit_ret_submit seqnum (- 32) 0 False ?s = Done (True, ?s\<lparr>net := n\<rparr>)"
      "sent n = sent (net s) @ ret_submit_message seqnum (- 32) 0 0 0xffffffff" "input n = input (net s)"
      using ret_submit_sent [of ?s False 0 seqnum "- 32"] open_net by auto
    obtain m where m: "transmit_ret_submit seqnum 0 k True ?s = Done (True, ?s\<lparr>net := m\<rparr>)"
      "sent m = sent (net s) @ ret_submit_message seqnum 0 (of_nat k) 0 0xffffffff @ take k tx" "input m = input (net s)"
      using ret_submit_sent [of ?s True k seqnum 0] open_net k(3) by auto
    show ?thesis
      using True c f k n m by (cases "sup \<and> (len > 0 \<longrightarrow> control_answered d1)")
        (auto simp: process_control_def control_reply_message_def Let_def)
  next
    case False
    let ?s = "s\<lparr>dev := d1\<rparr>"
    obtain n where n: "transmit_ret_submit seqnum (- 32) 0 False ?s = Done (True, ?s\<lparr>net := n\<rparr>)"
      "sent n = sent (net s) @ ret_submit_message seqnum (- 32) 0 0 0xffffffff" "input n = input (net s)"
      using ret_submit_sent [of ?s False 0 seqnum "- 32"] open_net by auto
    obtain m where m: "transmit_ret_submit seqnum 0 len False ?s = Done (True, ?s\<lparr>net := m\<rparr>)"
      "sent m = sent (net s) @ ret_submit_message seqnum 0 (of_nat len) 0 0xffffffff" "input m = input (net s)"
      using ret_submit_sent [of ?s False len seqnum 0] open_net by auto
    obtain q where q: "transmit_ret_submit seqnum 0 0 True ?s = Done (True, ?s\<lparr>net := q\<rparr>)"
      "sent q = sent (net s) @ ret_submit_message seqnum 0 0 0 0xffffffff" "input q = input (net s)"
      using ret_submit_sent [of ?s True 0 seqnum 0] open_net by auto
    show ?thesis
      using False c n m q by (cases sup; cases "direction = 0")
        (auto simp: process_control_def control_reply_message_def Let_def)
  qed
qed

end

lemma wf_srv_received:
  "wf_srv I s \<Longrightarrow> length data \<le> 65536 \<Longrightarrow> wf_srv I (s\<lparr>net := n, rx_buffer := overwrite (rx_buffer s) 0 data\<rparr>)"
  by (simp add: wf_srv_def)


text \<open>
  C16. Enumeration over the connection, from the bytes the host sends to the bytes it gets back: a
  \<open>GET_DESCRIPTOR\<close> request is answered with the descriptor of that type and index, cut to the length asked
  for and to 512 bytes, and is stalled if the device does not have it.
\<close>

theorem get_descriptor_over_wire:
  assumes "device_program ud I" and "wf_srv I s" and "takes_all (net s)" and "\<not> device_stopped (dev s)"
    and "input (net s) = cmd_header_message 1 seqnum devid 1 0 @
      cmd_submit_message fl len fr k iv [0x80, 6, index, dtype, l0, l1, w0, w1] @ rest"
    and "0 < unat len" and "unat len \<le> 65536"
  shows "\<exists>s'. process_imported_cmd ud s = Done (True, s') \<and>
     sent (net s') = sent (net s) @ (case std_descriptor ud dtype index of
        None \<Rightarrow> ret_submit_message seqnum (- 32) 0 0 0xffffffff
      | Some bytes \<Rightarrow> (let answer = take (min (unat len) 512) bytes
                     in ret_submit_message seqnum 0 (of_nat (length answer)) 0 0xffffffff @ answer))"
proof -
  let ?su = "[0x80, 6, index, dtype, l0, l1, w0, w1]"
  have rx: "length (rx_buffer s) = 65536" and d: "wf_device (dev s)" using assms(2) by (simp_all add: wf_srv_def dev_inv_def)
  have i: "input (net s) = cmd_header_message 1 seqnum devid 1 0 @ cmd_submit_message fl len fr k iv ?su @ [] @ rest"
    using assms(5) by simp
  obtain n where
    n: "process_imported_cmd ud s = process_control ud seqnum 1 ?su (unat len) (s\<lparr>net := n\<rparr>)"
    "sent n = sent (net s)" "takes_all n"
    using submit_message_read [OF i _ assms(7,3) rx, of ud] by auto
  have su: "?su ! 0 = 0x80" "?su ! 1 = 6" "?su ! 2 = index" "?su ! 3 = dtype" by simp_all
  obtain d1 where d1: "usbip_device_control ud ?su (rx_buffer s) (unat len) (dev s) = Done (True, d1)"
    "control_answered d1 = (std_descriptor ud dtype index \<noteq> None)"
    "unread d1 0 = (case std_descriptor ud dtype index of None \<Rightarrow> [] | Some bytes \<Rightarrow> take (cut_length (unat len)) bytes)"
    by (rule get_descriptor_control [OF d assms(4) device_program.descriptors [OF assms(1)] su(1,2), unfolded su(3,4)])
  have "wf_srv I (s\<lparr>net := n\<rparr>)" using assms(2) by simp
  from device_program.process_control_reply [OF assms(1) this _ _ assms(7), of ?su seqnum 1] n d1(1)
  obtain s' where "process_imported_cmd ud s = Done (True, s')"
    "sent (net s') = sent (net s) @ control_reply_message seqnum 1 (unat len) True d1" by auto
  then show ?thesis
    using d1(2,3) assms(6) by (auto simp: control_reply_message_def Let_def min.left_commute split: option.splits)
qed

section \<open>Data transfers\<close>

text \<open>
  C13. Bulk and interrupt transfers over the connection. The data of an OUT transfer is handed to the device's
  callback, whole and once, and the reply says that all of it was taken. An IN transfer is put at the end
  of the queue and nothing is sent; if 32 transfers are pending it is answered at once, without data, and
  the queue stays as it is.
\<close>

theorem submit_data:
  assumes "device_program ud I" and "wf_srv I s" and "takes_all (net s)"
    and "input (net s) = cmd_header_message 1 seqnum devid direction ep @ cmd_submit_message fl len fr k iv setup @ data @ rest"
    and "length setup = 8" and "unat len \<le> 65536" and "length data = (if direction = 0 then unat len else 0)"
    and "ep \<noteq> 0" and "ep_type (endpoints s (dir_index direction) (ep_number ep)) \<noteq> 1"
  shows "\<exists>s'. process_imported_cmd ud s = Done (True, s') \<and> input (net s') = rest \<and>
     (if direction = 0 then
        sent (net s') = sent (net s) @ ret_submit_message seqnum 0 len 0 0xffffffff \<and> pend s' = pend s \<and>
        (case ep_data_callback ud of
           None \<Rightarrow> dev s' = dev s
         | Some callback \<Rightarrow> if data = [] then dev s' = dev s
             else \<exists>buffer. take (length data) buffer = data \<and> callback (ucast ep) buffer (length data) (dev s) = Done (dev s'))
      else if length (pend s) = 32 then
        sent (net s') = sent (net s) @ ret_submit_message seqnum 0 0 0 0xffffffff \<and> pend s' = pend s \<and> dev s' = dev s
      else sent (net s') = sent (net s) \<and> dev s' = dev s \<and>
        (\<exists>urb. pend s' = pend s @ [urb] \<and> ur_seqnum urb = seqnum \<and> ur_ep urb = ep \<and> ur_direction urb = direction \<and>
           ur_transfer_buffer_length urb = len \<and> \<not> ur_isochronous urb))"
proof -
  let ?rx = "overwrite (rx_buffer s) 0 data"
  have rx: "length (rx_buffer s) = 65536" "length data \<le> 65536" using assms(2,6,7) by (simp_all add: wf_srv_def)
  from submit_message_read [OF assms(4-6,3) rx(1) assms(7), of ud] assms(8,9) obtain n where
    n: "process_imported_cmd ud s = process_data ud seqnum ep direction len (s\<lparr>net := n, rx_buffer := ?rx\<rparr>)"
    "input n = rest" "sent n = sent (net s)" "takes_all n" by auto
  let ?s = "s\<lparr>net := n, rx_buffer := ?rx\<rparr>"
  have wf: "wf_srv I ?s" by (rule wf_srv_received [OF assms(2) rx(2)])
  then have q: "wf_queue ?s" "length (pend s) = num_pending_urbs s" "dev_inv I (dev s)"
    using length_pend [of ?s] by (simp_all add: wf_srv_def)
  show ?thesis
  proof (cases "direction = 0")
    case True
    have t0: "take (length data) ?rx = data" using rx by (simp add: take_overwrite_0)
    have t: "take (length data) ?rx = data" "unat len = length data" "unat len \<le> length ?rx"
      by (rule t0) (use rx True assms(7) in simp_all)
    have l: "0 < len \<longleftrightarrow> data \<noteq> []" using t(2) by (auto simp: word_less_nat_alt)
    obtain d where d: "bind_res (if len > 0 \<and> ep_data_callback ud \<noteq> None then
             bind_res (usbip_device_receive ud (ucast ep) (rx_buffer ?s) (unat len) (dev ?s)) (\<lambda>d. Done (?s\<lparr>dev := d\<rparr>)) else Done ?s)
          (transmit_ret_submit seqnum 0 (unat len) False) = transmit_ret_submit seqnum 0 (unat len) False (?s\<lparr>dev := d\<rparr>)"
      "case ep_data_callback ud of None \<Rightarrow> d = dev s
         | Some callback \<Rightarrow> if data = [] then d = dev s else callback (ucast ep) ?rx (length data) (dev s) = Done d"
      using device_program.receive_returns [OF assms(1) q(3) t(3), of "ucast ep"] l t(2)
      by (cases "ep_data_callback ud") (auto simp: returns_iff usbip_device_receive_def)
    have taken: "case ep_data_callback ud of None \<Rightarrow> d = dev s
       | Some callback \<Rightarrow> if data = [] then d = dev s
           else \<exists>buffer. take (length data) buffer = data \<and> callback (ucast ep) buffer (length data) (dev s) = Done d"
      using d(2) t(1) by (cases "ep_data_callback ud") (auto intro!: exI [of _ ?rx])
    obtain m where m: "transmit_ret_submit seqnum 0 (unat len) False (?s\<lparr>dev := d\<rparr>) = Done (True, ?s\<lparr>dev := d, net := m\<rparr>)"
      "sent m = sent (net s) @ ret_submit_message seqnum 0 len 0 0xffffffff" "input m = rest"
      using ret_submit_sent [of "?s\<lparr>dev := d\<rparr>" False "unat len" seqnum 0] n by auto
    have "process_imported_cmd ud s = Done (True, ?s\<lparr>dev := d, net := m\<rparr>)"
      unfolding n(1) process_data_def using d(1) m(1) by (simp only: True refl if_True)
    then show ?thesis using m(2,3) taken True by (simp split: option.splits)
  next
    case False
    show ?thesis
    proof (cases "length (pend s) = 32")
      case full: True
      obtain m where "transmit_ret_submit seqnum 0 0 True ?s = Done (True, ?s\<lparr>net := m\<rparr>)"
        "sent m = sent (net s) @ ret_submit_message seqnum 0 0 0 0xffffffff" "input m = rest"
        using ret_submit_sent [of ?s True 0 seqnum 0] n by auto
      then show ?thesis using n(1) False full q(2) by (simp add: process_data_def)
    next
      case room: False
      then have "num_pending_urbs ?s < 32" using q by (simp add: wf_queue_def)
      from queue_urb_returns [OF q(1) this, of seqnum ep direction len] n False room q(2)
      show ?thesis by (auto simp: process_data_def returns_iff)
    qed
  qed
qed

section \<open>The claims at a concrete transfer\<close>

text \<open>A client of the bulk program that sends the given bytes.\<close>

abbreviation bulk_client :: "u8 list \<Rightarrow> bulk srv" where
  "bulk_client bytes \<equiv> init_srv (connected bytes) (init_device init_bulk) (\<lambda>_. (0, 0))"

lemma bulk_client_facts:
  "wf_srv bulk_inv (bulk_client bytes)" "takes_all (net (bulk_client bytes))" "input (net (bulk_client bytes)) = bytes"
  "sent (net (bulk_client bytes)) = []" "\<not> device_stopped (dev (bulk_client bytes))" "pend (bulk_client bytes) = []"
  "ep_type (endpoints (bulk_client bytes) i j) = 0"
  by (rule wf_init_srv, simp add: dev_inv_def bulk_inv_init)
    (simp_all add: init_srv_def takes_all_def init_device_def pend_def zero_endpoint_def, simp add: connected_def)


text \<open>The device descriptor, of which the host asks for 18 bytes.\<close>

theorem get_descriptor_over_wire_witness:
  "\<exists>s'. process_imported_cmd bulk_device (bulk_client (cmd_header_message 1 7 0 1 0 @
       cmd_submit_message 0 18 0 0 0 [0x80, 6, 0, 1, 0, 0, 18, 0] @ [])) = Done (True, s') \<and>
     sent (net s') = ret_submit_message 7 0 18 0 0xffffffff @ bulk_device_descriptor"
proof -
  have "0 < unat (18 :: u32)" "unat (18 :: u32) \<le> 65536" by simp_all
  from get_descriptor_over_wire [OF bulk.device_program_axioms bulk_client_facts(1,2,5,3) this, of 7 0 0 0 0 0 0 1 0 0 18 0 "[]"]
  show ?thesis unfolding bulk_client_facts by (simp add: std_descriptor_def bulk_device_def bulk_device_descriptor_def)
qed

text \<open>Two bytes for the device.\<close>

theorem submit_data_witness:
  "\<exists>s'. process_imported_cmd bulk_device (bulk_client (cmd_header_message 1 8 0 0 1 @
       cmd_submit_message 0 2 0 0 0 [0, 0, 0, 0, 0, 0, 0, 0] @ [104, 105] @ [])) = Done (True, s') \<and>
     sent (net s') = ret_submit_message 8 0 2 0 0xffffffff \<and> pend s' = []"
proof -
  have h: "length [0 :: u8, 0, 0, 0, 0, 0, 0, 0] = 8" "unat (2 :: u32) \<le> 65536"
    "length [104 :: u8, 105] = (if (0 :: u32) = 0 then unat (2 :: u32) else 0)" "(1 :: u32) \<noteq> 0" by simp_all
  have "ep_type (endpoints (bulk_client bytes) (dir_index 0) (ep_number 1)) \<noteq> 1" for bytes by (simp add: bulk_client_facts)
  from submit_data [OF bulk.device_program_axioms bulk_client_facts(1-3) h this, of 8 0 0 0 0 0 "[]"]
  show ?thesis unfolding bulk_client_facts by auto
qed

end
