(* ===== verification/Iso_Submit.thy ===== *)
theory Iso_Submit
  imports Submit
begin

text \<open>
  Isochronous transfers over the connection: \<open>process_iso_submit\<close> (\<open>src/lib/usbip_protocol.c\<close>) takes the
  packets of an IN transfer from the wire, and gives the transfer the time at which it completes, so that
  the transfers of a stream follow each other at the pace of the endpoint.
\<close>

lemma overwrite_snoc:
  "off + 1 + length ys \<le> length xs \<Longrightarrow> overwrite (overwrite xs off [y]) (Suc off) ys = overwrite xs off (y # ys)"
  by (simp add: overwrite_def drop_Suc min_def add.commute)

lemma iso_packet_parse:
  assumes "length pre = i"
  shows "usbip_iso_packet_descriptor_of (pre @ iso_packet_message p actual @ rest) i =
    \<lparr>ip_offset = SWAP32 (pk_offset p), ip_length = SWAP32 (pk_length p), ip_actual_length = SWAP32 actual, ip_status = SWAP32 0\<rparr>"
  unfolding iso_packet_descriptor_message [symmetric] using assms
  by (simp add: usbip_iso_packet_descriptor_of_append usbip_iso_packet_descriptor_of_bytes)

lemma length_iso_packet_message: "length (iso_packet_message p actual) = 16"
  unfolding iso_packet_descriptor_message [symmetric] by simp

lemma load_iso_packets_message:
  assumes "idx + length ps \<le> length (ur_packets urb)" and "length pre = 16 * idx"
    and "list_all (packet_inside urb) ps"
  shows "load_iso_packets (pre @ concat (map (\<lambda>p. iso_packet_message p 0) ps)) idx (length ps) urb =
    Done (True, urb\<lparr>ur_packets := overwrite (ur_packets urb) idx ps\<rparr>)"
  using assms
proof (induction ps arbitrary: idx urb pre)
  case Nil
  then show ?case by simp
next
  case (Cons p ps)
  let ?u = "urb\<lparr>ur_packets := overwrite (ur_packets urb) idx [p]\<rparr>"
  have "load_iso_packets ((pre @ iso_packet_message p 0) @ concat (map (\<lambda>p. iso_packet_message p 0) ps)) (idx + 1) (length ps) ?u =
      Done (True, ?u\<lparr>ur_packets := overwrite (ur_packets ?u) (idx + 1) ps\<rparr>)"
    by (rule Cons.IH) (use Cons.prems in \<open>simp_all add: length_iso_packet_message\<close>)
  then show ?case
    using Cons.prems by (cases p) (simp add: iso_packet_parse packet_inside_def overwrite_snoc Let_def)
qed

text \<open>A transfer with its packets loaded is queued, and the stream of its endpoint is longer by it.\<close>

lemma queue_iso_urb_room:
  assumes "wf_queue s" and "num_pending_urbs s < 32"
    and "i = dir_index (ur_direction (iso_urb s))" and "j = ep_number (ur_ep (iso_urb s))"
    and "c = iso_complete_us (ur_number_of_packets (iso_urb s)) (endpoints s i j) (fst (now_us s))"
  shows "\<exists>s'. queue_iso_urb ud s = Done (True, s') \<and> pend s' = pend s @ [(iso_urb s)\<lparr>ur_complete_us := c\<rparr>] \<and>
     net s' = net s \<and> dev s' = dev s \<and>
     endpoints s' = (endpoints s)(i := (endpoints s i)(j := (endpoints s i j)\<lparr>stream_end_us := c\<rparr>))"
proof -
  have n: "now_us s = (fst (now_us s), s\<lparr>ticks := ticks s + 1\<rparr>)" by (simp add: now_us_def case_prod_unfold Let_def)
  let ?u = "(iso_urb s)\<lparr>ur_complete_us := c\<rparr>"
  let ?s = "set_endpoint i j ((endpoints s i j)\<lparr>stream_end_us := c\<rparr>) (s\<lparr>ticks := ticks s + 1, iso_urb := ?u\<rparr>)"
  let ?q = "?s\<lparr>pending_urbs := overwrite (pending_urbs s) (num_pending_urbs s) [?u], num_pending_urbs := num_pending_urbs s + 1\<rparr>"
  have len: "num_pending_urbs s + length [?u] \<le> length (pending_urbs s)" using assms(1,2) by (simp add: wf_queue_def)
  have f: "num_pending_urbs ?s = num_pending_urbs s" "pending_urbs ?s = pending_urbs s" by (simp_all add: set_endpoint_def)
  have "queue_iso_urb ud s = Done (True, ?q)"
    unfolding queue_iso_urb_def Let_def by (subst n) (use assms(2,5) len in \<open>simp add: assms(3,4) [symmetric] set_endpoint_def\<close>)
  moreover have "pend ?q = pend s @ [?u]"
    using take_overwrite_append [OF len] by (simp add: pend_def)
  moreover have "endpoints ?q = (endpoints s)(i := (endpoints s i)(j := (endpoints s i j)\<lparr>stream_end_us := c\<rparr>))"
    by (auto simp: set_endpoint_def fun_eq_iff)
  moreover have "net ?q = net s" "dev ?q = dev s" by (simp_all add: set_endpoint_def)
  ultimately show ?thesis by blast
qed

text \<open>
  C15. Isochronous IN transfers over the connection: the transfer is put at the end of the queue with the
  packets of the message, nothing is sent and the device is not asked yet. It completes one service interval
  per packet after the later of now and the end of the stream before it, and is itself the new end of the
  stream: transfers of a stream are spaced by the time their packets take, however early they arrive.
\<close>

theorem submit_iso_in:
  assumes "wf_srv I s" and "takes_all (net s)"
    and "input (net s) = cmd_header_message 1 seqnum devid 1 ep @ cmd_submit_message fl len fr k iv setup @
      concat (map (\<lambda>p. iso_packet_message p 0) packets) @ rest"
    and "length setup = 8" and "unat len \<le> 65536" and "ep \<noteq> 0" and "ep_type (endpoints s 1 (ep_number ep)) = 1"
    and "length packets = unat k" and "unat k \<le> 128" and "length (pend s) < 32"
    and "list_all (\<lambda>p. unat (pk_offset p) + unat (pk_length p) \<le> unat len) packets"
  shows "let e = endpoints s 1 (ep_number ep); complete = max (fst (now_us s)) (stream_end_us e) + ucast k * interval_us e in
     \<exists>s' urb. process_imported_cmd ud s = Done (True, s') \<and> input (net s') = rest \<and> sent (net s') = sent (net s) \<and>
       dev s' = dev s \<and> pend s' = pend s @ [urb] \<and>
       ur_seqnum urb = seqnum \<and> ur_ep urb = ep \<and> ur_isochronous urb \<and> ur_direction urb = 1 \<and>
       ur_transfer_buffer_length urb = len \<and> ur_start_frame urb = fr \<and> ur_number_of_packets urb = k \<and>
       take (unat k) (ur_packets urb) = packets \<and> ur_complete_us urb = complete \<and>
       endpoints s' = (endpoints s)(1 := (endpoints s 1)(ep_number ep := e\<lparr>stream_end_us := complete\<rparr>))"
proof -
  let ?ds = "concat (map (\<lambda>p. iso_packet_message p 0) packets)" and ?j = "ep_number ep"
  have rx: "length (rx_buffer s) = 65536" and pk: "length (ur_packets (iso_urb s)) = 128" and q: "wf_queue s"
    using assms(1) by (simp_all add: wf_srv_def)
  have i: "input (net s) = cmd_header_message 1 seqnum devid 1 ep @ cmd_submit_message fl len fr k iv setup @ [] @ ?ds @ rest"
    using assms(3) by simp
  obtain n where n: "process_imported_cmd ud s = process_iso_submit ud seqnum ep 1
      (usbip_cmd_submit_of (cmd_submit_message fl len fr k iv setup)) (s\<lparr>net := n\<rparr>)"
    "input n = ?ds @ rest" "sent n = sent (net s)"
    using submit_message_read [OF i assms(4,5,2) rx, of ud] assms(6,7) by auto
  have l: "length ?ds = unat k * 16" using assms(8) by (simp add: length_concat length_iso_packet_message comp_def sum_list_triv)
  obtain n1 where n1: "srv_read (unat k * 16) (s\<lparr>net := n\<rparr>) = Done (True, ?ds, s\<lparr>net := n1\<rparr>)" "input n1 = rest" "sent n1 = sent n"
    using srv_read_message [of "s\<lparr>net := n\<rparr>" ?ds rest] n(2) l by auto
  let ?u = "(iso_urb s)\<lparr>ur_seqnum := seqnum, ur_ep := ep, ur_direction := 1, ur_transfer_buffer_length := len,
      ur_isochronous := True, ur_start_frame := fr, ur_number_of_packets := k\<rparr>"
  let ?v = "?u\<lparr>ur_packets := overwrite (ur_packets (iso_urb s)) 0 packets\<rparr>" and ?s = "s\<lparr>net := n1\<rparr>"
  have "load_iso_packets ([] @ ?ds) 0 (length packets) ?u = Done (True, ?v)"
    by (subst load_iso_packets_message) (use assms(8,9,11) pk in \<open>simp_all add: packet_inside_def list_all_iff\<close>)
  then have "process_imported_cmd ud s = queue_iso_urb ud (?s\<lparr>iso_urb := ?v\<rparr>)"
    using n(1) n1(1) assms(8,9) by (simp add: process_iso_submit_def cmd_submit_message_parse [OF assms(4)] submit_iso_urb_def Let_def)
  moreover have "wf_queue (?s\<lparr>iso_urb := ?v\<rparr>)" "num_pending_urbs (?s\<lparr>iso_urb := ?v\<rparr>) < 32"
    using q assms(10) length_pend [OF q] by (simp_all add: wf_queue_def pend_def)
  note queue_iso_urb_room [OF this refl refl refl, of ud]
  moreover have "fst (now_us (?s\<lparr>iso_urb := ?v\<rparr>)) = fst (now_us s)" by (simp add: now_us_def case_prod_unfold Let_def)
  moreover have "take (unat k) (ur_packets ?v) = packets" using take_overwrite_0 [of packets] assms(8) by simp
  ultimately show ?thesis
    using n(3) n1(2,3) by (force simp: iso_complete_us_def Let_def max_def pend_def)
qed

text \<open>Two packets of 96 bytes for an endpoint that is served every millisecond.\<close>

definition iso_client :: "u8 list \<Rightarrow> bulk srv" where
  "iso_client bytes = (bulk_client bytes)\<lparr>endpoints := (\<lambda>_ _. zero_endpoint\<lparr>ep_type := 1, interval_us := 1000\<rparr>)\<rparr>"

theorem submit_iso_in_witness:
  "\<exists>s' urb. process_imported_cmd bulk_device (iso_client (cmd_header_message 1 9 0 1 1 @
       cmd_submit_message 0 192 0 2 0 [0, 0, 0, 0, 0, 0, 0, 0] @
       concat (map (\<lambda>p. iso_packet_message p 0) [\<lparr>pk_offset = 0, pk_length = 96\<rparr>, \<lparr>pk_offset = 96, pk_length = 96\<rparr>]) @ [])) =
       Done (True, s') \<and> pend s' = [urb] \<and> ur_complete_us urb = 2000"
proof -
  let ?m = "cmd_header_message 1 9 0 1 1 @ cmd_submit_message 0 192 0 2 0 [0, 0, 0, 0, 0, 0, 0, 0] @
    concat (map (\<lambda>p. iso_packet_message p 0) [\<lparr>pk_offset = 0, pk_length = 96\<rparr>, \<lparr>pk_offset = 96, pk_length = 96\<rparr>]) @ []"
  have e: "endpoints (iso_client bytes) i j = zero_endpoint\<lparr>ep_type := 1, interval_us := 1000\<rparr>" for bytes i j by (simp add: iso_client_def)
  have f: "wf_srv bulk_inv (iso_client ?m)" "takes_all (net (iso_client ?m))" "input (net (iso_client ?m)) = ?m"
    using bulk_client_facts(1-3) [of ?m] by (simp_all add: iso_client_def wf_srv_def wf_queue_def pend_def)
  have p: "pend (iso_client ?m) = []" using bulk_client_facts(6) [of ?m] by (simp add: iso_client_def pend_def)
  have n: "fst (now_us (iso_client ?m)) = 0" by (simp add: now_us_def iso_client_def init_srv_def)
  have h: "length [0 :: u8, 0, 0, 0, 0, 0, 0, 0] = 8" "unat (192 :: u32) \<le> 65536" "(1 :: u32) \<noteq> 0"
    "ep_type (endpoints (iso_client ?m) 1 (ep_number 1)) = 1"
    "length [\<lparr>pk_offset = 0 :: u32, pk_length = 96 :: u32\<rparr>, \<lparr>pk_offset = 96, pk_length = 96\<rparr>] = unat (2 :: u32)"
    "unat (2 :: u32) \<le> 128" "length (pend (iso_client ?m)) < 32"
    "list_all (\<lambda>p. unat (pk_offset p) + unat (pk_length p) \<le> unat (192 :: u32))
       [\<lparr>pk_offset = 0, pk_length = 96\<rparr>, \<lparr>pk_offset = 96, pk_length = 96\<rparr>]"
    using p by (simp_all add: e)
  from submit_iso_in [OF f h, of bulk_device] show ?thesis unfolding e n p Let_def by (auto simp: zero_endpoint_def)
qed

end
