(* ===== verification/Programs.thy ===== *)
theory Programs
  imports Server
begin

text \<open>
  The main thread of a program beside the server: every \<open>main\<close> of \<open>src/usb_*\<close> starts the server, loops until
  the server is interrupted, stops the server and waits for the worker. A program gives the steps of its
  loop as a function \<open>body\<close>; \<open>main_step\<close> is the thread and \<open>program_step\<close> the process, in which the main
  thread, the worker and Ctrl-C alternate. The locale \<open>main_program\<close> is what a loop has to keep to.
\<close>

section \<open>Transmitting from the main thread\<close>

text \<open>
  A call of \<open>usbip_device_transmit\<close> on the main thread, outside critical sections, may wait. \<open>Sending\<close> is a
  call under way with its endpoint, its data and, once it has looked at the device, the value it read from
  \<open>reset_generation\<close>. A step is one attempt; the call is over if there is no call left.
\<close>

datatype sending = Sending u8 "u8 list" "u32 option"

fun main_transmit :: "sending \<Rightarrow> 'd device \<Rightarrow> (sending option \<times> 'd device) res" where
  "main_transmit (Sending ep data started) d =
     (let generation = (case started of None \<Rightarrow> reset_generation d | Some g \<Rightarrow> g)
      in bind_res (transmit_attempt True generation ep data (length data) d) (\<lambda>(r, d).
           Done (if r = Tr_wait then (Some (Sending ep data (Some generation)), d)
                 else (None, snd (transmit_finish ep r d)))))"

lemma transmit_finish_frame:
  "app (snd (transmit_finish ep r d)) = app d" "device_stopped (snd (transmit_finish ep r d)) = device_stopped d"
  "wf_device (snd (transmit_finish ep r d)) = wf_device d"
  by (simp_all add: transmit_finish_def event_write_def wf_device_def Let_def)

lemma main_transmit_returns:
  assumes "dev_inv I d"
  shows "returns (\<lambda>(c', d'). dev_inv I d' \<and> device_stopped d' = device_stopped d \<and> app d' = app d \<and>
     (device_stopped d \<longrightarrow> c' = None)) (main_transmit c d)"
proof (cases c)
  case (Sending ep data started)
  have w: "wf_device d" "cut_length (length data) \<le> length data" using assms by (simp_all add: dev_inv_def)
  show ?thesis
    unfolding Sending main_transmit.simps Let_def
    by (rule returns_bindI [OF transmit_attempt_spec [OF w]]) (use assms in \<open>auto simp: transmit_finish_frame dev_inv_def\<close>)
qed

section \<open>The process\<close>

abbreviation (input) EXIT_SUCCESS :: int where "EXIT_SUCCESS \<equiv> 0"
abbreviation (input) EXIT_FAILURE :: int where "EXIT_FAILURE \<equiv> 1"

text \<open>
  The loop of \<open>main\<close>: from \<open>usbip_server_interrupted\<close>, the variables and position of the thread and the
  device, a step leads to new ones, still in the loop or after it.
\<close>

datatype 'm loop_result = Stay 'm | Leave 'm

type_synonym ('m, 'd) body = "bool \<Rightarrow> 'm \<Rightarrow> 'd device \<Rightarrow> ('m loop_result \<times> 'd device) res"

datatype 'm main_thread = Loop (locals: 'm) | Joining (locals: 'm) | Returned (locals: 'm) int

definition main_step :: "('m, 'd) body \<Rightarrow> 'm main_thread \<times> 'd server \<Rightarrow> ('m main_thread \<times> 'd server) res" where
  "main_step body c =
     (case c of (t, s) \<Rightarrow>
        case t of
          Loop m \<Rightarrow>
            bind_res (body (usbip_server_interrupted s) m (dev (proto s))) (\<lambda>(r, d).
              let s = s\<lparr>proto := (proto s)\<lparr>dev := d\<rparr>\<rparr>
              in Done (case r of Stay m \<Rightarrow> (Loop m, s) | Leave m \<Rightarrow> (Joining m, usbip_server_stop s)))
        | Joining m \<Rightarrow> Done (if worker s = Finished then (Returned m EXIT_SUCCESS, s) else (t, s))
        | Returned m result \<Rightarrow> Done (t, s))"

text \<open>A step inside a call: the thread is at \<open>waiting\<close> while the call waits, and at \<open>after\<close> once it is over.\<close>

definition send_step ::
  "(sending \<Rightarrow> 'm) \<Rightarrow> 'm \<Rightarrow> sending \<Rightarrow> 'd device \<Rightarrow> ('m loop_result \<times> 'd device) res" where
  "send_step waiting after c d =
     bind_res (main_transmit c d) (\<lambda>(c', d). Done (Stay (case c' of None \<Rightarrow> after | Some c' \<Rightarrow> waiting c'), d))"

lemma send_step_returns:
  assumes "dev_inv I d"
  shows "returns (\<lambda>(r, d'). dev_inv I d' \<and> device_stopped d' = device_stopped d \<and> app d' = app d \<and>
     (r = Stay after \<or> \<not> device_stopped d \<and> (\<exists>c'. r = Stay (waiting c')))) (send_step waiting after c d)"
  unfolding send_step_def
  by (rule returns_bindI [OF main_transmit_returns [OF assms]]) (auto split: option.splits)

lemma send_step_completes: "dev_inv I d \<Longrightarrow> returns (\<lambda>_. True) (send_step waiting after c d)"
  by (rule returns_mono [OF send_step_returns]) simp_all

lemma send_step_stopped:
  assumes "dev_inv I d" and "device_stopped d" and "P (Stay after)"
  shows "returns (\<lambda>(r, d'). P r) (send_step waiting after c d)"
  by (rule returns_mono [OF send_step_returns [OF assms(1)]]) (use assms(2,3) in auto)

lemma send_step_Done:
  assumes "send_step waiting after c d = Done (r, d')" and "dev_inv I d"
  shows "dev_inv I d' \<and> device_stopped d' = device_stopped d \<and>
     (r = Stay after \<or> \<not> device_stopped d \<and> (\<exists>c'. r = Stay (waiting c')))"
  using send_step_returns [OF assms(2), of after waiting c] assms(1) by auto

text \<open>The start of \<open>main\<close>: the process with its two threads, or the exit code if there is no server.\<close>

definition program_start ::
  "'m \<Rightarrow> int \<Rightarrow> open_results \<Rightarrow> int \<Rightarrow> 'd srv \<Rightarrow> 'm main_thread \<times> 'd server + int" where
  "program_start m event_fd r err p =
     (case usbip_server_start event_fd r err p of
        (status, p) \<Rightarrow> if status then Inl (Loop m, init_server p) else Inr EXIT_FAILURE)"

definition running :: "'m main_thread \<times> 'd server \<Rightarrow> bool" where
  "running c \<longleftrightarrow> \<not> exited (snd c) \<and> (case fst c of Returned m result \<Rightarrow> False | _ \<Rightarrow> True)"

inductive program_step :: "'d usbip_device_t \<Rightarrow> ('m, 'd) body \<Rightarrow> 'm main_thread \<times> 'd server \<Rightarrow> 'm main_thread \<times> 'd server \<Rightarrow> bool"
  for ud :: "'d usbip_device_t" and body :: "('m, 'd) body" where
  main: "running c \<Longrightarrow> main_step body c = Done c' \<Longrightarrow> program_step ud body c c'"
| work: "running (t, s) \<Longrightarrow> worker_step ud s = Done s' \<Longrightarrow> program_step ud body (t, s) (t, s')"
| interrupt: "running (t, s) \<Longrightarrow> program_step ud body (t, s) (t, int_handler s)"

inductive program_reachable :: "'d usbip_device_t \<Rightarrow> ('m, 'd) body \<Rightarrow> 'm main_thread \<times> 'd server \<Rightarrow> 'm main_thread \<times> 'd server \<Rightarrow> bool"
  for ud :: "'d usbip_device_t" and body :: "('m, 'd) body" and c0 where
  start: "program_reachable ud body c0 c0"
| step: "program_reachable ud body c0 c \<Longrightarrow> program_step ud body c c' \<Longrightarrow> program_reachable ud body c0 c'"

fun run_main :: "('m, 'd) body \<Rightarrow> nat \<Rightarrow> 'm main_thread \<times> 'd server \<Rightarrow> ('m main_thread \<times> 'd server) res" where
  "run_main body 0 c = Done c"
| "run_main body (Suc n) c = bind_res (main_step body c) (run_main body n)"

section \<open>The contract of a main loop\<close>

text \<open>
  \<open>J\<close> is the invariant of the loop and \<open>K\<close> what holds after it. A step may rely on the invariant of the
  device and has to keep it, and never restarts a stopped device. It completes while the program's variables
  are within its limits, \<open>fits\<close>. Once the server is interrupted and the device stopped, the loop ends after
  at most \<open>left\<close> further rounds.
\<close>

locale main_program = served_device ud I for ud :: "'d usbip_device_t" and I :: "'d \<Rightarrow> bool" +
  fixes body :: "('m, 'd) body" and J K :: "'m \<Rightarrow> bool" and fits :: "'d \<Rightarrow> bool" and left :: "'m \<Rightarrow> nat"
  assumes body_keeps: "J m \<Longrightarrow> dev_inv I d \<Longrightarrow> body interrupted m d = Done (r, d') \<Longrightarrow>
      dev_inv I d' \<and> (device_stopped d \<longrightarrow> device_stopped d') \<and> (case r of Stay m' \<Rightarrow> J m' | Leave m' \<Rightarrow> K m')"
    and body_completes: "J m \<Longrightarrow> dev_inv I d \<Longrightarrow> fits (app d) \<Longrightarrow> returns (\<lambda>_. True) (body interrupted m d)"
    and body_leaves: "J m \<Longrightarrow> dev_inv I d \<Longrightarrow> device_stopped d \<Longrightarrow>
      returns (\<lambda>(r, d'). case r of Stay m' \<Rightarrow> left m' < left m | Leave m' \<Rightarrow> True) (body True m d)"

definition program_inv :: "('d \<Rightarrow> bool) \<Rightarrow> ('m \<Rightarrow> bool) \<Rightarrow> ('m \<Rightarrow> bool) \<Rightarrow> 'm main_thread \<times> 'd server \<Rightarrow> bool" where
  "program_inv I J K c \<longleftrightarrow>
     (case c of (t, s) \<Rightarrow> server_inv I s \<and>
        (case t of
           Loop m \<Rightarrow> J m
         | Joining m \<Rightarrow> K m \<and> keep_running s = 0
         | Returned m result \<Rightarrow> K m \<and> result = EXIT_SUCCESS \<and> worker s = Finished))"

lemma worker_step_keep_running: "worker_step ud s = Done s' \<Longrightarrow> keep_running s' = keep_running s"
  by (auto simp: worker_step_def bind_res_Done_iff split: worker.splits if_splits prod.splits)

lemma int_handler_keep_running:
  "keep_running s = 0 \<Longrightarrow> keep_running (int_handler s) = 0" "worker (int_handler s) = worker s"
  by (simp_all add: int_handler_def Let_def)

lemma dev_inv_server: "server_inv I s \<Longrightarrow> dev_inv I (dev (proto s))"
  by (simp add: server_inv_def wf_srv_def)

context main_program
begin

text \<open>A step of the main thread is one the server allows its application.\<close>

lemma main_step_inv:
  assumes "program_inv I J K c" and "main_step body c = Done c'" and "\<not> exited (snd c)"
  shows "program_inv I J K c'"
proof (cases c)
  case c: (Pair t s)
  have inv: "server_inv I s" and e: "\<not> exited s" using assms(1,3) by (auto simp: program_inv_def c)
  show ?thesis
  proof (cases t)
    case (Loop m)
    obtain r d where b: "body (usbip_server_interrupted s) m (dev (proto s)) = Done (r, d)"
      and c': "c' = (case r of Stay m \<Rightarrow> (Loop m, s\<lparr>proto := (proto s)\<lparr>dev := d\<rparr>\<rparr>)
                     | Leave m \<Rightarrow> (Joining m, usbip_server_stop (s\<lparr>proto := (proto s)\<lparr>dev := d\<rparr>\<rparr>)))"
      using assms(2) by (auto simp: main_step_def c Loop bind_res_Done_iff Let_def)
    have J: "J m" using assms(1) by (simp add: program_inv_def c Loop)
    note k = body_keeps [OF J dev_inv_server [OF inv] b]
    let ?s = "s\<lparr>proto := (proto s)\<lparr>dev := d\<rparr>\<rparr>"
    have 1: "server_inv I ?s"
      by (rule server_step_inv [OF server_step.application [OF e] inv]) (use k in auto)
    have 2: "server_inv I (usbip_server_stop ?s)" by (rule server_step_inv [OF server_step.stop 1]) (use e in simp)
    show ?thesis using 1 2 k c' by (cases r) (simp_all add: program_inv_def usbip_server_stop_def)
  next
    case (Joining m)
    then show ?thesis using assms(1,2) by (auto simp: main_step_def program_inv_def c split: if_splits)
  next
    case (Returned m result)
    then show ?thesis using assms(1,2) by (auto simp: main_step_def program_inv_def c)
  qed
qed

lemma program_step_inv: "program_step ud body c c' \<Longrightarrow> program_inv I J K c \<Longrightarrow> program_inv I J K c'"
proof (induction rule: program_step.induct)
  case (main c c')
  then show ?case using main_step_inv by (simp add: running_def)
next
  case (work t s s')
  then have "server_inv I s'" using worker_step_inv [of s s'] by (simp add: program_inv_def)
  then show ?case
    using work worker_step_keep_running [OF work.hyps(2)]
    by (cases t) (auto simp: program_inv_def running_def)
next
  case (interrupt t s)
  have "server_inv I (int_handler s)"
    by (rule server_step_inv [OF server_step.interrupt]) (use interrupt in \<open>auto simp: program_inv_def running_def\<close>)
  then show ?case
    using interrupt int_handler_keep_running [of s] by (cases t) (auto simp: program_inv_def)
qed

lemma program_reachable_inv: "program_reachable ud body c0 c \<Longrightarrow> program_inv I J K c0 \<Longrightarrow> program_inv I J K c"
  by (induction rule: program_reachable.induct) (auto dest: program_step_inv)

lemma main_loop_ends:
  assumes "J m" and "server_inv I s" and "usbip_server_interrupted s" and "worker s = Finished"
  shows "\<exists>n m' s'. run_main body n (Loop m, s) = Done (Returned m' EXIT_SUCCESS, s') \<and> K m' \<and> worker s' = Finished"
  using assms
proof (induction "left m" arbitrary: m s rule: less_induct)
  case less
  note d = dev_inv_server [OF less.prems(2)]
  have st: "device_stopped (dev (proto s))" using less.prems(2,4) by (simp add: server_inv_def)
  obtain r d' where b: "body True m (dev (proto s)) = Done (r, d')"
      and dec: "case r of Stay m' \<Rightarrow> left m' < left m | Leave m' \<Rightarrow> True"
    using body_leaves [OF less.prems(1) d st] by (auto simp: returns_iff)
  note k = body_keeps [OF less.prems(1) d b]
  let ?s = "s\<lparr>proto := (proto s)\<lparr>dev := d'\<rparr>\<rparr>"
  have inv: "server_inv I ?s"
    using less.prems(2,4) k st by (auto simp: server_inv_def intro: wf_srv_dev)
  have step: "main_step body (Loop m, s) = Done (case r of Stay m \<Rightarrow> (Loop m, ?s) | Leave m \<Rightarrow> (Joining m, usbip_server_stop ?s))"
    using b less.prems(3) by (simp add: main_step_def Let_def)
  show ?case
  proof (cases r)
    case (Stay m')
    have "\<exists>n m'' s'. run_main body n (Loop m', ?s) = Done (Returned m'' EXIT_SUCCESS, s') \<and> K m'' \<and> worker s' = Finished"
      by (rule less.hyps) (use Stay dec k inv less.prems(3,4) in \<open>simp_all add: usbip_server_interrupted_def\<close>)
    then obtain n m'' s' where "run_main body n (Loop m', ?s) = Done (Returned m'' EXIT_SUCCESS, s')" "K m''" "worker s' = Finished"
      by blast
    then have "run_main body (Suc n) (Loop m, s) = Done (Returned m'' EXIT_SUCCESS, s') \<and> K m'' \<and> worker s' = Finished"
      using step Stay by simp
    then show ?thesis by blast
  next
    case (Leave m')
    have "main_step body (Joining m', usbip_server_stop ?s) = Done (Returned m' EXIT_SUCCESS, usbip_server_stop ?s)"
      using less.prems(4) by (simp add: main_step_def usbip_server_stop_def)
    then have "run_main body (Suc (Suc 0)) (Loop m, s) = Done (Returned m' EXIT_SUCCESS, usbip_server_stop ?s)"
      using step Leave by simp
    moreover have "K m'" "worker (usbip_server_stop ?s) = Finished"
      using k Leave less.prems(4) by (simp_all add: usbip_server_stop_def)
    ultimately show ?thesis by blast
  qed
qed

lemma main_step_completes:
  assumes "program_inv I J K (t, s)" and "fits (app (dev (proto s)))"
  shows "returns (\<lambda>_. True) (main_step body (t, s))"
proof (cases t)
  case (Loop m)
  then have "J m" "dev_inv I (dev (proto s))" using assms(1) dev_inv_server by (auto simp: program_inv_def)
  from body_completes [OF this assms(2), of "usbip_server_interrupted s"] show ?thesis
    by (auto simp: main_step_def Loop returns_iff Let_def)
qed (simp_all add: main_step_def)

lemma main_thread_ends:
  assumes "program_inv I J K (t, s)" and "usbip_server_interrupted s" and "worker s = Finished"
  shows "\<exists>n m s'. run_main body n (t, s) = Done (Returned m EXIT_SUCCESS, s') \<and> K m"
proof (cases t)
  case (Loop m)
  then show ?thesis using main_loop_ends [of m s] assms by (auto simp: program_inv_def)
next
  case (Joining m)
  then have "run_main body 1 (t, s) = Done (Returned m EXIT_SUCCESS, s)" "K m"
    using assms(1,3) by (simp_all add: main_step_def program_inv_def)
  then show ?thesis by blast
next
  case (Returned m c)
  then have "run_main body 0 (t, s) = Done (Returned m EXIT_SUCCESS, s)" "K m"
    using assms(1) by (simp_all add: program_inv_def)
  then show ?thesis by blast
qed

end

lemma worker_step_main:
  assumes "worker_step ud s = Done s'" and "program_inv I J K (t, s)" and "served_device ud I" and "usbip_server_interrupted s"
  shows "program_inv I J K (t, s') \<and> usbip_server_interrupted s'"
  using assms worker_step_keep_running [OF assms(1)] served_device.worker_step_inv [OF assms(3) _ assms(1)]
  by (cases t) (auto simp: program_inv_def usbip_server_interrupted_def worker_step_def)

lemma program_start_inv:
  assumes "wf_srv I p" and "\<not> device_imported p" and "pend p = []" and "J m"
    and "program_start m event_fd r err p = Inl c"
  shows "program_inv I J K c"
proof -
  obtain n where c: "c = (Loop m, init_server (p\<lparr>net := n\<rparr>))"
    using assms(5) by (auto simp: program_start_def usbip_server_start_def Let_def split: prod.splits if_splits)
  have "server_inv I (init_server (p\<lparr>net := n\<rparr>))" by (rule server_inv_init) (use assms in simp_all)
  then show ?thesis using assms(4) by (simp add: program_inv_def c)
qed

context main_program
begin

lemma started_inv:
  assumes "wf_srv I p" and "\<not> device_imported p" and "pend p = []" and "J m"
    and "program_start m event_fd r err p = Inl c" and "program_reachable ud body c x"
  shows "program_inv I J K x"
  by (rule program_reachable_inv [OF assms(6)])
    (rule program_start_inv [where J = J and m = m, OF assms(1-5)])

end

end
