(* ===== verification/Usb_Cdc.thy ===== *)
theory Usb_Cdc
  imports Examples
begin

text \<open>
  The serial port example, \<open>src/usb_cdc\<close>: descriptors, callbacks and main loop of a CDC ACM device. The
  record \<open>cdc\<close> holds \<open>cdc_state\<close> and the other static variables. One round of the main loop is
  \<open>cdc_tick\<close>, which gives the text to transmit while a terminal is open, followed by the critical
  section \<open>cdc_take_input\<close>.
\<close>

section \<open>Descriptors\<close>

definition cdc_strings :: "(u8 \<times> string option) list" where
  "cdc_strings =
     [(1, Some ''Virtual UsbIP''), (2, Some ''Virtual CDC Device''), (4, Some ''ABC123''), (0, None)]"

abbreviation (input) CDC_VID :: u16 where "CDC_VID \<equiv> 0xfa00"
abbreviation (input) CDC_PID :: u16 where "CDC_PID \<equiv> 0x0001"

definition cdc_device_descriptor :: "u8 list" where
  "cdc_device_descriptor =
     [USB_DEVICE_DESCRIPTOR_LENGTH, USB_DESCRIPTOR_TYPE_DEVICE,
      LOBYTE USB_BCD_VERSION, HIBYTE USB_BCD_VERSION, 0x00, 0x00, 0x00, 64,
      LOBYTE CDC_VID, HIBYTE CDC_VID, LOBYTE CDC_PID, HIBYTE CDC_PID,
      LOBYTE USB_BCD_DEVICE_REL, HIBYTE USB_BCD_DEVICE_REL, 1, 2, 4, 1]"

abbreviation (input) USB_CDC_CONFIG_DESC_LENGTH :: u16 where "USB_CDC_CONFIG_DESC_LENGTH \<equiv> 67"
abbreviation (input) CDC_CMD_PACKET_SZE :: u16 where "CDC_CMD_PACKET_SZE \<equiv> 8"
abbreviation (input) CDC_DATA_PACKET_SZE :: u16 where "CDC_DATA_PACKET_SZE \<equiv> 512"

definition cdc_config_descriptor :: "u8 list" where
  "cdc_config_descriptor =
     [0x09, USB_DESCRIPTOR_TYPE_CONFIGURATION,
      LOBYTE USB_CDC_CONFIG_DESC_LENGTH, HIBYTE USB_CDC_CONFIG_DESC_LENGTH,
      0x02, 0x01, 0x04, 0xC0, 0x32,
      \<comment> \<open>communication interface\<close>
      0x09, USB_DESCRIPTOR_TYPE_INTERFACE, 0x00, 0x00, 0x01, 0x02, 0x02, 0x01, 0x00,
      \<comment> \<open>functional descriptors: header, call management, ACM, union\<close>
      0x05, 0x24, 0x00, 0x10, 0x01,
      0x05, 0x24, 0x01, 0x00, 0x01,
      0x04, 0x24, 0x02, 0x02,
      0x05, 0x24, 0x06, 0x00, 0x01,
      \<comment> \<open>notification endpoint\<close>
      0x07, USB_DESCRIPTOR_TYPE_ENDPOINT, 0x82, 0x03,
      LOBYTE CDC_CMD_PACKET_SZE, HIBYTE CDC_CMD_PACKET_SZE, 0x08,
      \<comment> \<open>data interface\<close>
      0x09, USB_DESCRIPTOR_TYPE_INTERFACE, 0x01, 0x00, 0x02, 0x0A, 0x00, 0x00, 0x00,
      \<comment> \<open>endpoint OUT\<close>
      0x07, USB_DESCRIPTOR_TYPE_ENDPOINT, 0x01, 0x02,
      LOBYTE CDC_DATA_PACKET_SZE, HIBYTE CDC_DATA_PACKET_SZE, 0x00,
      \<comment> \<open>endpoint IN\<close>
      0x07, USB_DESCRIPTOR_TYPE_ENDPOINT, 0x81, 0x02,
      LOBYTE CDC_DATA_PACKET_SZE, HIBYTE CDC_DATA_PACKET_SZE, 0x00]"

definition cdc_langid_desc :: "u8 list" where
  "cdc_langid_desc = [4, USB_DESCRIPTOR_TYPE_STRING, LOBYTE 0x409, HIBYTE 0x409]"

section \<open>The program\<close>

abbreviation (input) CDC_SET_LINE_CODING :: u8 where "CDC_SET_LINE_CODING \<equiv> 0x20"
abbreviation (input) CDC_SET_CONTROL_LINE_STATE :: u8 where "CDC_SET_CONTROL_LINE_STATE \<equiv> 0x22"
abbreviation (input) CDC_SEND_BREAK :: u8 where "CDC_SEND_BREAK \<equiv> 0x23"
abbreviation (input) CDC_INPUT_BUFFER_LENGTH :: nat where "CDC_INPUT_BUFFER_LENGTH \<equiv> 10"

record cdc_state_t =
  cdc_DTR :: bool
  cdc_RTS :: bool
  cdc_baudrate :: u32
  cdc_char_format :: u8
  cdc_parity :: u8
  cdc_data_bits :: u8

record cdc =
  cdc_state :: cdc_state_t
  cdc_input_buffer :: "u8 list"
  cdc_input_buffer_pos :: nat
  cdc_tick_counter :: u32

definition init_cdc :: cdc where
  "init_cdc =
     \<lparr>cdc_state = \<lparr>cdc_DTR = False, cdc_RTS = False, cdc_baudrate = 0, cdc_char_format = 0,
                   cdc_parity = 0, cdc_data_bits = 0\<rparr>,
      cdc_input_buffer = replicate CDC_INPUT_BUFFER_LENGTH 0, cdc_input_buffer_pos = 0,
      cdc_tick_counter = 0\<rparr>"

text \<open>The baud rate is put together in \<open>int\<close>; a byte shifted into the sign bit is the top byte of the result.\<close>

definition cdc_control_data :: "u8 list \<Rightarrow> u8 list \<Rightarrow> nat \<Rightarrow> cdc device \<Rightarrow> cdc device res" where
  "cdc_control_data setup data data_length d =
     (let bRequest = setup ! 1;
          wValue = le16 (setup ! 2) (setup ! 3);
          a = app d;
          st = cdc_state a
      in
      if bRequest = CDC_SET_LINE_CODING then
        (if data_length = 7 then
           bind_res (read_mem data 0 7) (\<lambda>data.
             Done (d\<lparr>app := a\<lparr>cdc_state := st\<lparr>
               cdc_baudrate := le32 (data ! 0) (data ! 1) (data ! 2) (data ! 3),
               cdc_char_format := data ! 4, cdc_parity := data ! 5, cdc_data_bits := data ! 6\<rparr>\<rparr>\<rparr>))
         else Done d)
      else if bRequest = CDC_SET_CONTROL_LINE_STATE then
        Done (d\<lparr>app := a\<lparr>cdc_state := st\<lparr>cdc_DTR := (wValue AND 0x01 \<noteq> 0), cdc_RTS := (wValue AND 0x02 \<noteq> 0)\<rparr>\<rparr>\<rparr>)
      else Done d)"

definition cdc_endpoint_data :: "u8 \<Rightarrow> u8 list \<Rightarrow> nat \<Rightarrow> cdc device \<Rightarrow> cdc device res" where
  "cdc_endpoint_data ep data data_length d =
     (let a = app d in
      if cdc_input_buffer_pos a + data_length \<le> CDC_INPUT_BUFFER_LENGTH then
        bind_res (read_mem data 0 data_length) (\<lambda>bytes.
        bind_res (write_mem (cdc_input_buffer a) (cdc_input_buffer_pos a) bytes) (\<lambda>buffer.
          Done (d\<lparr>app := a\<lparr>cdc_input_buffer := buffer,
                            cdc_input_buffer_pos := cdc_input_buffer_pos a + data_length\<rparr>\<rparr>)))
      else Done d)"

definition cdc_reset :: "cdc device \<Rightarrow> cdc device res" where
  "cdc_reset d =
     (let a = app d in
      Done (d\<lparr>app := a\<lparr>cdc_state := (cdc_state a)\<lparr>cdc_DTR := False, cdc_RTS := False\<rparr>,
                        cdc_input_buffer_pos := 0\<rparr>\<rparr>))"

definition cdc_device :: "cdc usbip_device_t" where
  "cdc_device =
     \<lparr>device_desc = cdc_device_descriptor, config_desc = cdc_config_descriptor,
      langid_desc = cdc_langid_desc, usb_strings = Some cdc_strings,
      control_data_callback = cdc_control_data, ep_data_callback = Some cdc_endpoint_data,
      reset_callback = Some cdc_reset, iso_in_callback = None\<rparr>"

text \<open>
  The text transmitted in one round of the main loop, if any. The counter is printed with \<open>%d\<close>, so as
  a signed number; \<open>snprintf\<close> writes at most 99 characters.
\<close>

definition cdc_tick :: "cdc \<Rightarrow> u8 list option \<times> cdc" where
  "cdc_tick a =
     (if cdc_DTR (cdc_state a)
      then (Some (map of_char (take 99 (''Tick '' @ decimal (sint (cdc_tick_counter a)) @ [CHR 0x0A]))),
            a\<lparr>cdc_tick_counter := cdc_tick_counter a + 1\<rparr>)
      else (None, a))"

text \<open>The critical section: the bytes it prints and the new state.\<close>

definition cdc_take_input :: "cdc \<Rightarrow> (u8 list \<times> cdc) res" where
  "cdc_take_input a =
     (if cdc_input_buffer_pos a > 0 then
        bind_res (read_mem (cdc_input_buffer a) 0 (cdc_input_buffer_pos a)) (\<lambda>printed.
          Done (printed, a\<lparr>cdc_input_buffer_pos := 0\<rparr>))
      else Done ([], a))"

section \<open>The contract of the library\<close>

definition cdc_inv :: "cdc \<Rightarrow> bool" where
  "cdc_inv a \<longleftrightarrow> length (cdc_input_buffer a) = CDC_INPUT_BUFFER_LENGTH \<and>
     cdc_input_buffer_pos a \<le> CDC_INPUT_BUFFER_LENGTH"

definition cdc_collected :: "cdc \<Rightarrow> u8 list" where
  "cdc_collected a = take (cdc_input_buffer_pos a) (cdc_input_buffer a)"

lemma cdc_inv_init [simp]: "cdc_inv init_cdc" "cdc_collected init_cdc = []"
  by (simp_all add: cdc_inv_def init_cdc_def cdc_collected_def)

interpretation cdc_input: input_collector cdc_endpoint_data cdc_collected cdc_inv 10
proof
  fix a
  show "cdc_inv a \<Longrightarrow> length (cdc_collected a) \<le> 10" by (simp add: cdc_inv_def cdc_collected_def)
next
  fix d :: "cdc device" and n and data :: "u8 list" and ep
  assume *: "cdc_inv (app d)" "n \<le> length data"
  let ?a = "app d" and ?p = "cdc_input_buffer_pos (app d)"
  let ?b = "overwrite (cdc_input_buffer ?a) ?p (take n data)"
  have l: "length (cdc_collected ?a) = ?p" using * by (simp add: cdc_collected_def cdc_inv_def)
  show "\<exists>a. cdc_endpoint_data ep data n d = Done (d\<lparr>app := a\<rparr>) \<and> cdc_inv a \<and>
      cdc_collected a = (if length (cdc_collected ?a) + n \<le> 10 then cdc_collected ?a @ take n data
        else cdc_collected ?a)"
  proof (cases "?p + n \<le> 10")
    case True
    then have "take (?p + n) ?b = take ?p (cdc_input_buffer ?a) @ take n data"
      using take_overwrite_append [of ?p "take n data" "cdc_input_buffer ?a"] * by (simp add: cdc_inv_def)
    then show ?thesis
      using True * unfolding l
      by (intro exI [of _ "?a\<lparr>cdc_input_buffer := ?b, cdc_input_buffer_pos := ?p + n\<rparr>"])
        (simp add: cdc_endpoint_data_def Let_def cdc_inv_def cdc_collected_def)
  next
    case False
    then show ?thesis
      using * unfolding l by (intro exI [of _ ?a]) (simp add: cdc_endpoint_data_def Let_def)
  qed
qed

lemma cdc_control_returns:
  "dev_inv cdc_inv d \<Longrightarrow> n \<le> length data \<Longrightarrow> returns (dev_inv cdc_inv) (cdc_control_data usb_setup data n d)"
  by (auto simp: cdc_control_data_def Let_def dev_inv_def cdc_inv_def)

interpretation cdc: served_device cdc_device cdc_inv
proof
  show "wf_descriptors cdc_device" "wf_config (config_desc cdc_device)" by code_simp+
next
  fix d :: "cdc device" and n and data :: "u8 list" and callback ep
  assume "dev_inv cdc_inv d" "n \<le> length data" "ep_data_callback cdc_device = Some callback"
  then show "returns (dev_inv cdc_inv) (callback ep data n d)"
    using cdc_input.store_returns by (auto simp: cdc_device_def)
next
  fix d :: "cdc device" and rcallback
  assume "dev_inv cdc_inv d" "reset_callback cdc_device = Some rcallback"
  then show "returns (dev_inv cdc_inv) (rcallback d)"
    by (auto simp: cdc_device_def cdc_reset_def Let_def dev_inv_def cdc_inv_def)
qed (simp_all add: cdc_device_def cdc_control_returns)

section \<open>Properties\<close>

lemma receive_cdc: "usbip_device_receive cdc_device = cdc_endpoint_data"
  by (simp add: fun_eq_iff usbip_device_receive_def cdc_device_def)



text \<open>
  The requests of the CDC class: \<open>SET_LINE_CODING\<close> stores the settings exactly as the host encoded
  them, \<open>SET_CONTROL_LINE_STATE\<close> the two line states, and both are accepted. The device sends ticks
  only while a terminal is open, from the request that raises DTR to the one that lowers it or to the
  next attach or detach.
\<close>

theorem cdc_requests:
  "(\<exists>d'. usbip_device_control cdc_device [0x21, 0x20, 0, 0, 0, 0, 7, 0]
        (le_bytes32 baud @ [format, parity, bits] @ rest) 7 d = Done (True, d') \<and>
      cdc_state (app d') = (cdc_state (app d))\<lparr>cdc_baudrate := baud, cdc_char_format := format,
        cdc_parity := parity, cdc_data_bits := bits\<rparr>) \<and>
   (\<exists>d'. usbip_device_control cdc_device [0x21, 0x22, lines, 0, 0, 0, 0, 0] data 0 d = Done (True, d') \<and>
      (fst (cdc_tick (app d')) \<noteq> None \<longleftrightarrow> bit lines 0) \<and> (cdc_RTS (cdc_state (app d')) \<longleftrightarrow> bit lines 1)) \<and>
   (\<exists>d'. usbip_device_reset cdc_device d = Done d' \<and> fst (cdc_tick (app d')) = None \<and>
      cdc_collected (app d') = [])"
  (is "?coding \<and> ?lines \<and> ?reset")
proof -
  have t: "drop_bit 5 (0x21 :: u8) AND 3 = 1" by code_simp
  note control = usbip_device_control_alt control_callback_def cdc_device_def cdc_control_data_def Let_def t
  let ?data = "le_bytes32 baud @ [format, parity, bits]"
  have "read_mem (?data @ rest) 0 7 = Done ?data" by simp
  moreover have "le32 (?data ! 0) (?data ! 1) (?data ! 2) (?data ! 3) = baud"
    using u32_at_le_bytes [of baud "[format, parity, bits]"] by (simp add: u32_at_def numeral_2_eq_2)
  moreover have "?data ! 4 = format" "?data ! 5 = parity" "?data ! 6 = bits" by (simp_all add: nth_append)
  ultimately have ?coding by (simp add: control control_start_def)
  moreover have "le16 lines 0 AND 1 = of_bool (bit lines 0)" "le16 lines 0 AND 2 = (if bit lines 1 then 2 else 0)"
    unfolding le16_def
    by (rule bit_word_eqI; auto simp: bit_simps bit_double_iff numeral_2_eq_2 bit_1_iff dest: bit_imp_le_length)+
  then have ?lines by (simp add: control cdc_tick_def control_start_def)
  moreover have ?reset
    by (simp add: usbip_device_reset_def cdc_device_def cdc_reset_def Let_def cdc_tick_def cdc_collected_def)
  ultimately show ?thesis by blast
qed

end
