(* ===== verification/Usb_Mouse.thy ===== *)
theory Usb_Mouse
  imports Examples Complex_Main
begin

text \<open>
  The mouse example, \<open>src/usb_mouse\<close>: a HID mouse that moves the pointer in a circle. The device has no
  variables of its own; \<open>step_counter\<close> of the main loop is the argument of \<open>mouse_step\<close>. The position on
  the circle is computed with \<open>double\<close> and functions of the C library, which are the record \<open>double_ops\<close>,
  an argument of the definitions; \<open>accurate\<close> says how far the positions may be from the circle.
\<close>

section \<open>Descriptors\<close>

definition mouse_strings :: "(u8 \<times> string option) list" where
  "mouse_strings =
     [(1, Some ''Virtual UsbIP''), (2, Some ''Virtual HID Mouse''), (4, Some ''ABC123''), (0, None)]"

abbreviation (input) MOUSE_VID :: u16 where "MOUSE_VID \<equiv> 0xfa00"
abbreviation (input) MOUSE_PID :: u16 where "MOUSE_PID \<equiv> 0x0002"

definition usb_mouse_device :: "u8 list" where
  "usb_mouse_device =
     [USB_DEVICE_DESCRIPTOR_LENGTH, USB_DESCRIPTOR_TYPE_DEVICE,
      LOBYTE USB_BCD_VERSION, HIBYTE USB_BCD_VERSION, 0x00, 0x00, 0x00, 64,
      LOBYTE MOUSE_VID, HIBYTE MOUSE_VID, LOBYTE MOUSE_PID, HIBYTE MOUSE_PID,
      LOBYTE USB_BCD_DEVICE_REL, HIBYTE USB_BCD_DEVICE_REL, 1, 2, 4, 1]"

abbreviation (input) USB_MOUSE_CONFIG_DESC_LENGTH :: u16 where "USB_MOUSE_CONFIG_DESC_LENGTH \<equiv> 34"
abbreviation (input) HID_MOUSE_REPORT_DESC_LENGTH :: u16 where "HID_MOUSE_REPORT_DESC_LENGTH \<equiv> 50"
abbreviation (input) USB_MOUSE_HID_EP_DATA_IN :: u8 where "USB_MOUSE_HID_EP_DATA_IN \<equiv> 0x81"
abbreviation (input) USB_MOUSE_HID_POLL_INTERVAL_MS :: nat where "USB_MOUSE_HID_POLL_INTERVAL_MS \<equiv> 16"
abbreviation (input) USB_MOUSE_HID_POLL_INTERVAL :: u8 where "USB_MOUSE_HID_POLL_INTERVAL \<equiv> 8"
abbreviation (input) MOUSE_HID_BCD :: u16 where "MOUSE_HID_BCD \<equiv> 0x111"

definition usb_mouse_configuration :: "u8 list" where
  "usb_mouse_configuration =
     [0x09, USB_DESCRIPTOR_TYPE_CONFIGURATION,
      LOBYTE USB_MOUSE_CONFIG_DESC_LENGTH, HIBYTE USB_MOUSE_CONFIG_DESC_LENGTH,
      0x01, 0x01, 0x00, 0xC0, 0x32,
      \<comment> \<open>mouse interface\<close>
      0x09, USB_DESCRIPTOR_TYPE_INTERFACE, 0x00, 0x00, 0x01, 0x03, 0x01, 0x02, 0,
      \<comment> \<open>HID descriptor\<close>
      0x09, USB_DESCRIPTOR_TYPE_HID, LOBYTE MOUSE_HID_BCD, HIBYTE MOUSE_HID_BCD, 0x00, 0x01,
      USB_DESCRIPTOR_TYPE_REPORT,
      LOBYTE HID_MOUSE_REPORT_DESC_LENGTH, HIBYTE HID_MOUSE_REPORT_DESC_LENGTH,
      \<comment> \<open>endpoint\<close>
      0x07, USB_DESCRIPTOR_TYPE_ENDPOINT, USB_MOUSE_HID_EP_DATA_IN, 0x03, 0x04, 0x00,
      USB_MOUSE_HID_POLL_INTERVAL]"

definition mouse_langid_desc :: "u8 list" where
  "mouse_langid_desc = [4, USB_DESCRIPTOR_TYPE_STRING, LOBYTE 0x409, HIBYTE 0x409]"

definition usb_mouse_hid_report :: "u8 list" where
  "usb_mouse_hid_report =
     [0x05, 0x01, 0x09, 0x02, 0xa1, 0x01, 0x09, 0x01, 0xa1, 0x00, 0x05, 0x09, 0x19, 0x01, 0x29, 0x03,
      0x15, 0x00, 0x25, 0x01, 0x75, 0x01, 0x95, 0x03, 0x81, 0x02, 0x95, 0x01, 0x75, 0x05, 0x81, 0x01,
      0x05, 0x01, 0x09, 0x30, 0x09, 0x31, 0x15, 0x81, 0x25, 0x7f, 0x75, 0x08, 0x95, 0x03, 0x81, 0x06,
      0xc0, 0xc0]"

section \<open>The program\<close>

definition mouse_control_data :: "u8 list \<Rightarrow> u8 list \<Rightarrow> nat \<Rightarrow> unit device \<Rightarrow> unit device res" where
  "mouse_control_data setup data data_length d =
     (let bRequestType = setup ! 0;
          bRequest = setup ! 1
      in
      if bRequestType = 0x81 \<and> bRequest = USB_REQUEST_GET_DESCRIPTOR \<and> setup ! 3 = USB_DESCRIPTOR_TYPE_REPORT then
        (let len = unat (le16 (setup ! 6) (setup ! 7));
             len = (if len > length usb_mouse_hid_report then length usb_mouse_hid_report else len)
         in bind_res (usbip_device_transmit 0 usb_mouse_hid_report len d) (\<lambda>(stored, d). Done d))
      else Done d)"

definition mouse_device :: "unit usbip_device_t" where
  "mouse_device =
     \<lparr>device_desc = usb_mouse_device, config_desc = usb_mouse_configuration,
      langid_desc = mouse_langid_desc, usb_strings = Some mouse_strings,
      control_data_callback = mouse_control_data, ep_data_callback = None,
      reset_callback = None, iso_in_callback = None\<rparr>"

abbreviation (input) CIRCLE_RADIUS :: real where "CIRCLE_RADIUS \<equiv> 200"
abbreviation (input) NUMBER_OF_STEPS :: u16 where "NUMBER_OF_STEPS \<equiv> 62"  \<comment> \<open>1000 / 16\<close>

text \<open>
  The operations on \<open>double\<close> and the functions of the C library that compute a position: \<open>dbl n\<close> is the
  \<open>double\<close> for the integer \<open>n\<close>, \<open>dbl_float\<close> the rounding to \<open>float\<close>, \<open>dbl_i16\<close> the conversion to \<open>int16_t\<close>.
\<close>

record 'f double_ops =
  M_PI :: 'f
  dbl :: "int \<Rightarrow> 'f"
  dbl_mul :: "'f \<Rightarrow> 'f \<Rightarrow> 'f"
  dbl_div :: "'f \<Rightarrow> 'f \<Rightarrow> 'f"
  dbl_float :: "'f \<Rightarrow> 'f"
  dbl_cos :: "'f \<Rightarrow> 'f"
  dbl_sin :: "'f \<Rightarrow> 'f"
  dbl_i16 :: "'f \<Rightarrow> u16"

definition mouse_position :: "'f double_ops \<Rightarrow> u16 \<Rightarrow> u16 \<times> u16" where
  "mouse_position D step_counter =
     (let angle = dbl_float D (dbl_div D (dbl_mul D (dbl_mul D (dbl D 2) (M_PI D)) (dbl D (uint step_counter))) (dbl D 62))
      in (dbl_i16 D (dbl_mul D (dbl D 200) (dbl_cos D angle)), dbl_i16 D (dbl_mul D (dbl D 200) (dbl_sin D angle))))"

text \<open>
  One round of the main loop: the report it transmits on \<open>USB_MOUSE_HID_EP_DATA_IN\<close> and the next step.
  The \<open>int16_t\<close> values are words; a word is stored in a byte of the report by dropping its high byte.
\<close>

definition mouse_step :: "(u16 \<Rightarrow> u16 \<times> u16) \<Rightarrow> u16 \<Rightarrow> u8 list \<times> u16" where
  "mouse_step position step_counter =
     (let (old_pos_x, old_pos_y) = position step_counter;
          step_counter = step_counter + 1;
          step_counter = (if step_counter \<ge> NUMBER_OF_STEPS then 0 else step_counter);
          (new_pos_x, new_pos_y) = position step_counter;
          delta_x = new_pos_x - old_pos_x;
          delta_y = new_pos_y - old_pos_y
      in ([0, ucast delta_x, ucast delta_y, 0], step_counter))"

section \<open>The contract of the library\<close>

interpretation mouse_report: report_device mouse_control_data usb_mouse_hid_report
  by unfold_locales (auto simp: mouse_control_data_def Let_def min_def intro!: exI [of _ "()"])

interpretation mouse: served_device mouse_device "\<lambda>_. True"
proof
  show "wf_descriptors mouse_device" "wf_config (config_desc mouse_device)" by code_simp+
qed (use mouse_report.callback_returns in \<open>auto simp: mouse_device_def dev_inv_True\<close>)

section \<open>The circle\<close>

definition accurate :: "(u16 \<Rightarrow> u16 \<times> u16) \<Rightarrow> bool" where
  "accurate position \<longleftrightarrow> (\<forall>i < 62.
     \<bar>real_of_int (sint (fst (position (of_nat i)))) - CIRCLE_RADIUS * cos (2 * pi * real i / 62)\<bar> < 2 \<and>
     \<bar>real_of_int (sint (snd (position (of_nat i)))) - CIRCLE_RADIUS * sin (2 * pi * real i / 62)\<bar> < 2)"

text \<open>The pointer of the host: it adds up the signed bytes of the reports.\<close>

fun pointer :: "(u16 \<Rightarrow> u16 \<times> u16) \<Rightarrow> nat \<Rightarrow> (int \<times> int) \<times> u16" where
  "pointer position 0 = ((0, 0), 0)"
| "pointer position (Suc n) =
     (let ((x, y), step_counter) = pointer position n;
          (report, step_counter) = mouse_step position step_counter
      in ((x + sint (report ! 1), y + sint (report ! 2)), step_counter))"

lemma cos_sin_lipschitz: "\<bar>cos a - cos b\<bar> \<le> \<bar>a - b\<bar>" "\<bar>sin a - sin b\<bar> \<le> \<bar>a - b\<bar>" for a b :: real
proof -
  have s: "\<bar>sin ((b - a) / 2)\<bar> \<le> \<bar>a - b\<bar> / 2" "\<bar>sin ((a - b) / 2)\<bar> \<le> \<bar>a - b\<bar> / 2"
    using abs_sin_x_le_abs_x [of "(b - a) / 2"] abs_sin_x_le_abs_x [of "(a - b) / 2"] by auto
  have "\<bar>cos a - cos b\<bar> = 2 * (\<bar>sin ((a + b) / 2)\<bar> * \<bar>sin ((b - a) / 2)\<bar>)"
    by (simp add: cos_diff_cos abs_mult)
  also have "\<dots> \<le> 2 * (1 * (\<bar>a - b\<bar> / 2))"
    by (intro mult_left_mono mult_mono) (use s in auto)
  finally show "\<bar>cos a - cos b\<bar> \<le> \<bar>a - b\<bar>" by simp
  have "\<bar>sin a - sin b\<bar> = 2 * (\<bar>sin ((a - b) / 2)\<bar> * \<bar>cos ((a + b) / 2)\<bar>)"
    by (simp add: sin_diff_sin abs_mult)
  also have "\<dots> \<le> 2 * ((\<bar>a - b\<bar> / 2) * 1)"
    by (intro mult_left_mono mult_mono) (use s in auto)
  finally show "\<bar>sin a - sin b\<bar> \<le> \<bar>a - b\<bar>" by simp
qed

lemma angle_step: "\<bar>2 * pi * real (Suc i) / 62 - 2 * pi * real i / 62\<bar> < 1 / 5"
proof -
  have "2 * pi * real (Suc i) / 62 - 2 * pi * real i / 62 = pi / 31" by (simp add: field_simps)
  moreover have "0 < pi" "pi < 4" using pi_gt_zero pi_less_4 by auto
  ultimately show ?thesis by simp
qed

lemma byte_delta:
  fixes v w :: u16
  assumes "\<bar>sint v - sint w\<bar> \<le> 127"
  shows "sint (ucast (v - w) :: u8) = sint v - sint w"
proof -
  have u: "(ucast x :: u8) = word_of_int (sint x)" for x :: u16
    by (rule bit_word_eqI) (auto simp: bit_simps bit_sint_iff min_def)
  have "sint (v - w) = sint v - sint w"
    using assms by (simp add: sint_word_ariths(2) signed_take_bit_int_eq_self)
  then show ?thesis
    unfolding u sint_sbintrunc' using assms by (simp add: signed_take_bit_int_eq_self)
qed

text \<open>The step after the last one is the first one, and the angle has gone once around.\<close>

lemma accurate_at:
  assumes "accurate position"
  shows "\<bar>real_of_int (sint (fst (position (of_nat (n mod 62))))) - 200 * cos (2 * pi * real n / 62)\<bar> < 2"
    and "\<bar>real_of_int (sint (snd (position (of_nat (n mod 62))))) - 200 * sin (2 * pi * real n / 62)\<bar> < 2"
proof -
  have "real n = real (n mod 62) + 62 * real (n div 62)"
    using mod_mult_div_eq [of n 62] by (metis of_nat_add of_nat_mult of_nat_numeral)
  then have e: "2 * pi * real n / 62 = 2 * pi * real (n mod 62) / 62 + 2 * pi * real (n div 62)"
    by (simp add: field_simps)
  have c: "cos (2 * pi * real (n div 62)) = 1" "sin (2 * pi * real (n div 62)) = 0"
    using cos_int_2pin [of "int (n div 62)"] sin_int_2pin [of "int (n div 62)"] by simp_all
  have "cos (2 * pi * real n / 62) = cos (2 * pi * real (n mod 62) / 62)"
    "sin (2 * pi * real n / 62) = sin (2 * pi * real (n mod 62) / 62)"
    unfolding e cos_add sin_add c by simp_all
  then show "\<bar>real_of_int (sint (fst (position (of_nat (n mod 62))))) - 200 * cos (2 * pi * real n / 62)\<bar> < 2"
    "\<bar>real_of_int (sint (snd (position (of_nat (n mod 62))))) - 200 * sin (2 * pi * real n / 62)\<bar> < 2"
    using assms by (simp_all add: accurate_def)
qed

lemma close_positions:
  fixes a b :: real
  assumes "\<bar>real_of_int k - 200 * a\<bar> < 2" and "\<bar>real_of_int l - 200 * b\<bar> < 2" and "\<bar>a - b\<bar> < 1 / 5"
  shows "\<bar>k - l\<bar> \<le> 127"
proof -
  have "real_of_int (k - l) < real_of_int 44" "real_of_int (- 44) < real_of_int (k - l)"
    using assms unfolding abs_less_iff by simp_all
  then show ?thesis unfolding of_int_less_iff by simp
qed

lemma step_deltas:
  assumes "accurate position"
  shows "\<bar>sint (fst (position (of_nat (Suc n mod 62)))) - sint (fst (position (of_nat (n mod 62))))\<bar> \<le> 127"
    and "\<bar>sint (snd (position (of_nat (Suc n mod 62)))) - sint (snd (position (of_nat (n mod 62))))\<bar> \<le> 127"
proof -
  let ?a = "2 * pi * real (Suc n) / 62" and ?b = "2 * pi * real n / 62"
  have "\<bar>cos ?a - cos ?b\<bar> < 1 / 5" "\<bar>sin ?a - sin ?b\<bar> < 1 / 5"
    using cos_sin_lipschitz [of ?a ?b] angle_step [of n] by (auto intro: order.strict_trans1)
  note this [THEN close_positions [rotated 2]]
  then show "\<bar>sint (fst (position (of_nat (Suc n mod 62)))) - sint (fst (position (of_nat (n mod 62))))\<bar> \<le> 127"
    "\<bar>sint (snd (position (of_nat (Suc n mod 62)))) - sint (snd (position (of_nat (n mod 62))))\<bar> \<le> 127"
    using accurate_at [OF assms, of n] accurate_at [OF assms, of "Suc n"] by blast+
qed

lemma next_step:
  "k < 62 \<Longrightarrow> (if (of_nat k :: u16) + 1 \<ge> 62 then 0 else of_nat k + 1 :: u16) = of_nat (if k = 61 then 0 else Suc k)"
proof -
  assume "k < 62"
  have e: "of_nat k + 1 = (of_nat (Suc k) :: u16)" by simp
  have "unat (of_nat (Suc k) :: u16) = Suc k" using \<open>k < 62\<close> by (intro unat_of_nat_less) simp
  then have "(of_nat (Suc k) :: u16) \<ge> 62 \<longleftrightarrow> k = 61" unfolding word_le_nat_alt using \<open>k < 62\<close> by auto
  then show ?thesis unfolding e by (simp del: of_nat_Suc)
qed

lemma mouse_step_mod:
  "mouse_step position (of_nat (n mod 62)) =
     ([0, ucast (fst (position (of_nat (Suc n mod 62))) - fst (position (of_nat (n mod 62)))),
       ucast (snd (position (of_nat (Suc n mod 62))) - snd (position (of_nat (n mod 62)))), 0], of_nat (Suc n mod 62))"
proof -
  have "(if (of_nat (n mod 62) :: u16) + 1 \<ge> 62 then 0 else of_nat (n mod 62) + 1 :: u16) = of_nat (Suc n mod 62)"
    using next_step [of "n mod 62"] unfolding mod_Suc by auto
  note e = this
  show ?thesis unfolding mouse_step_def Let_def case_prod_unfold e ..
qed

lemma pointer_position:
  assumes "accurate position"
  shows "pointer position n =
     ((sint (fst (position (of_nat (n mod 62)))) - sint (fst (position 0)),
       sint (snd (position (of_nat (n mod 62)))) - sint (snd (position 0))), of_nat (n mod 62))"
proof (induction n)
  case (Suc n)
  show ?case
    using byte_delta [OF step_deltas(1) [OF assms, of n]] byte_delta [OF step_deltas(2) [OF assms, of n]]
    by (simp add: Suc.IH mouse_step_mod)
qed simp


text \<open>The conversion of a floating point number to an integer drops its fraction.\<close>

definition truncate_real :: "real \<Rightarrow> int" where
  "truncate_real r = (if r < 0 then \<lceil>r\<rceil> else \<lfloor>r\<rfloor>)"

definition circle_position :: "u16 \<Rightarrow> u16 \<times> u16" where
  "circle_position i =
     (word_of_int (truncate_real (200 * cos (2 * pi * real (unat i) / 62))),
      word_of_int (truncate_real (200 * sin (2 * pi * real (unat i) / 62))))"

lemma truncate_real_close:
  assumes "\<bar>c\<bar> \<le> 1"
  shows "\<bar>real_of_int (sint (word_of_int (truncate_real (200 * c)) :: u16)) - 200 * c\<bar> < 2"
proof -
  have c: "\<bar>real_of_int (truncate_real (200 * c)) - 200 * c\<bar> < 1"
    unfolding truncate_real_def by (auto simp: abs_less_iff) linarith+
  then have "real_of_int (truncate_real (200 * c)) < real_of_int 202" "real_of_int (- 202) < real_of_int (truncate_real (200 * c))"
    using assms by (auto simp: abs_less_iff abs_le_iff)
  then have "\<bar>truncate_real (200 * c)\<bar> < 202" unfolding of_int_less_iff by simp
  then have "sint (word_of_int (truncate_real (200 * c)) :: u16) = truncate_real (200 * c)"
    unfolding sint_sbintrunc' by (simp add: signed_take_bit_int_eq_self)
  with c show ?thesis by simp
qed

lemma accurate_circle_position: "accurate circle_position"
  unfolding accurate_def
proof (intro allI impI)
  fix i :: nat
  assume "i < 62"
  then have e: "unat (of_nat i :: u16) = i" by (intro unat_of_nat_less) simp
  show "\<bar>real_of_int (sint (fst (circle_position (of_nat i)))) - 200 * cos (2 * pi * real i / 62)\<bar> < 2 \<and>
     \<bar>real_of_int (sint (snd (circle_position (of_nat i)))) - 200 * sin (2 * pi * real i / 62)\<bar> < 2"
    unfolding circle_position_def e fst_conv snd_conv
    by (intro conjI truncate_real_close abs_cos_le_one abs_sin_le_one)
qed

definition real_double_ops :: "real double_ops" where
  "real_double_ops =
     \<lparr>M_PI = pi, dbl = real_of_int, dbl_mul = (*), dbl_div = (/), dbl_float = (\<lambda>x. x), dbl_cos = cos, dbl_sin = sin,
      dbl_i16 = (\<lambda>x. word_of_int (truncate_real x))\<rparr>"

lemma mouse_position_real: "mouse_position real_double_ops = circle_position"
  by (rule ext) (simp add: mouse_position_def real_double_ops_def circle_position_def Let_def)


text \<open>
  The HID side of the mouse: a host's request for the report descriptor is answered with as much of
  it as it asked for, the length announced in the HID descriptor is the length of the report
  descriptor, and every report has exactly the size the report descriptor declares and the endpoint
  carries in one packet.
\<close>

theorem mouse_hid:
  assumes "wf_device d" and "\<not> device_stopped d"
  shows "(\<exists>d1 d2 len tx'.
       usbip_device_control mouse_device [0x81, 6, 0, 0x22, 0, 0, lo, hi] data n d = Done (True, d1) \<and>
       usbip_device_fetch_control_reply (replicate 512 0) (unat (le16 lo hi)) d1 = Done (True, len, tx', d2) \<and>
       take len tx' = take (unat (le16 lo hi)) usb_mouse_hid_report) \<and>
     unat (le16 (usb_mouse_configuration ! 25) (usb_mouse_configuration ! 26)) = length usb_mouse_hid_report \<and>
     8 * length (fst (mouse_step (mouse_position D) i)) = hid_input_bits 0 0 usb_mouse_hid_report \<and>
     length (fst (mouse_step (mouse_position D) i)) = unat (le16 (usb_mouse_configuration ! 31) (usb_mouse_configuration ! 32))"
proof -
  have "length usb_mouse_hid_report \<le> 512" by code_simp
  then have "\<exists>d1 d2 len tx'.
       usbip_device_control mouse_device [0x81, 6, 0, 0x22, 0, 0, lo, hi] data n d = Done (True, d1) \<and>
       usbip_device_fetch_control_reply (replicate 512 0) (unat (le16 lo hi)) d1 = Done (True, len, tx', d2) \<and>
       take len tx' = take (unat (le16 lo hi)) usb_mouse_hid_report"
    using mouse_report.get_report [OF assms, of "[0x81, 6, 0, 0x22, 0, 0, lo, hi]" mouse_device "replicate 512 0" data n]
    by (simp add: mouse_device_def)
  moreover have "unat (le16 (usb_mouse_configuration ! 25) (usb_mouse_configuration ! 26)) = length usb_mouse_hid_report"
    "hid_input_bits 0 0 usb_mouse_hid_report = 32"
    "unat (le16 (usb_mouse_configuration ! 31) (usb_mouse_configuration ! 32)) = 4"
    by code_simp+
  moreover have "length (fst (mouse_step (mouse_position D) i)) = 4" by (simp add: mouse_step_def Let_def case_prod_unfold)
  ultimately show ?thesis by simp
qed

theorem mouse_hid_witness:
  "\<exists>d1 d2 len tx'.
     usbip_device_control mouse_device [0x81, 6, 0, 0x22, 0, 0, 2, 0] [] 2 (init_device ()) = Done (True, d1) \<and>
     usbip_device_fetch_control_reply (replicate 512 0) 2 d1 = Done (True, len, tx', d2) \<and> take len tx' = [0x05, 0x01]"
proof -
  have e: "unat (le16 2 0) = 2" "take 2 usb_mouse_hid_report = [0x05, 0x01]" by code_simp+
  show ?thesis using mouse_hid [of "init_device ()" 2 0 "[]" 2 real_double_ops 0] unfolding e by simp
qed

end
