(* ===== verification/Usb_Audio.thy ===== *)
theory Usb_Audio
  imports Examples Complex_Main
begin

text \<open>
  The audio input example, \<open>src/usb_audio_input\<close>: a USB Audio Class 1.0 microphone that plays one chirp
  per second. The record \<open>audio\<close> holds the static variables. The samples are computed with \<open>float\<close> and
  the functions \<open>sinf\<close> and \<open>powf\<close> of the C library; the record \<open>float_ops\<close> holds these operations, and
  every definition takes it as an argument.
\<close>

section \<open>Descriptors\<close>

definition audio_strings :: "(u8 \<times> string option) list" where
  "audio_strings =
     [(1, Some ''Virtual UsbIP''), (2, Some ''Virtual Audio Input''), (4, Some ''ABC123''), (0, None)]"

abbreviation (input) AUDIO_VID :: u16 where "AUDIO_VID \<equiv> 0xfa00"
abbreviation (input) AUDIO_PID :: u16 where "AUDIO_PID \<equiv> 0x0004"

definition audio_device_descriptor :: "u8 list" where
  "audio_device_descriptor =
     [USB_DEVICE_DESCRIPTOR_LENGTH, USB_DESCRIPTOR_TYPE_DEVICE,
      LOBYTE USB_BCD_VERSION, HIBYTE USB_BCD_VERSION, 0x00, 0x00, 0x00, 64,
      LOBYTE AUDIO_VID, HIBYTE AUDIO_VID, LOBYTE AUDIO_PID, HIBYTE AUDIO_PID,
      LOBYTE USB_BCD_DEVICE_REL, HIBYTE USB_BCD_DEVICE_REL, 1, 2, 4, 1]"

abbreviation (input) AUDIO_SAMPLE_RATE :: u32 where "AUDIO_SAMPLE_RATE \<equiv> 48000"
abbreviation (input) AUDIO_CHANNELS :: u8 where "AUDIO_CHANNELS \<equiv> 1"
abbreviation (input) AUDIO_BYTES_PER_SAMPLE :: u8 where "AUDIO_BYTES_PER_SAMPLE \<equiv> 2"
abbreviation (input) AUDIO_SAMPLES_PER_PACKET :: nat where "AUDIO_SAMPLES_PER_PACKET \<equiv> unat (AUDIO_SAMPLE_RATE div 1000)"
abbreviation (input) AUDIO_PACKET_SIZE :: u16 where "AUDIO_PACKET_SIZE \<equiv> 48 * 1 * 2"
abbreviation (input) AUDIO_EP_INTERVAL :: u8 where "AUDIO_EP_INTERVAL \<equiv> 4"
abbreviation (input) AUDIO_EP_DATA_IN :: u8 where "AUDIO_EP_DATA_IN \<equiv> 0x81"
abbreviation (input) AUDIO_CONTROL_INTERFACE :: u8 where "AUDIO_CONTROL_INTERFACE \<equiv> 0"
abbreviation (input) AUDIO_STREAMING_INTERFACE :: u8 where "AUDIO_STREAMING_INTERFACE \<equiv> 1"
abbreviation (input) AUDIO_INPUT_TERMINAL_ID :: u8 where "AUDIO_INPUT_TERMINAL_ID \<equiv> 1"
abbreviation (input) AUDIO_OUTPUT_TERMINAL_ID :: u8 where "AUDIO_OUTPUT_TERMINAL_ID \<equiv> 2"
abbreviation (input) USB_CLASS_AUDIO :: u8 where "USB_CLASS_AUDIO \<equiv> 0x01"
abbreviation (input) USB_SUBCLASS_AUDIOCONTROL :: u8 where "USB_SUBCLASS_AUDIOCONTROL \<equiv> 0x01"
abbreviation (input) USB_SUBCLASS_AUDIOSTREAMING :: u8 where "USB_SUBCLASS_AUDIOSTREAMING \<equiv> 0x02"
abbreviation (input) USB_DESCRIPTOR_TYPE_CS_INTERFACE :: u8 where "USB_DESCRIPTOR_TYPE_CS_INTERFACE \<equiv> 0x24"
abbreviation (input) USB_DESCRIPTOR_TYPE_CS_ENDPOINT :: u8 where "USB_DESCRIPTOR_TYPE_CS_ENDPOINT \<equiv> 0x25"
abbreviation (input) UAC_HEADER :: u8 where "UAC_HEADER \<equiv> 0x01"
abbreviation (input) UAC_INPUT_TERMINAL :: u8 where "UAC_INPUT_TERMINAL \<equiv> 0x02"
abbreviation (input) UAC_OUTPUT_TERMINAL :: u8 where "UAC_OUTPUT_TERMINAL \<equiv> 0x03"
abbreviation (input) UAC_AS_GENERAL :: u8 where "UAC_AS_GENERAL \<equiv> 0x01"
abbreviation (input) UAC_FORMAT_TYPE :: u8 where "UAC_FORMAT_TYPE \<equiv> 0x02"
abbreviation (input) UAC_EP_GENERAL :: u8 where "UAC_EP_GENERAL \<equiv> 0x01"
abbreviation (input) UAC_TERMINAL_USB_STREAMING :: u16 where "UAC_TERMINAL_USB_STREAMING \<equiv> 0x0101"
abbreviation (input) UAC_TERMINAL_MICROPHONE :: u16 where "UAC_TERMINAL_MICROPHONE \<equiv> 0x0201"
abbreviation (input) UAC_FORMAT_PCM :: u16 where "UAC_FORMAT_PCM \<equiv> 0x0001"
abbreviation (input) UAC_FORMAT_TYPE_I :: u8 where "UAC_FORMAT_TYPE_I \<equiv> 0x01"
abbreviation (input) UAC_HEADER_LENGTH :: u8 where "UAC_HEADER_LENGTH \<equiv> 9"
abbreviation (input) UAC_INPUT_TERMINAL_LENGTH :: u8 where "UAC_INPUT_TERMINAL_LENGTH \<equiv> 12"
abbreviation (input) UAC_OUTPUT_TERMINAL_LENGTH :: u8 where "UAC_OUTPUT_TERMINAL_LENGTH \<equiv> 9"
abbreviation (input) AUDIO_CONTROL_CS_LENGTH :: u16 where "AUDIO_CONTROL_CS_LENGTH \<equiv> 9 + 12 + 9"
abbreviation (input) USB_AUDIO_CONFIG_DESC_LENGTH :: u16 where
  "USB_AUDIO_CONFIG_DESC_LENGTH \<equiv> 9 + 9 + (9 + 12 + 9) + 9 + 9 + 7 + 11 + 9 + 7"

definition usb_audio_configuration :: "u8 list" where
  "usb_audio_configuration =
     [0x09, USB_DESCRIPTOR_TYPE_CONFIGURATION,
      LOBYTE USB_AUDIO_CONFIG_DESC_LENGTH, HIBYTE USB_AUDIO_CONFIG_DESC_LENGTH,
      0x02, 0x01, 0x00, 0xC0, 0x32,
      \<comment> \<open>audio control interface\<close>
      0x09, USB_DESCRIPTOR_TYPE_INTERFACE, AUDIO_CONTROL_INTERFACE, 0x00, 0x00,
      USB_CLASS_AUDIO, USB_SUBCLASS_AUDIOCONTROL, 0x00, 0x00,
      \<comment> \<open>class specific header\<close>
      UAC_HEADER_LENGTH, USB_DESCRIPTOR_TYPE_CS_INTERFACE, UAC_HEADER, 0x00, 0x01,
      LOBYTE AUDIO_CONTROL_CS_LENGTH, HIBYTE AUDIO_CONTROL_CS_LENGTH, 0x01, AUDIO_STREAMING_INTERFACE,
      \<comment> \<open>input terminal\<close>
      UAC_INPUT_TERMINAL_LENGTH, USB_DESCRIPTOR_TYPE_CS_INTERFACE, UAC_INPUT_TERMINAL,
      AUDIO_INPUT_TERMINAL_ID, LOBYTE UAC_TERMINAL_MICROPHONE, HIBYTE UAC_TERMINAL_MICROPHONE,
      0x00, AUDIO_CHANNELS, 0x00, 0x00, 0x00, 0x00,
      \<comment> \<open>output terminal\<close>
      UAC_OUTPUT_TERMINAL_LENGTH, USB_DESCRIPTOR_TYPE_CS_INTERFACE, UAC_OUTPUT_TERMINAL,
      AUDIO_OUTPUT_TERMINAL_ID, LOBYTE UAC_TERMINAL_USB_STREAMING, HIBYTE UAC_TERMINAL_USB_STREAMING,
      0x00, AUDIO_INPUT_TERMINAL_ID, 0x00,
      \<comment> \<open>audio streaming interface, alternate setting 0\<close>
      0x09, USB_DESCRIPTOR_TYPE_INTERFACE, AUDIO_STREAMING_INTERFACE, 0x00, 0x00,
      USB_CLASS_AUDIO, USB_SUBCLASS_AUDIOSTREAMING, 0x00, 0x00,
      \<comment> \<open>audio streaming interface, alternate setting 1\<close>
      0x09, USB_DESCRIPTOR_TYPE_INTERFACE, AUDIO_STREAMING_INTERFACE, 0x01, 0x01,
      USB_CLASS_AUDIO, USB_SUBCLASS_AUDIOSTREAMING, 0x00, 0x00,
      \<comment> \<open>class specific streaming interface\<close>
      0x07, USB_DESCRIPTOR_TYPE_CS_INTERFACE, UAC_AS_GENERAL, AUDIO_OUTPUT_TERMINAL_ID, 0x01,
      LOBYTE UAC_FORMAT_PCM, HIBYTE UAC_FORMAT_PCM,
      \<comment> \<open>format type I\<close>
      0x0B, USB_DESCRIPTOR_TYPE_CS_INTERFACE, UAC_FORMAT_TYPE, UAC_FORMAT_TYPE_I, AUDIO_CHANNELS,
      AUDIO_BYTES_PER_SAMPLE, AUDIO_BYTES_PER_SAMPLE * 8, 0x01,
      ucast (drop_bit 0 AUDIO_SAMPLE_RATE AND 0xff), ucast (drop_bit 8 AUDIO_SAMPLE_RATE AND 0xff),
      ucast (drop_bit 16 AUDIO_SAMPLE_RATE AND 0xff),
      \<comment> \<open>isochronous endpoint\<close>
      0x09, USB_DESCRIPTOR_TYPE_ENDPOINT, AUDIO_EP_DATA_IN, 0x05,
      LOBYTE AUDIO_PACKET_SIZE, HIBYTE AUDIO_PACKET_SIZE, AUDIO_EP_INTERVAL, 0x00, 0x00,
      \<comment> \<open>class specific endpoint\<close>
      0x07, USB_DESCRIPTOR_TYPE_CS_ENDPOINT, UAC_EP_GENERAL, 0x00, 0x00, 0x00, 0x00]"

definition audio_langid_desc :: "u8 list" where
  "audio_langid_desc = [4, USB_DESCRIPTOR_TYPE_STRING, LOBYTE 0x409, HIBYTE 0x409]"

section \<open>The generator\<close>

text \<open>
  The operations on \<open>float\<close>: \<open>fl r\<close> is the \<open>float\<close> for the number \<open>r\<close> (a literal, or an integer that is
  converted), \<open>fl_to_i16\<close> the conversion to \<open>int16_t\<close>.
\<close>

record 'f float_ops =
  fl :: "rat \<Rightarrow> 'f"
  fl_add :: "'f \<Rightarrow> 'f \<Rightarrow> 'f"
  fl_sub :: "'f \<Rightarrow> 'f \<Rightarrow> 'f"
  fl_mul :: "'f \<Rightarrow> 'f \<Rightarrow> 'f"
  fl_div :: "'f \<Rightarrow> 'f \<Rightarrow> 'f"
  fl_less :: "'f \<Rightarrow> 'f \<Rightarrow> bool"
  sinf :: "'f \<Rightarrow> 'f"
  powf :: "'f \<Rightarrow> 'f \<Rightarrow> 'f"
  fl_to_i16 :: "'f \<Rightarrow> u16"

abbreviation (input) PULSE_PERIOD_SAMPLES :: u32 where "PULSE_PERIOD_SAMPLES \<equiv> AUDIO_SAMPLE_RATE"
abbreviation (input) PULSE_LENGTH_SAMPLES :: u32 where "PULSE_LENGTH_SAMPLES \<equiv> AUDIO_SAMPLE_RATE * 4 div 10"
abbreviation (input) PULSE_ATTACK_SAMPLES :: u32 where "PULSE_ATTACK_SAMPLES \<equiv> AUDIO_SAMPLE_RATE div 100"

record 'f audio =
  au_streaming_alternate :: u8
  au_sample_index :: u32
  au_phase :: 'f

definition init_audio :: "'f float_ops \<Rightarrow> 'f audio" where
  "init_audio F = \<lparr>au_streaming_alternate = 0, au_sample_index = 0, au_phase = fl F 0\<rparr>"

text \<open>The chirp: the new phase and the value of the sample, for an index inside the pulse.\<close>

definition chirp :: "'f float_ops \<Rightarrow> u32 \<Rightarrow> 'f \<Rightarrow> 'f \<times> 'f" where
  "chirp F sample_index phase =
     (let TWO_PI = fl F (628318530718 / 100000000000);
          index = fl F (of_nat (unat sample_index));
          progress = fl_div F index (fl F 19200);
          time_s = fl_div F index (fl F 48000);
          frequency = fl_mul F (fl F 220) (powf F (fl_div F (fl F 1760) (fl F 220)) progress);
          frequency = fl_mul F frequency
            (fl_add F (fl F 1) (fl_mul F (fl F (15 / 100)) (sinf F (fl_mul F (fl_mul F TWO_PI (fl F 30)) time_s))));
          phase = fl_add F phase (fl_div F (fl_mul F TWO_PI frequency) (fl F 48000));
          phase = (if fl_less F TWO_PI phase then fl_sub F phase TWO_PI else phase);
          envelope = fl_sub F (fl F 1) progress;
          envelope = (if sample_index < PULSE_ATTACK_SAMPLES
                      then fl_mul F envelope (fl_div F index (fl F 480)) else envelope)
      in (phase, fl_mul F envelope (sinf F phase)))"

definition next_sample :: "'f float_ops \<Rightarrow> 'f audio \<Rightarrow> u16 \<times> 'f audio" where
  "next_sample F a =
     (let value = fl F 0;
          (phase, value) = (if au_sample_index a < PULSE_LENGTH_SAMPLES
                            then chirp F (au_sample_index a) (au_phase a) else (au_phase a, value))
      in (fl_to_i16 F (fl_mul F value (fl_mul F (fl F (5 / 10)) (fl F 32767))),
          a\<lparr>au_phase := phase, au_sample_index := (au_sample_index a + 1) mod PULSE_PERIOD_SAMPLES\<rparr>))"

text \<open>The loop of \<open>iso_in_data\<close>: the bytes of a number of samples.\<close>

fun audio_bytes :: "'f float_ops \<Rightarrow> nat \<Rightarrow> 'f audio \<Rightarrow> u8 list \<times> 'f audio" where
  "audio_bytes F 0 a = ([], a)"
| "audio_bytes F (Suc n) a =
     (let (sample, a) = next_sample F a;
          (bytes, a) = audio_bytes F n a
      in ([ucast (sample AND 0xff), ucast (drop_bit 8 sample)] @ bytes, a))"

definition audio_iso_in_data ::
  "'f float_ops \<Rightarrow> u8 \<Rightarrow> nat \<Rightarrow> 'f audio device \<Rightarrow> (nat \<times> u8 list \<times> 'f audio device) res" where
  "audio_iso_in_data F ep max_length d =
     (let samples = AUDIO_SAMPLES_PER_PACKET;
          samples = (if samples * 2 > max_length then max_length div 2 else samples);
          (bytes, a) = audio_bytes F samples (app d)
      in Done (samples * 2, bytes, d\<lparr>app := a\<rparr>))"

section \<open>The program\<close>

definition audio_control_data ::
  "'f float_ops \<Rightarrow> u8 list \<Rightarrow> u8 list \<Rightarrow> nat \<Rightarrow> 'f audio device \<Rightarrow> 'f audio device res" where
  "audio_control_data F setup data data_length d =
     (let bRequestType = setup ! 0;
          bRequest = setup ! 1;
          alternate = setup ! 2;
          interface = setup ! 4;
          a = app d
      in
      if bRequestType = 0x01 \<and> bRequest = USB_REQUEST_SET_INTERFACE then
        (if interface = AUDIO_STREAMING_INTERFACE \<and> alternate \<noteq> au_streaming_alternate a
         then Done (d\<lparr>app := a\<lparr>au_streaming_alternate := alternate, au_sample_index := 0, au_phase := fl F 0\<rparr>\<rparr>)
         else Done d)
      else if bRequestType = 0x81 \<and> bRequest = USB_REQUEST_GET_INTERFACE then
        (let current = (if interface = AUDIO_STREAMING_INTERFACE then au_streaming_alternate a else 0)
         in bind_res (usbip_device_transmit 0 [current] 1 d) (\<lambda>(stored, d). Done d))
      else Done d)"

definition audio_reset :: "'f audio device \<Rightarrow> 'f audio device res" where
  "audio_reset d = Done (d\<lparr>app := (app d)\<lparr>au_streaming_alternate := 0\<rparr>\<rparr>)"

definition audio_device :: "'f float_ops \<Rightarrow> 'f audio usbip_device_t" where
  "audio_device F =
     \<lparr>device_desc = audio_device_descriptor, config_desc = usb_audio_configuration,
      langid_desc = audio_langid_desc, usb_strings = Some audio_strings,
      control_data_callback = audio_control_data F, ep_data_callback = None,
      reset_callback = Some audio_reset, iso_in_callback = Some (audio_iso_in_data F)\<rparr>"

section \<open>The device contract\<close>

definition audio_inv :: "'f audio \<Rightarrow> bool" where
  "audio_inv a \<longleftrightarrow> au_sample_index a < PULSE_PERIOD_SAMPLES"

lemma next_sample_state:
  "audio_inv a \<Longrightarrow>
   unat (au_sample_index (snd (next_sample F a))) = (unat (au_sample_index a) + 1) mod 48000 \<and>
   audio_inv (snd (next_sample F a)) \<and>
   au_streaming_alternate (snd (next_sample F a)) = au_streaming_alternate a"
proof -
  assume inv: "audio_inv a"
  let ?i = "au_sample_index a"
  have i: "unat ?i < 48000" using inv by (simp add: audio_inv_def word_less_nat_alt)
  then have u: "unat (?i + 1) = unat ?i + 1" by (subst unat_word_ariths) simp
  have "unat ((?i + 1) mod 48000) = (unat ?i + 1) mod 48000" by (simp add: unat_mod u)
  moreover from this have "(?i + 1) mod 48000 < 48000" by (simp add: word_less_nat_alt)
  ultimately show ?thesis by (simp add: next_sample_def audio_inv_def Let_def split: prod.splits)
qed

lemma audio_bytes_state:
  "audio_inv a \<Longrightarrow>
   unat (au_sample_index (snd (audio_bytes F n a))) = (unat (au_sample_index a) + n) mod 48000 \<and>
   audio_inv (snd (audio_bytes F n a)) \<and>
   au_streaming_alternate (snd (audio_bytes F n a)) = au_streaming_alternate a \<and>
   length (fst (audio_bytes F n a)) = 2 * n"
proof (induction n arbitrary: a)
  case 0
  then show ?case by (simp add: audio_inv_def word_less_nat_alt)
next
  case (Suc n)
  note step = next_sample_state [OF Suc.prems, of F]
  from Suc.IH [of "snd (next_sample F a)"] step show ?case
    by (simp add: split_beta Let_def mod_simps)
qed

lemma audio_iso_in_data_runs:
  "audio_iso_in_data F ep m d =
   (let n = min 48 (m div 2) in
    Done (2 * n, fst (audio_bytes F n (app d)), d\<lparr>app := snd (audio_bytes F n (app d))\<rparr>))"
proof -
  have "(if 48 * 2 > m then m div 2 else 48) = min 48 (m div 2)" by auto
  then show ?thesis by (simp add: audio_iso_in_data_def split_beta Let_def mult.commute)
qed

lemma audio_iso_in_data_returns:
  "dev_inv audio_inv d \<Longrightarrow>
   returns (\<lambda>(len, bytes, d'). length bytes \<le> m \<and> dev_inv audio_inv d') (audio_iso_in_data F ep m d)"
  using audio_bytes_state [of "app d" F "min 48 (m div 2)"]
  by (auto simp: audio_iso_in_data_runs Let_def dev_inv_def)

lemma audio_get_interface:
  assumes "wf_device d" and "setup ! 0 = 0x81" and "setup ! 1 = USB_REQUEST_GET_INTERFACE"
  shows "returns (\<lambda>d'. wf_device d' \<and> app d' = app d \<and>
      (\<not> device_stopped d \<longrightarrow>
       unread d' 0 = [if setup ! 4 = AUDIO_STREAMING_INTERFACE then au_streaming_alternate (app d) else 0]))
    (audio_control_data F setup data n d)"
proof -
  let ?current = "if setup ! 4 = AUDIO_STREAMING_INTERFACE then au_streaming_alternate (app d) else 0"
  have "returns (\<lambda>(stored, d'). wf_device d' \<and> app d' = app d \<and> (\<not> device_stopped d \<longrightarrow> unread d' 0 = [?current]))
      (usbip_device_transmit 0 [?current] 1 d)"
    by (rule returns_mono [OF usbip_device_transmit_spec [OF assms(1)]])
       (auto simp: take_Cons' dest: fun_cong [where x = 0])
  then have "returns (\<lambda>d'. wf_device d' \<and> app d' = app d \<and> (\<not> device_stopped d \<longrightarrow> unread d' 0 = [?current]))
      (bind_res (usbip_device_transmit 0 [?current] 1 d) (\<lambda>(stored, d). Done d))"
    by (rule returns_bindI) auto
  then show ?thesis using assms(2,3) by (simp add: audio_control_data_def Let_def)
qed

lemma audio_control_data_returns:
  assumes "dev_inv audio_inv d"
  shows "returns (dev_inv audio_inv) (audio_control_data F setup data n d)"
proof (cases "setup ! 0 = 0x81 \<and> setup ! 1 = USB_REQUEST_GET_INTERFACE")
  case True
  with assms show ?thesis
    by (intro returns_mono [OF audio_get_interface]) (auto simp: dev_inv_def)
next
  case False
  with assms show ?thesis by (auto simp: audio_control_data_def Let_def dev_inv_def audio_inv_def)
qed

lemma audio_descriptors:
  "18 \<le> length audio_device_descriptor \<and> unat (audio_device_descriptor ! 0) \<le> length audio_device_descriptor \<and>
   9 \<le> length usb_audio_configuration \<and>
   unat (le16 (usb_audio_configuration ! 2) (usb_audio_configuration ! 3)) \<le> length usb_audio_configuration \<and>
   audio_langid_desc \<noteq> [] \<and> unat (audio_langid_desc ! 0) \<le> length audio_langid_desc \<and>
   list_ex (\<lambda>(str_id, str). str_id = 0) audio_strings \<and> wf_config usb_audio_configuration"
  by code_simp

interpretation audio: served_device "audio_device (F :: 'f float_ops)" audio_inv for F
proof
  show "wf_descriptors (audio_device F)" "wf_config (config_desc (audio_device F))"
    unfolding wf_descriptors_def audio_device_def usbip_device_t.simps option.case using audio_descriptors by blast+
next
  fix d :: "'f audio device" and usb_setup data :: "u8 list" and n
  assume "dev_inv audio_inv d"
  then show "returns (dev_inv audio_inv) (control_data_callback (audio_device F) usb_setup data n d)"
    by (simp add: audio_device_def audio_control_data_returns)
next
  fix d :: "'f audio device" and icallback ep m
  assume "dev_inv audio_inv d" "iso_in_callback (audio_device F) = Some icallback"
  then show "returns (\<lambda>(len, bytes, d'). length bytes \<le> m \<and> dev_inv audio_inv d') (icallback ep m d)"
    using audio_iso_in_data_returns by (auto simp: audio_device_def)
qed (auto simp: audio_device_def audio_reset_def dev_inv_def audio_inv_def)

section \<open>Recordings\<close>

text \<open>The callback asked for a packet of each of the lengths \<open>ms\<close> in turn: all bytes it wrote.\<close>

fun audio_packets :: "'f float_ops \<Rightarrow> nat list \<Rightarrow> 'f audio device \<Rightarrow> (u8 list \<times> 'f audio device) res" where
  "audio_packets F [] d = Done ([], d)"
| "audio_packets F (m # ms) d =
     bind_res (audio_iso_in_data F AUDIO_EP_DATA_IN m d) (\<lambda>(len, bytes, d).
     bind_res (audio_packets F ms d) (\<lambda>(rest, d).
       Done (take len bytes @ rest, d)))"

definition samples_in :: "nat list \<Rightarrow> nat" where
  "samples_in ms = (\<Sum>m\<leftarrow>ms. min 48 (m div 2))"

lemma audio_bytes_add:
  "audio_bytes F (m + n) a =
   (let (xs, a) = audio_bytes F m a; (ys, a) = audio_bytes F n a in (xs @ ys, a))"
  by (induction m arbitrary: a) (auto simp: Let_def split_beta)

lemma length_audio_bytes [simp]: "length (fst (audio_bytes F n a)) = 2 * n"
  by (induction n arbitrary: a) (auto simp: Let_def split_beta)

lemma audio_packets_bytes:
  "audio_packets F ms d =
   Done (fst (audio_bytes F (samples_in ms) (app d)), d\<lparr>app := snd (audio_bytes F (samples_in ms) (app d))\<rparr>)"
  by (induction ms arbitrary: d)
     (simp_all add: samples_in_def audio_iso_in_data_runs audio_bytes_add Let_def split_beta)

text \<open>
  C32. Recording is independent of what went before and of how the host cuts the stream into packets:
  when the host selects another alternate setting of the streaming interface, the packets of any
  lengths that it then asks for are, one after the other, the samples of the generator from its
  initial state, 48 samples for a packet of 96 bytes or more and as many whole samples as fit otherwise.
\<close>

theorem audio_recording:
  assumes "usb_setup ! 0 = 0x01" and "usb_setup ! 1 = USB_REQUEST_SET_INTERFACE" and "usb_setup ! 4 = 1"
    and "usb_setup ! 2 \<noteq> au_streaming_alternate (app d)"
  shows "\<exists>d'. bind_res (audio_control_data F usb_setup data n d) (audio_packets F ms) =
     Done (fst (audio_bytes F (samples_in ms) (init_audio F)), d') \<and>
     au_streaming_alternate (app d') = usb_setup ! 2"
proof -
  let ?a = "(app d)\<lparr>au_streaming_alternate := usb_setup ! 2, au_sample_index := 0, au_phase := fl F 0\<rparr>"
  have next_alt: "next_sample F (a\<lparr>au_streaming_alternate := x\<rparr>) =
      (let (v, a) = next_sample F a in (v, a\<lparr>au_streaming_alternate := x\<rparr>))" for a x
    by (simp add: next_sample_def Let_def split_beta)
  have alt: "audio_bytes F k (a\<lparr>au_streaming_alternate := x\<rparr>) =
      (let (bs, a) = audio_bytes F k a in (bs, a\<lparr>au_streaming_alternate := x\<rparr>))" for k a x
    by (induction k arbitrary: a) (simp_all add: next_alt Let_def split_beta)
  have "?a = (init_audio F)\<lparr>au_streaming_alternate := usb_setup ! 2\<rparr>" by (simp add: init_audio_def)
  then show ?thesis
    using assms alt [where k = "samples_in ms" and a = "init_audio F" and x = "usb_setup ! 2"]
    by (simp add: audio_control_data_def audio_packets_bytes Let_def split_beta)
qed

text \<open>The conversions the silent part of the stream depends on: zero times the amplitude is zero.\<close>

definition silent_zero :: "'f float_ops \<Rightarrow> bool" where
  "silent_zero F \<longleftrightarrow> fl_to_i16 F (fl_mul F (fl F 0) (fl_mul F (fl F (5 / 10)) (fl F 32767))) = 0"

lemma audio_bytes_silent:
  assumes "silent_zero F"
  shows "audio_inv a \<Longrightarrow> k < n \<Longrightarrow> 19200 \<le> (unat (au_sample_index a) + k) mod 48000 \<Longrightarrow>
     fst (audio_bytes F n a) ! (2 * k) = 0 \<and> fst (audio_bytes F n a) ! (2 * k + 1) = 0"
proof (induction n arbitrary: a k)
  case (Suc n)
  note step = next_sample_state [OF Suc.prems(1), of F]
  show ?case
  proof (cases k)
    case 0
    have "unat (au_sample_index a) < 48000" using Suc.prems(1) by (simp add: audio_inv_def word_less_nat_alt)
    with 0 Suc.prems(3) have "\<not> au_sample_index a < 19200" by (simp add: word_less_nat_alt)
    then have "fst (next_sample F a) = 0" using assms by (simp add: next_sample_def silent_zero_def)
    with 0 show ?thesis by (simp add: Let_def split_beta)
  next
    case (Suc j)
    have "19200 \<le> (unat (au_sample_index (snd (next_sample F a))) + j) mod 48000"
      using Suc.prems(3) Suc step by (simp add: mod_simps)
    from Suc.IH [of "snd (next_sample F a)" j, OF _ _ this] Suc.prems(2) Suc step show ?thesis
      by (simp add: Let_def split_beta)
  qed
qed simp

text \<open>
  One pulse per second: in a recording, of every 48000 samples the last 28800 are silent, whatever the
  lengths of the packets.
\<close>

theorem audio_silence:
  assumes "silent_zero F" and "k < samples_in ms" and "19200 \<le> k mod 48000"
  shows "\<exists>bytes d'. audio_packets F ms (init_device (init_audio F)) = Done (bytes, d') \<and>
     length bytes = 2 * samples_in ms \<and> bytes ! (2 * k) = 0 \<and> bytes ! (2 * k + 1) = 0"
proof -
  have "audio_inv (init_audio F)" "unat (au_sample_index (init_audio F)) = 0"
    by (simp_all add: init_audio_def audio_inv_def)
  with audio_bytes_silent [OF assms(1), of "init_audio F" k] assms(2,3) show ?thesis
    by (simp add: audio_packets_bytes init_device_def)
qed

text \<open>
  The alternate setting that the host selects for the streaming interface is the one it reads back;
  after a reset it reads 0.
\<close>

theorem audio_interface:
  assumes "wf_device d" and "\<not> device_stopped d"
    and "get ! 0 = 0x81" and "get ! 1 = USB_REQUEST_GET_INTERFACE" and "get ! 4 = 1"
    and "put ! 0 = 0x01" and "put ! 1 = USB_REQUEST_SET_INTERFACE" and "put ! 4 = 1"
  shows "returns (\<lambda>d'. unread d' 0 = [put ! 2])
      (bind_res (audio_control_data F put [] 0 d) (audio_control_data F get [] 0)) \<and>
    returns (\<lambda>d'. unread d' 0 = [0]) (bind_res (audio_reset d) (audio_control_data F get [] 0))"
proof
  have read: "returns (\<lambda>d'. unread d' 0 = [au_streaming_alternate (app d1)]) (audio_control_data F get [] 0 d1)"
    if "wf_device d1" "\<not> device_stopped d1" for d1
    by (rule returns_mono [OF audio_get_interface [OF that(1) assms(3,4)]]) (use that(2) assms(5) in auto)
  from assms(6-8) obtain a where "audio_control_data F put [] 0 d = Done (d\<lparr>app := a\<rparr>)"
      and "au_streaming_alternate a = put ! 2"
    by (cases "put ! 2 = au_streaming_alternate (app d)")
       (auto simp: audio_control_data_def Let_def intro: that [of "app d"])
  with read [of "d\<lparr>app := a\<rparr>"] assms(1,2) show "returns (\<lambda>d'. unread d' 0 = [put ! 2])
      (bind_res (audio_control_data F put [] 0 d) (audio_control_data F get [] 0))" by simp
  show "returns (\<lambda>d'. unread d' 0 = [0]) (bind_res (audio_reset d) (audio_control_data F get [] 0))"
    using read [of "d\<lparr>app := (app d)\<lparr>au_streaming_alternate := 0\<rparr>\<rparr>"] assms(1,2) by (simp add: audio_reset_def)
qed

section \<open>Witnesses\<close>

text \<open>The operations on the reals, of which those on \<open>float\<close> are roundings.\<close>

definition real_ops :: "real float_ops" where
  "real_ops =
     \<lparr>fl = of_rat, fl_add = (+), fl_sub = (-), fl_mul = (*), fl_div = (/), fl_less = (<),
      sinf = sin, powf = (powr), fl_to_i16 = (\<lambda>x. word_of_int (if x < 0 then \<lceil>x\<rceil> else \<lfloor>x\<rfloor>))\<rparr>"

theorem audio_recording_witness:
  "\<exists>d'. bind_res (audio_control_data real_ops [0x01, 11, 1, 0, 1, 0, 0, 0] [] 0 (init_device (init_audio real_ops)))
       (audio_packets real_ops [96, 50]) =
     Done (fst (audio_bytes real_ops 73 (init_audio real_ops)), d') \<and> au_streaming_alternate (app d') = 1"
  using audio_recording [of "[0x01, 11, 1, 0, 1, 0, 0, 0]" "init_device (init_audio real_ops)" real_ops "[]" 0 "[96, 50]"]
  by (simp add: init_device_def init_audio_def samples_in_def)

theorem audio_silence_witness:
  "\<exists>bytes d'. audio_packets real_ops (replicate 401 96) (init_device (init_audio real_ops)) = Done (bytes, d') \<and>
     length bytes = 38496 \<and> bytes ! 38400 = 0 \<and> bytes ! 38401 = 0"
  using audio_silence [of real_ops 19200 "replicate 401 96"]
  by (simp add: samples_in_def sum_list_replicate silent_zero_def real_ops_def)

theorem audio_interface_witness:
  "returns (\<lambda>d'. unread d' 0 = [1])
      (bind_res (audio_control_data real_ops [0x01, 11, 1, 0, 1, 0, 0, 0] [] 0 (init_device (init_audio real_ops)))
        (audio_control_data real_ops [0x81, 10, 0, 0, 1, 0, 1, 0] [] 0))"
  using audio_interface [of "init_device (init_audio real_ops)" "[0x81, 10, 0, 0, 1, 0, 1, 0]" "[0x01, 11, 1, 0, 1, 0, 0, 0]" real_ops]
  by (simp add: init_device_simps)

end
