(* ===== verification/Gud_Protocol.thy ===== *)
theory Gud_Protocol
  imports Prelude
begin

text \<open>
  The messages of the GUD (Generic USB Display) protocol, \<open>src/usb_gud_display/gud_protocol.h\<close>. As in
  the theory of the USB/IP messages a packed struct is a record, \<open>*_bytes\<close> its memory image and \<open>*_of\<close> the
  struct found in a memory image. Requests, states and formats keep the names of their macros.
\<close>

section \<open>Constants\<close>

abbreviation (input) GUD_DISPLAY_MAGIC :: u32 where "GUD_DISPLAY_MAGIC \<equiv> 0x1d50614d"
abbreviation (input) GUD_PROTOCOL_VERSION :: u8 where "GUD_PROTOCOL_VERSION \<equiv> 1"
abbreviation (input) GUD_DISPLAY_FLAG_STATUS_ON_SET :: u32 where "GUD_DISPLAY_FLAG_STATUS_ON_SET \<equiv> 1"

abbreviation (input) GUD_REQ_GET_STATUS :: u8 where "GUD_REQ_GET_STATUS \<equiv> 0x00"
abbreviation (input) GUD_REQ_GET_DESCRIPTOR :: u8 where "GUD_REQ_GET_DESCRIPTOR \<equiv> 0x01"
abbreviation (input) GUD_REQ_GET_FORMATS :: u8 where "GUD_REQ_GET_FORMATS \<equiv> 0x40"
abbreviation (input) GUD_REQ_GET_PROPERTIES :: u8 where "GUD_REQ_GET_PROPERTIES \<equiv> 0x41"
abbreviation (input) GUD_REQ_GET_CONNECTORS :: u8 where "GUD_REQ_GET_CONNECTORS \<equiv> 0x50"
abbreviation (input) GUD_REQ_GET_CONNECTOR_PROPERTIES :: u8 where "GUD_REQ_GET_CONNECTOR_PROPERTIES \<equiv> 0x51"
abbreviation (input) GUD_REQ_SET_CONNECTOR_FORCE_DETECT :: u8 where "GUD_REQ_SET_CONNECTOR_FORCE_DETECT \<equiv> 0x53"
abbreviation (input) GUD_REQ_GET_CONNECTOR_STATUS :: u8 where "GUD_REQ_GET_CONNECTOR_STATUS \<equiv> 0x54"
abbreviation (input) GUD_REQ_GET_CONNECTOR_MODES :: u8 where "GUD_REQ_GET_CONNECTOR_MODES \<equiv> 0x55"
abbreviation (input) GUD_REQ_SET_BUFFER :: u8 where "GUD_REQ_SET_BUFFER \<equiv> 0x60"
abbreviation (input) GUD_REQ_SET_STATE_CHECK :: u8 where "GUD_REQ_SET_STATE_CHECK \<equiv> 0x61"
abbreviation (input) GUD_REQ_SET_STATE_COMMIT :: u8 where "GUD_REQ_SET_STATE_COMMIT \<equiv> 0x62"
abbreviation (input) GUD_REQ_SET_CONTROLLER_ENABLE :: u8 where "GUD_REQ_SET_CONTROLLER_ENABLE \<equiv> 0x63"
abbreviation (input) GUD_REQ_SET_DISPLAY_ENABLE :: u8 where "GUD_REQ_SET_DISPLAY_ENABLE \<equiv> 0x64"

abbreviation (input) GUD_STATUS_OK :: u8 where "GUD_STATUS_OK \<equiv> 0x00"
abbreviation (input) GUD_STATUS_REQUEST_NOT_SUPPORTED :: u8 where "GUD_STATUS_REQUEST_NOT_SUPPORTED \<equiv> 0x02"
abbreviation (input) GUD_STATUS_PROTOCOL_ERROR :: u8 where "GUD_STATUS_PROTOCOL_ERROR \<equiv> 0x03"
abbreviation (input) GUD_STATUS_INVALID_PARAMETER :: u8 where "GUD_STATUS_INVALID_PARAMETER \<equiv> 0x04"

abbreviation (input) GUD_PIXEL_FORMAT_R1 :: u8 where "GUD_PIXEL_FORMAT_R1 \<equiv> 0x01"
abbreviation (input) GUD_PIXEL_FORMAT_R8 :: u8 where "GUD_PIXEL_FORMAT_R8 \<equiv> 0x08"
abbreviation (input) GUD_PIXEL_FORMAT_XRGB1111 :: u8 where "GUD_PIXEL_FORMAT_XRGB1111 \<equiv> 0x20"
abbreviation (input) GUD_PIXEL_FORMAT_RGB332 :: u8 where "GUD_PIXEL_FORMAT_RGB332 \<equiv> 0x30"
abbreviation (input) GUD_PIXEL_FORMAT_RGB565 :: u8 where "GUD_PIXEL_FORMAT_RGB565 \<equiv> 0x40"
abbreviation (input) GUD_PIXEL_FORMAT_RGB888 :: u8 where "GUD_PIXEL_FORMAT_RGB888 \<equiv> 0x50"
abbreviation (input) GUD_PIXEL_FORMAT_XRGB8888 :: u8 where "GUD_PIXEL_FORMAT_XRGB8888 \<equiv> 0x80"
abbreviation (input) GUD_PIXEL_FORMAT_ARGB8888 :: u8 where "GUD_PIXEL_FORMAT_ARGB8888 \<equiv> 0x81"

abbreviation (input) GUD_PROPERTY_ROTATION :: u16 where "GUD_PROPERTY_ROTATION \<equiv> 50"
abbreviation (input) GUD_ROTATION_0 :: u64 where "GUD_ROTATION_0 \<equiv> 1"
abbreviation (input) GUD_CONNECTOR_TYPE_PANEL :: u8 where "GUD_CONNECTOR_TYPE_PANEL \<equiv> 0"
abbreviation (input) GUD_CONNECTOR_FLAGS_POLL_STATUS :: u32 where "GUD_CONNECTOR_FLAGS_POLL_STATUS \<equiv> 1"
abbreviation (input) GUD_CONNECTOR_STATUS_DISCONNECTED :: u8 where "GUD_CONNECTOR_STATUS_DISCONNECTED \<equiv> 0x00"
abbreviation (input) GUD_CONNECTOR_STATUS_CONNECTED :: u8 where "GUD_CONNECTOR_STATUS_CONNECTED \<equiv> 0x01"
abbreviation (input) GUD_DISPLAY_MODE_FLAG_PREFERRED :: u32 where "GUD_DISPLAY_MODE_FLAG_PREFERRED \<equiv> 0x400"

section \<open>Messages\<close>

record gud_display_descriptor_req_t =
  gdd_magic :: u32
  gdd_version :: u8
  gdd_flags :: u32
  gdd_compression :: u8
  gdd_max_buffer_size :: u32
  gdd_min_width :: u32
  gdd_max_width :: u32
  gdd_min_height :: u32
  gdd_max_height :: u32

definition gud_display_descriptor_req_bytes :: "gud_display_descriptor_req_t \<Rightarrow> u8 list" where
  "gud_display_descriptor_req_bytes d =
     le_bytes32 (gdd_magic d) @ [gdd_version d] @ le_bytes32 (gdd_flags d) @ [gdd_compression d] @
     le_bytes32 (gdd_max_buffer_size d) @ le_bytes32 (gdd_min_width d) @ le_bytes32 (gdd_max_width d) @
     le_bytes32 (gdd_min_height d) @ le_bytes32 (gdd_max_height d)"

record gud_property_req_t =
  gp_prop :: u16
  gp_val :: u64

definition gud_property_req_bytes :: "gud_property_req_t \<Rightarrow> u8 list" where
  "gud_property_req_bytes p = le_bytes16 (gp_prop p) @ le_bytes64 (gp_val p)"

definition gud_property_req_of :: "u8 list \<Rightarrow> gud_property_req_t" where
  "gud_property_req_of bs = \<lparr>gp_prop = u16_at bs 0, gp_val = u64_at bs 2\<rparr>"

record gud_display_mode_req_t =
  gm_clock :: u32
  gm_hdisplay :: u16
  gm_hsync_start :: u16
  gm_hsync_end :: u16
  gm_htotal :: u16
  gm_vdisplay :: u16
  gm_vsync_start :: u16
  gm_vsync_end :: u16
  gm_vtotal :: u16
  gm_flags :: u32

definition gud_display_mode_req_bytes :: "gud_display_mode_req_t \<Rightarrow> u8 list" where
  "gud_display_mode_req_bytes m =
     le_bytes32 (gm_clock m) @ le_bytes16 (gm_hdisplay m) @ le_bytes16 (gm_hsync_start m) @
     le_bytes16 (gm_hsync_end m) @ le_bytes16 (gm_htotal m) @ le_bytes16 (gm_vdisplay m) @
     le_bytes16 (gm_vsync_start m) @ le_bytes16 (gm_vsync_end m) @ le_bytes16 (gm_vtotal m) @
     le_bytes32 (gm_flags m)"

definition gud_display_mode_req_of :: "u8 list \<Rightarrow> gud_display_mode_req_t" where
  "gud_display_mode_req_of bs =
     \<lparr>gm_clock = u32_at bs 0, gm_hdisplay = u16_at bs 4, gm_hsync_start = u16_at bs 6,
      gm_hsync_end = u16_at bs 8, gm_htotal = u16_at bs 10, gm_vdisplay = u16_at bs 12,
      gm_vsync_start = u16_at bs 14, gm_vsync_end = u16_at bs 16, gm_vtotal = u16_at bs 18,
      gm_flags = u32_at bs 20\<rparr>"

record gud_connector_descriptor_req_t =
  gc_connector_type :: u8
  gc_flags :: u32

definition gud_connector_descriptor_req_bytes :: "gud_connector_descriptor_req_t \<Rightarrow> u8 list" where
  "gud_connector_descriptor_req_bytes c = [gc_connector_type c] @ le_bytes32 (gc_flags c)"

record gud_set_buffer_req_t =
  gb_x :: u32
  gb_y :: u32
  gb_width :: u32
  gb_height :: u32
  gb_length :: u32
  gb_compression :: u8
  gb_compressed_length :: u32

definition gud_set_buffer_req_bytes :: "gud_set_buffer_req_t \<Rightarrow> u8 list" where
  "gud_set_buffer_req_bytes r =
     le_bytes32 (gb_x r) @ le_bytes32 (gb_y r) @ le_bytes32 (gb_width r) @ le_bytes32 (gb_height r) @
     le_bytes32 (gb_length r) @ [gb_compression r] @ le_bytes32 (gb_compressed_length r)"

definition gud_set_buffer_req_of :: "u8 list \<Rightarrow> gud_set_buffer_req_t" where
  "gud_set_buffer_req_of bs =
     \<lparr>gb_x = u32_at bs 0, gb_y = u32_at bs 4, gb_width = u32_at bs 8, gb_height = u32_at bs 12,
      gb_length = u32_at bs 16, gb_compression = bs ! 20, gb_compressed_length = u32_at bs 21\<rparr>"

record gud_state_req_t =
  gs_mode :: gud_display_mode_req_t
  gs_format :: u8
  gs_connector :: u8

definition gud_state_req_bytes :: "gud_state_req_t \<Rightarrow> u8 list" where
  "gud_state_req_bytes s = gud_display_mode_req_bytes (gs_mode s) @ [gs_format s, gs_connector s]"

definition gud_state_req_of :: "u8 list \<Rightarrow> gud_state_req_t" where
  "gud_state_req_of bs =
     \<lparr>gs_mode = gud_display_mode_req_of bs, gs_format = bs ! 24, gs_connector = bs ! 25\<rparr>"

section \<open>Sizes and round trips\<close>

lemma length_gud_bytes [simp]:
  "length (gud_display_descriptor_req_bytes d) = 30" "length (gud_property_req_bytes p) = 10"
  "length (gud_display_mode_req_bytes m) = 24" "length (gud_connector_descriptor_req_bytes c) = 5"
  "length (gud_set_buffer_req_bytes r) = 25" "length (gud_state_req_bytes s) = 26"
  by (simp_all add: gud_display_descriptor_req_bytes_def gud_property_req_bytes_def
      gud_display_mode_req_bytes_def gud_connector_descriptor_req_bytes_def
      gud_set_buffer_req_bytes_def gud_state_req_bytes_def)

lemma gud_property_req_of_bytes [wire_simps]:
  "gud_property_req_of (gud_property_req_bytes p @ bs) = p"
  by (simp add: gud_property_req_of_def gud_property_req_bytes_def)

lemma gud_display_mode_req_of_bytes [wire_simps]:
  "gud_display_mode_req_of (gud_display_mode_req_bytes m @ bs) = m"
  by (simp add: gud_display_mode_req_of_def gud_display_mode_req_bytes_def)

lemma u32_at_Cons [simp]: "u32_at (x # bs) (Suc i) = u32_at bs i"
  by (simp add: u32_at_def numeral_2_eq_2 numeral_3_eq_3)

lemma gud_set_buffer_req_of_bytes [wire_simps]:
  "gud_set_buffer_req_of (gud_set_buffer_req_bytes r) = r"
  by (simp add: gud_set_buffer_req_of_def gud_set_buffer_req_bytes_def nth_append)

lemma gud_state_req_of_bytes [wire_simps]:
  "gud_state_req_of (gud_state_req_bytes s @ bs) = s"
  by (simp add: gud_state_req_of_def gud_state_req_bytes_def gud_display_mode_req_of_bytes nth_append)

end
