(* ===== verification/Gud_Display_Window.thy ===== *)
theory Gud_Display_Window
  imports Prelude
begin

text \<open>
  The window of the display example, \<open>src/usb_gud_display/gud_display_window.c\<close>. SDL is not part of the
  program: what its calls return is the argument \<open>sdl\<close>, and every call the module makes is recorded with
  its arguments in \<open>sdl_calls\<close>. \<open>sdl_run\<close> states the rules of use of the SDL documentation, and the lemmas
  show that the module keeps to them: a handle is used only between its creation and its destruction, a
  frame is at least as large as the texture it is copied to, and nothing outlives a failed
  \<open>gud_display_window_open\<close> or a \<open>gud_display_window_close\<close>.
\<close>

section \<open>The module\<close>

type_synonym handle = nat

record sdl_results =
  sdl_init :: bool
  sdl_create_window :: "handle option"
  sdl_create_renderer :: "handle option"
  sdl_create_texture :: "handle option"

datatype sdl_call =
    SDL_SetHint
  | SDL_Init bool
  | SDL_CreateWindow int int "handle option"
  | SDL_CreateRenderer handle "handle option"
  | SDL_CreateTexture handle int int "handle option"
  | SDL_SetTextureScaleMode handle
  | SDL_SetRenderLogicalPresentation handle int int
  | SDL_SetRenderDrawColor handle u8 u8 u8 u8
  | SDL_RenderClear handle
  | SDL_UpdateTexture handle "u32 list" int
  | SDL_RenderTexture handle handle
  | SDL_RenderPresent handle
  | SDL_DestroyTexture handle
  | SDL_DestroyRenderer handle
  | SDL_DestroyWindow handle
  | SDL_Quit

text \<open>
  The variables of the module. \<open>presented\<close> is the picture in the window: the pixels, or \<open>None\<close> for a black
  window or no window.
\<close>

record gud_window =
  window :: "handle option"
  renderer :: "handle option"
  texture :: "handle option"
  display_width :: int
  sdl_calls :: "sdl_call list"
  presented :: "u32 list option"

abbreviation (input) WINDOW_SCALE :: int where "WINDOW_SCALE \<equiv> 2"

definition init_window :: gud_window where
  "init_window = \<lparr>window = None, renderer = None, texture = None, display_width = 0, sdl_calls = [], presented = None\<rparr>"

definition sdl :: "sdl_call list \<Rightarrow> gud_window \<Rightarrow> gud_window" where
  "sdl cs w = w\<lparr>sdl_calls := sdl_calls w @ cs\<rparr>"

definition gud_display_window_show :: "u32 list option \<Rightarrow> bool \<Rightarrow> gud_window \<Rightarrow> gud_window" where
  "gud_display_window_show pixels display_on w =
     (case renderer w of
        None \<Rightarrow> w
      | Some r \<Rightarrow>
          let w = sdl [SDL_SetRenderDrawColor r 0 0 0 255, SDL_RenderClear r] w;
              w = (case pixels of
                     Some ps \<Rightarrow>
                       if display_on
                       then sdl [SDL_UpdateTexture (the (texture w)) ps (display_width w * 4),
                                 SDL_RenderTexture r (the (texture w))] (w\<lparr>presented := Some ps\<rparr>)
                       else w\<lparr>presented := None\<rparr>
                   | None \<Rightarrow> w\<lparr>presented := None\<rparr>)
          in sdl [SDL_RenderPresent r] w)"

definition gud_display_window_close :: "gud_window \<Rightarrow> gud_window" where
  "gud_display_window_close w =
     (let w = (case texture w of None \<Rightarrow> w | Some t \<Rightarrow> (sdl [SDL_DestroyTexture t] w)\<lparr>texture := None\<rparr>);
          w = (case renderer w of None \<Rightarrow> w | Some r \<Rightarrow> (sdl [SDL_DestroyRenderer r] w)\<lparr>renderer := None\<rparr>);
          w = (case window w of None \<Rightarrow> w | Some h \<Rightarrow> (sdl [SDL_DestroyWindow h] w)\<lparr>window := None\<rparr>)
      in (sdl [SDL_Quit] w)\<lparr>presented := None\<rparr>)"

definition gud_display_window_open :: "sdl_results \<Rightarrow> int \<Rightarrow> int \<Rightarrow> gud_window \<Rightarrow> bool \<times> gud_window" where
  "gud_display_window_open results width height w =
     (let w = sdl [SDL_SetHint, SDL_Init (sdl_init results)] w in
      if \<not> sdl_init results then (False, w)
      else
        let w = (sdl [SDL_CreateWindow (width * WINDOW_SCALE) (height * WINDOW_SCALE) (sdl_create_window results)] w)
                  \<lparr>window := sdl_create_window results\<rparr>;
            w = (case window w of
                   None \<Rightarrow> w\<lparr>renderer := None\<rparr>
                 | Some h \<Rightarrow> (sdl [SDL_CreateRenderer h (sdl_create_renderer results)] w)
                              \<lparr>renderer := sdl_create_renderer results\<rparr>);
            w = (case renderer w of
                   None \<Rightarrow> w\<lparr>texture := None\<rparr>
                 | Some r \<Rightarrow> (sdl [SDL_CreateTexture r width height (sdl_create_texture results)] w)
                              \<lparr>texture := sdl_create_texture results\<rparr>)
        in case texture w of
             None \<Rightarrow> (False, gud_display_window_close w)
           | Some t \<Rightarrow>
               let w = sdl [SDL_SetTextureScaleMode t,
                            SDL_SetRenderLogicalPresentation (the (renderer w)) width height] w;
                   w = w\<lparr>display_width := width\<rparr>
               in (True, gud_display_window_show None False w))"

text \<open>
  \<open>events\<close> are the types of the events that arrive: none if the wait times out, otherwise the one it
  returns and those polled after it. \<open>quit\<close> is the value of \<open>SDL_EVENT_QUIT\<close>.
\<close>

fun poll_events :: "u32 \<Rightarrow> u32 list \<Rightarrow> bool \<Rightarrow> bool" where
  "poll_events quit [] is_open = is_open"
| "poll_events quit (event # events) is_open = poll_events quit events (if event = quit then False else is_open)"

definition gud_display_window_handle_events :: "u32 \<Rightarrow> u32 list \<Rightarrow> bool" where
  "gud_display_window_handle_events quit events = poll_events quit events True"

section \<open>The rules of SDL\<close>

text \<open>What exists after some calls; a texture has a size and ends with its renderer.\<close>

record sdl_state =
  video :: bool
  live_window :: "handle option"
  live_renderer :: "handle option"
  live_texture :: "(handle \<times> int \<times> int) option"

definition sdl_nothing :: sdl_state where
  "sdl_nothing = \<lparr>video = False, live_window = None, live_renderer = None, live_texture = None\<rparr>"

definition live_texture_of :: "handle \<Rightarrow> sdl_state \<Rightarrow> bool" where
  "live_texture_of t s \<longleftrightarrow> map_option fst (live_texture s) = Some t"

text \<open>One call; \<open>None\<close> if the call is not allowed.\<close>

fun sdl_step :: "sdl_call \<Rightarrow> sdl_state \<Rightarrow> sdl_state option" where
  "sdl_step SDL_SetHint s = Some s"
| "sdl_step (SDL_Init ok) s = (if video s then None else Some (s\<lparr>video := ok\<rparr>))"
| "sdl_step (SDL_CreateWindow w h r) s = (if video s \<and> live_window s = None then Some (s\<lparr>live_window := r\<rparr>) else None)"
| "sdl_step (SDL_CreateRenderer w r) s =
     (if live_window s = Some w \<and> live_renderer s = None then Some (s\<lparr>live_renderer := r\<rparr>) else None)"
| "sdl_step (SDL_CreateTexture r w h t) s =
     (if live_renderer s = Some r \<and> live_texture s = None
      then Some (s\<lparr>live_texture := map_option (\<lambda>t. (t, w, h)) t\<rparr>) else None)"
| "sdl_step (SDL_SetTextureScaleMode t) s = (if live_texture_of t s then Some s else None)"
| "sdl_step (SDL_SetRenderLogicalPresentation r w h) s = (if live_renderer s = Some r then Some s else None)"
| "sdl_step (SDL_SetRenderDrawColor r red green blue alpha) s = (if live_renderer s = Some r then Some s else None)"
| "sdl_step (SDL_RenderClear r) s = (if live_renderer s = Some r then Some s else None)"
| "sdl_step (SDL_UpdateTexture t ps pitch) s =
     (case live_texture s of
        None \<Rightarrow> None
      | Some (t', w, h) \<Rightarrow> if t = t' \<and> w * 4 \<le> pitch \<and> pitch * h \<le> int (length ps) * 4 then Some s else None)"
| "sdl_step (SDL_RenderTexture r t) s = (if live_renderer s = Some r \<and> live_texture_of t s then Some s else None)"
| "sdl_step (SDL_RenderPresent r) s = (if live_renderer s = Some r then Some s else None)"
| "sdl_step (SDL_DestroyTexture t) s = (if live_texture_of t s then Some (s\<lparr>live_texture := None\<rparr>) else None)"
| "sdl_step (SDL_DestroyRenderer r) s =
     (if live_renderer s = Some r \<and> live_texture s = None then Some (s\<lparr>live_renderer := None\<rparr>) else None)"
| "sdl_step (SDL_DestroyWindow w) s =
     (if live_window s = Some w \<and> live_renderer s = None then Some (s\<lparr>live_window := None\<rparr>) else None)"
| "sdl_step SDL_Quit s = (if video s \<and> live_window s = None then Some (s\<lparr>video := False\<rparr>) else None)"

fun sdl_run :: "sdl_call list \<Rightarrow> sdl_state \<Rightarrow> sdl_state option" where
  "sdl_run [] s = Some s"
| "sdl_run (c # cs) s = Option.bind (sdl_step c s) (sdl_run cs)"

lemma sdl_run_append [simp]: "sdl_run (cs @ ds) s = Option.bind (sdl_run cs s) (sdl_run ds)"
  by (induction cs arbitrary: s) (auto split: Option.bind_split)

text \<open>The state of SDL after the calls of the module so far.\<close>

definition sdl_after :: "gud_window \<Rightarrow> sdl_state option" where
  "sdl_after w = sdl_run (sdl_calls w) sdl_nothing"

lemma sdl_after_sdl [simp]: "sdl_after (sdl cs w) = Option.bind (sdl_after w) (sdl_run cs)"
  by (simp add: sdl_after_def sdl_def)

lemma sdl_after_update [simp]:
  "sdl_after (w\<lparr>window := a\<rparr>) = sdl_after w" "sdl_after (w\<lparr>renderer := b\<rparr>) = sdl_after w"
  "sdl_after (w\<lparr>texture := c\<rparr>) = sdl_after w" "sdl_after (w\<lparr>display_width := x\<rparr>) = sdl_after w"
  "sdl_after (w\<lparr>presented := p\<rparr>) = sdl_after w"
  by (simp_all add: sdl_after_def)

lemma sdl_frame [simp]:
  "window (sdl cs w) = window w" "renderer (sdl cs w) = renderer w" "texture (sdl cs w) = texture w"
  "display_width (sdl cs w) = display_width w" "presented (sdl cs w) = presented w"
  by (simp_all add: sdl_def)

definition window_opened :: "int \<Rightarrow> int \<Rightarrow> gud_window \<Rightarrow> bool" where
  "window_opened width height w \<longleftrightarrow>
     (\<exists>h r t. window w = Some h \<and> renderer w = Some r \<and> texture w = Some t \<and> display_width w = width \<and>
        sdl_after w = Some \<lparr>video = True, live_window = Some h, live_renderer = Some r, live_texture = Some (t, width, height)\<rparr>)"

definition window_closed :: "gud_window \<Rightarrow> bool" where
  "window_closed w \<longleftrightarrow> window w = None \<and> renderer w = None \<and> texture w = None \<and> presented w = None \<and>
     sdl_after w = Some sdl_nothing"

lemma window_closed_init [simp]: "window_closed init_window"
  by (simp add: window_closed_def init_window_def sdl_after_def)

lemma window_show_opened:
  assumes "window_opened width height w" and "width * height \<le> int (length ps)"
  shows "window_opened width height (gud_display_window_show (Some ps) display_on w) \<and>
    presented (gud_display_window_show (Some ps) display_on w) = (if display_on then Some ps else None)"
  using assms by (auto simp: window_opened_def gud_display_window_show_def live_texture_of_def Let_def)

lemma window_show_black:
  "window_opened width height w \<Longrightarrow> window_opened width height (gud_display_window_show None display_on w) \<and>
    presented (gud_display_window_show None display_on w) = None"
  by (auto simp: window_opened_def gud_display_window_show_def Let_def)

lemma window_show_closed: "window_closed w \<Longrightarrow> gud_display_window_show ps display_on w = w"
  by (simp add: window_closed_def gud_display_window_show_def)

lemma window_close_opened: "window_opened width height w \<Longrightarrow> window_closed (gud_display_window_close w)"
  by (auto simp: window_opened_def window_closed_def gud_display_window_close_def live_texture_of_def Let_def sdl_nothing_def)

lemma window_open_result:
  assumes "window_closed w" and "gud_display_window_open results width height w = (opened, w')"
  shows "(opened \<longleftrightarrow> sdl_init results \<and> sdl_create_window results \<noteq> None \<and> sdl_create_renderer results \<noteq> None \<and>
      sdl_create_texture results \<noteq> None) \<and>
    (if opened then window_opened width height w' \<and> presented w' = None else window_closed w')"
  using assms
  by (cases "sdl_create_window results"; cases "sdl_create_renderer results"; cases "sdl_create_texture results")
    (auto simp: gud_display_window_open_def gud_display_window_close_def gud_display_window_show_def window_closed_def
      window_opened_def live_texture_of_def sdl_nothing_def Let_def split: if_splits)

lemma poll_events_open: "poll_events quit events is_open \<longleftrightarrow> is_open \<and> quit \<notin> set events"
  by (induction events arbitrary: is_open) auto

lemma handle_events_open: "gud_display_window_handle_events quit events \<longleftrightarrow> quit \<notin> set events"
  by (simp add: gud_display_window_handle_events_def poll_events_open)

end
