(* ===== verification/Usb_Gud.thy ===== *)
theory Usb_Gud
  imports Examples Gud_Protocol Gud_Display_Window
begin

text \<open>
  The display example, \<open>src/usb_gud_display\<close>: configuration, descriptors, callbacks and main loop of a GUD
  display. The record \<open>gud\<close> holds the static variables of \<open>usb_gud_display_device.c\<close> and the clock that
  \<open>now_ms\<close> reads, the record \<open>gud_main\<close> the variables of \<open>main\<close>. \<open>gud_round\<close> is one round of the main
  loop.
\<close>

section \<open>Display configuration and descriptors\<close>

abbreviation (input) DISPLAY_WIDTH :: u32 where "DISPLAY_WIDTH \<equiv> 320"
abbreviation (input) DISPLAY_HEIGHT :: u32 where "DISPLAY_HEIGHT \<equiv> 240"
abbreviation (input) DISPLAY_REFRESH_HZ :: u32 where "DISPLAY_REFRESH_HZ \<equiv> 60"

definition display_formats :: "u8 list" where
  "display_formats = [GUD_PIXEL_FORMAT_RGB565]"

abbreviation (input) DISPLAY_MAX_BUFFER_SIZE :: u32 where "DISPLAY_MAX_BUFFER_SIZE \<equiv> 64 * 1024"
abbreviation (input) DISPLAY_COMPRESSION :: u8 where "DISPLAY_COMPRESSION \<equiv> 0"

definition gud_strings :: "(u8 \<times> string option) list" where
  "gud_strings =
     [(1, Some ''Virtual UsbIP''), (2, Some ''Virtual GUD Display''), (4, Some ''ABC123''), (0, None)]"

abbreviation (input) GUD_VID :: u16 where "GUD_VID \<equiv> 0x1d50"
abbreviation (input) GUD_PID :: u16 where "GUD_PID \<equiv> 0x614d"

definition gud_device_descriptor :: "u8 list" where
  "gud_device_descriptor =
     [USB_DEVICE_DESCRIPTOR_LENGTH, USB_DESCRIPTOR_TYPE_DEVICE,
      LOBYTE USB_BCD_VERSION, HIBYTE USB_BCD_VERSION, 0x00, 0x00, 0x00, 64,
      LOBYTE GUD_VID, HIBYTE GUD_VID, LOBYTE GUD_PID, HIBYTE GUD_PID,
      LOBYTE USB_BCD_DEVICE_REL, HIBYTE USB_BCD_DEVICE_REL, 1, 2, 4, 1]"

abbreviation (input) GUD_INTERFACE :: u8 where "GUD_INTERFACE \<equiv> 0"
abbreviation (input) GUD_EP_DATA_OUT :: u8 where "GUD_EP_DATA_OUT \<equiv> 0x01"
abbreviation (input) GUD_DATA_PACKET_SIZE :: u16 where "GUD_DATA_PACKET_SIZE \<equiv> 512"
abbreviation (input) USB_GUD_CONFIG_DESC_LENGTH :: u16 where "USB_GUD_CONFIG_DESC_LENGTH \<equiv> 9 + 9 + 7"

definition usb_gud_configuration :: "u8 list" where
  "usb_gud_configuration =
     [0x09, USB_DESCRIPTOR_TYPE_CONFIGURATION,
      LOBYTE USB_GUD_CONFIG_DESC_LENGTH, HIBYTE USB_GUD_CONFIG_DESC_LENGTH,
      0x01, 0x01, 0x00, 0xC0, 0x32,
      \<comment> \<open>display interface\<close>
      0x09, USB_DESCRIPTOR_TYPE_INTERFACE, GUD_INTERFACE, 0x00, 0x01, 0xFF, 0x00, 0x00, 0x00,
      \<comment> \<open>bulk OUT endpoint\<close>
      0x07, USB_DESCRIPTOR_TYPE_ENDPOINT, GUD_EP_DATA_OUT, 0x02,
      LOBYTE GUD_DATA_PACKET_SIZE, HIBYTE GUD_DATA_PACKET_SIZE, 0x00]"

definition gud_langid_desc :: "u8 list" where
  "gud_langid_desc = [4, USB_DESCRIPTOR_TYPE_STRING, LOBYTE 0x409, HIBYTE 0x409]"

section \<open>State\<close>

record pending_buffer_t =
  pb_active :: bool
  pb_req :: gud_set_buffer_req_t
  pb_transfer_length :: u32
  pb_received :: u32

record gud =
  last_status :: u8
  attached_ms :: u64
  state_checked :: bool
  checked_state :: gud_state_req_t
  current_format :: u8
  controller_enabled :: bool
  display_enabled :: bool
  pending :: pending_buffer_t
  transfer_buffer :: "u8 list"  \<comment> \<open>64 KiB\<close>
  framebuffer :: "u8 list"  \<comment> \<open>320 * 240 * 4 bytes\<close>
  framebuffer_changed :: bool
  stats_updates :: u32
  stats_bytes :: u32
  stats_errors :: u32
  stats_last_rect :: gud_set_buffer_req_t
  gud_clock :: "nat \<Rightarrow> u64 \<times> u64"  \<comment> \<open>tv_sec and tv_nsec of the readings\<close>
  gud_ticks :: nat

definition zero_set_buffer_req :: gud_set_buffer_req_t where
  "zero_set_buffer_req = gud_set_buffer_req_of (replicate 25 0)"

definition init_gud :: "(nat \<Rightarrow> u64 \<times> u64) \<Rightarrow> gud" where
  "init_gud c =
     \<lparr>last_status = GUD_STATUS_OK, attached_ms = 0, state_checked = False,
      checked_state = gud_state_req_of (replicate 26 0), current_format = 0,
      controller_enabled = False, display_enabled = False,
      pending = \<lparr>pb_active = False, pb_req = zero_set_buffer_req, pb_transfer_length = 0, pb_received = 0\<rparr>,
      transfer_buffer = replicate 65536 0, framebuffer = replicate 307200 0, framebuffer_changed = False,
      stats_updates = 0, stats_bytes = 0, stats_errors = 0, stats_last_rect = zero_set_buffer_req,
      gud_clock = c, gud_ticks = 0\<rparr>"

definition now_ms :: "gud \<Rightarrow> u64 \<times> gud" where
  "now_ms a =
     (let (tv_sec, tv_nsec) = gud_clock a (gud_ticks a)
      in (tv_sec * 1000 + tv_nsec div 1000000, a\<lparr>gud_ticks := gud_ticks a + 1\<rparr>))"

section \<open>Formats\<close>

definition is_offered_format :: "u8 \<Rightarrow> bool" where
  "is_offered_format format \<longleftrightarrow> list_ex (\<lambda>offered. offered = format) display_formats"

definition format_bits_per_pixel :: "u8 \<Rightarrow> u32" where
  "format_bits_per_pixel format =
     (if format = GUD_PIXEL_FORMAT_R1 then 1
      else if format = GUD_PIXEL_FORMAT_XRGB1111 then 4
      else if format = GUD_PIXEL_FORMAT_R8 \<or> format = GUD_PIXEL_FORMAT_RGB332 then 8
      else if format = GUD_PIXEL_FORMAT_RGB565 then 16
      else if format = GUD_PIXEL_FORMAT_RGB888 then 24
      else if format = GUD_PIXEL_FORMAT_XRGB8888 \<or> format = GUD_PIXEL_FORMAT_ARGB8888 then 32
      else 0)"

definition line_length :: "u8 \<Rightarrow> u32 \<Rightarrow> u32" where
  "line_length format width = (width * format_bits_per_pixel format + 7) div 8"

section \<open>Control requests\<close>

definition answer :: "u8 list \<Rightarrow> nat \<Rightarrow> gud device \<Rightarrow> gud device res" where
  "answer data len d =
     (let d = d\<lparr>app := (app d)\<lparr>last_status := GUD_STATUS_OK\<rparr>\<rparr>
      in bind_res (usbip_device_transmit 0 data len d) (\<lambda>(stored, d). Done d))"

definition set_status :: "u8 \<Rightarrow> gud device \<Rightarrow> gud device" where
  "set_status status d = d\<lparr>app := (app d)\<lparr>last_status := status\<rparr>\<rparr>"

definition display_descriptor :: gud_display_descriptor_req_t where
  "display_descriptor =
     \<lparr>gdd_magic = GUD_DISPLAY_MAGIC, gdd_version = GUD_PROTOCOL_VERSION,
      gdd_flags = GUD_DISPLAY_FLAG_STATUS_ON_SET, gdd_compression = DISPLAY_COMPRESSION,
      gdd_max_buffer_size = DISPLAY_MAX_BUFFER_SIZE, gdd_min_width = DISPLAY_WIDTH,
      gdd_max_width = DISPLAY_WIDTH, gdd_min_height = DISPLAY_HEIGHT, gdd_max_height = DISPLAY_HEIGHT\<rparr>"

definition display_mode :: gud_display_mode_req_t where
  "display_mode =
     \<lparr>gm_clock = DISPLAY_WIDTH * DISPLAY_HEIGHT * DISPLAY_REFRESH_HZ div 1000,
      gm_hdisplay = 320, gm_hsync_start = 320, gm_hsync_end = 320, gm_htotal = 320,
      gm_vdisplay = 240, gm_vsync_start = 240, gm_vsync_end = 240, gm_vtotal = 240,
      gm_flags = GUD_DISPLAY_MODE_FLAG_PREFERRED\<rparr>"

definition get_connector_request :: "u8 \<Rightarrow> u16 \<Rightarrow> gud device \<Rightarrow> gud device res" where
  "get_connector_request bRequest wValue d =
     (if wValue \<noteq> 0 then Done (set_status GUD_STATUS_INVALID_PARAMETER d)
      else if bRequest = GUD_REQ_GET_CONNECTOR_PROPERTIES then answer [] 0 d
      else if bRequest = GUD_REQ_GET_CONNECTOR_STATUS then
        (let (now, a) = now_ms (app d);
             status = (if 5000 \<le> now - attached_ms a
                       then GUD_CONNECTOR_STATUS_CONNECTED else GUD_CONNECTOR_STATUS_DISCONNECTED)
         in answer [status] 1 (d\<lparr>app := a\<rparr>))
      else if bRequest = GUD_REQ_GET_CONNECTOR_MODES then
        answer (gud_display_mode_req_bytes display_mode) 24 d
      else Done (set_status GUD_STATUS_REQUEST_NOT_SUPPORTED d))"

definition get_request :: "u8 \<Rightarrow> u16 \<Rightarrow> gud device \<Rightarrow> gud device res" where
  "get_request bRequest wValue d =
     (if bRequest = GUD_REQ_GET_STATUS then
        bind_res (usbip_device_transmit 0 [last_status (app d)] 1 d) (\<lambda>(stored, d). Done d)
      else if bRequest = GUD_REQ_GET_DESCRIPTOR then
        answer (gud_display_descriptor_req_bytes display_descriptor) 30 d
      else if bRequest = GUD_REQ_GET_FORMATS then
        answer display_formats (length display_formats) d
      else if bRequest = GUD_REQ_GET_PROPERTIES then
        answer (gud_property_req_bytes \<lparr>gp_prop = GUD_PROPERTY_ROTATION, gp_val = GUD_ROTATION_0\<rparr>) 10 d
      else if bRequest = GUD_REQ_GET_CONNECTORS then
        answer (gud_connector_descriptor_req_bytes
          \<lparr>gc_connector_type = GUD_CONNECTOR_TYPE_PANEL, gc_flags = GUD_CONNECTOR_FLAGS_POLL_STATUS\<rparr>) 5 d
      else get_connector_request bRequest wValue d)"

text \<open>The handlers of control OUT requests return the status, and the state they leave.\<close>

definition inside :: "gud_set_buffer_req_t \<Rightarrow> bool" where
  "inside req \<longleftrightarrow>
     gb_width req > 0 \<and> gb_height req > 0 \<and> gb_x req < DISPLAY_WIDTH \<and> gb_y req < DISPLAY_HEIGHT \<and>
     gb_width req \<le> DISPLAY_WIDTH - gb_x req \<and> gb_height req \<le> DISPLAY_HEIGHT - gb_y req"

definition set_buffer :: "u8 list \<Rightarrow> nat \<Rightarrow> gud \<Rightarrow> (u8 \<times> gud) res" where
  "set_buffer data data_length a =
     (if data_length \<noteq> 25 then Done (GUD_STATUS_PROTOCOL_ERROR, a)
      else bind_res (read_mem data 0 25) (\<lambda>bytes.
        let req = gud_set_buffer_req_of bytes in
        if \<not> inside req \<or> current_format a = 0 \<or>
           gb_length req \<noteq> line_length (current_format a) (gb_width req) * gb_height req
        then Done (GUD_STATUS_INVALID_PARAMETER, a)
        else if gb_compression req \<noteq> 0 \<and> gb_compression req AND NOT DISPLAY_COMPRESSION \<noteq> 0
        then Done (GUD_STATUS_INVALID_PARAMETER, a)
        else
          let transfer_length =
                (if gb_compression req \<noteq> 0 then gb_compressed_length req else gb_length req) in
          if transfer_length = 0 \<or> transfer_length > DISPLAY_MAX_BUFFER_SIZE
          then Done (GUD_STATUS_INVALID_PARAMETER, a)
          else Done (GUD_STATUS_OK, a\<lparr>pending :=
            \<lparr>pb_active = True, pb_req = req, pb_transfer_length = transfer_length, pb_received = 0\<rparr>\<rparr>)))"

function check_properties :: "u8 list \<Rightarrow> nat \<Rightarrow> nat \<Rightarrow> bool res" where
  "check_properties data data_length offset =
     (if offset < data_length then
        bind_res (read_mem data offset 10) (\<lambda>bytes.
          let property = gud_property_req_of bytes in
          if gp_prop property = GUD_PROPERTY_ROTATION \<and> gp_val property \<noteq> GUD_ROTATION_0
          then Done False else check_properties data data_length (offset + 10))
      else Done True)"
  by auto
termination by (relation "measure (\<lambda>(data, data_length, offset). data_length - offset)") auto

declare check_properties.simps [simp del]

definition set_state_check :: "u8 list \<Rightarrow> nat \<Rightarrow> gud \<Rightarrow> (u8 \<times> gud) res" where
  "set_state_check data data_length a =
     (if data_length < 26 \<or> (data_length - 26) mod 10 \<noteq> 0 then Done (GUD_STATUS_PROTOCOL_ERROR, a)
      else bind_res (read_mem data 0 26) (\<lambda>bytes.
        let st = gud_state_req_of bytes in
        if gm_hdisplay (gs_mode st) \<noteq> 320 \<or> gm_vdisplay (gs_mode st) \<noteq> 240 \<or>
           \<not> is_offered_format (gs_format st) \<or> gs_connector st \<noteq> 0
        then Done (GUD_STATUS_INVALID_PARAMETER, a)
        else bind_res (check_properties data data_length 26) (\<lambda>valid.
          if valid then Done (GUD_STATUS_OK, a\<lparr>checked_state := st, state_checked := True\<rparr>)
          else Done (GUD_STATUS_INVALID_PARAMETER, a))))"

definition set_state_commit :: "gud \<Rightarrow> u8 \<times> gud" where
  "set_state_commit a =
     (if \<not> state_checked a then (GUD_STATUS_PROTOCOL_ERROR, a)
      else (GUD_STATUS_OK, a\<lparr>current_format := gs_format (checked_state a), state_checked := False\<rparr>))"

definition set_enable :: "u8 list \<Rightarrow> nat \<Rightarrow> bool \<Rightarrow> (u8 \<times> bool) res" where
  "set_enable data data_length enabled =
     (if data_length \<noteq> 1 then Done (GUD_STATUS_PROTOCOL_ERROR, enabled)
      else bind_res (nth_res data 0) (\<lambda>byte.
        Done (GUD_STATUS_OK, if enabled \<noteq> (byte \<noteq> 0) then byte \<noteq> 0 else enabled)))"

definition set_request :: "u8 \<Rightarrow> u8 list \<Rightarrow> nat \<Rightarrow> gud \<Rightarrow> gud res" where
  "set_request bRequest data data_length a =
     (if bRequest = GUD_REQ_SET_CONNECTOR_FORCE_DETECT then Done (a\<lparr>last_status := GUD_STATUS_OK\<rparr>)
      else if bRequest = GUD_REQ_SET_BUFFER then
        bind_res (set_buffer data data_length a) (\<lambda>(status, a). Done (a\<lparr>last_status := status\<rparr>))
      else if bRequest = GUD_REQ_SET_STATE_CHECK then
        bind_res (set_state_check data data_length a) (\<lambda>(status, a). Done (a\<lparr>last_status := status\<rparr>))
      else if bRequest = GUD_REQ_SET_STATE_COMMIT then
        (let (status, a) = set_state_commit a in Done (a\<lparr>last_status := status\<rparr>))
      else if bRequest = GUD_REQ_SET_CONTROLLER_ENABLE then
        bind_res (set_enable data data_length (controller_enabled a)) (\<lambda>(status, enabled).
          Done (a\<lparr>controller_enabled := enabled, last_status := status\<rparr>))
      else if bRequest = GUD_REQ_SET_DISPLAY_ENABLE then
        bind_res (set_enable data data_length (display_enabled a)) (\<lambda>(status, enabled).
          Done (a\<lparr>display_enabled := enabled, last_status := status\<rparr>))
      else Done (a\<lparr>last_status := GUD_STATUS_REQUEST_NOT_SUPPORTED\<rparr>))"

abbreviation (input) REQUEST_TYPE_VENDOR_INTERFACE_IN :: u8 where "REQUEST_TYPE_VENDOR_INTERFACE_IN \<equiv> 0xC1"
abbreviation (input) REQUEST_TYPE_VENDOR_INTERFACE_OUT :: u8 where "REQUEST_TYPE_VENDOR_INTERFACE_OUT \<equiv> 0x41"

definition gud_control_data :: "u8 list \<Rightarrow> u8 list \<Rightarrow> nat \<Rightarrow> gud device \<Rightarrow> gud device res" where
  "gud_control_data setup data data_length d =
     (let bRequestType = setup ! 0;
          bRequest = setup ! 1;
          wValue = le16 (setup ! 2) (setup ! 3);
          wIndex = le16 (setup ! 4) (setup ! 5)
      in
      if bRequestType \<noteq> REQUEST_TYPE_VENDOR_INTERFACE_IN \<and> bRequestType \<noteq> REQUEST_TYPE_VENDOR_INTERFACE_OUT
      then Done d
      else if wIndex \<noteq> ucast GUD_INTERFACE then Done (set_status GUD_STATUS_INVALID_PARAMETER d)
      else if bRequestType = REQUEST_TYPE_VENDOR_INTERFACE_IN then get_request bRequest wValue d
      else bind_res (set_request bRequest data data_length (app d)) (\<lambda>a. Done (d\<lparr>app := a\<rparr>)))"

section \<open>Pixel data\<close>

text \<open>The loop of \<open>store_rectangle\<close>. Offsets are computed with 32 bits.\<close>

function store_lines :: "gud_set_buffer_req_t \<Rightarrow> u32 \<Rightarrow> u8 list \<Rightarrow> nat \<Rightarrow> u8 list \<Rightarrow> u8 list res" where
  "store_lines rect bytes_per_pixel pixels line fb =
     (if line < unat (gb_height rect) then
        let pitch = DISPLAY_WIDTH * bytes_per_pixel;
            rect_pitch = gb_width rect * bytes_per_pixel
        in bind_res (read_mem pixels (unat (of_nat line * rect_pitch)) (unat rect_pitch)) (\<lambda>bytes.
           bind_res (write_mem fb
               (unat ((gb_y rect + of_nat line) * pitch + gb_x rect * bytes_per_pixel)) bytes) (\<lambda>fb.
             store_lines rect bytes_per_pixel pixels (line + 1) fb))
      else Done fb)"
  by auto
termination by (relation "measure (\<lambda>(rect, b, pixels, line, fb). unat (gb_height rect) - line)") auto

declare store_lines.simps [simp del]

definition store_rectangle :: "gud_set_buffer_req_t \<Rightarrow> u8 list \<Rightarrow> gud \<Rightarrow> gud res" where
  "store_rectangle rect pixels a =
     (let bits = format_bits_per_pixel (current_format a) in
      if bits mod 8 \<noteq> 0 then Done a
      else bind_res (store_lines rect (bits div 8) pixels 0 (framebuffer a)) (\<lambda>fb.
        Done (a\<lparr>framebuffer := fb, framebuffer_changed := True\<rparr>)))"

definition gud_endpoint_data :: "u8 \<Rightarrow> u8 list \<Rightarrow> nat \<Rightarrow> gud device \<Rightarrow> gud device res" where
  "gud_endpoint_data ep data data_length d =
     (let a = app d; p = pending a in
      if \<not> pb_active p \<or> data_length > unat (pb_transfer_length p - pb_received p)
      then Done (d\<lparr>app := a\<lparr>stats_errors := stats_errors a + 1, pending := p\<lparr>pb_active := False\<rparr>\<rparr>\<rparr>)
      else
        bind_res (read_mem data 0 data_length) (\<lambda>bytes.
        bind_res (write_mem (transfer_buffer a) (unat (pb_received p)) bytes) (\<lambda>buffer.
          let p = p\<lparr>pb_received := pb_received p + of_nat data_length\<rparr>;
              a = a\<lparr>transfer_buffer := buffer, pending := p\<rparr> in
          if pb_received p < pb_transfer_length p then Done (d\<lparr>app := a\<rparr>)
          else
            let a = a\<lparr>pending := p\<lparr>pb_active := False\<rparr>\<rparr> in
            if gb_compression (pb_req p) \<noteq> 0 then Done (d\<lparr>app := a\<lparr>stats_errors := stats_errors a + 1\<rparr>\<rparr>)
            else bind_res (store_rectangle (pb_req p) (transfer_buffer a) a) (\<lambda>a.
              Done (d\<lparr>app := a\<lparr>stats_updates := stats_updates a + 1,
                stats_bytes := stats_bytes a + pb_transfer_length p, stats_last_rect := pb_req p\<rparr>\<rparr>)))))"

definition gud_reset :: "gud device \<Rightarrow> gud device res" where
  "gud_reset d =
     (let (now, a) = now_ms (app d)
      in Done (d\<lparr>app := a\<lparr>attached_ms := now, last_status := GUD_STATUS_OK, state_checked := False,
        current_format := 0, controller_enabled := False, display_enabled := False,
        pending := (pending a)\<lparr>pb_active := False\<rparr>,
        framebuffer := replicate (length (framebuffer a)) 0, framebuffer_changed := True\<rparr>\<rparr>))"

definition gud_display_device :: "gud usbip_device_t" where
  "gud_display_device =
     \<lparr>device_desc = gud_device_descriptor, config_desc = usb_gud_configuration,
      langid_desc = gud_langid_desc, usb_strings = Some gud_strings,
      control_data_callback = gud_control_data, ep_data_callback = Some gud_endpoint_data,
      reset_callback = Some gud_reset, iso_in_callback = None\<rparr>"

section \<open>The window\<close>

definition widen :: "u32 \<Rightarrow> nat \<Rightarrow> u32" where
  "widen value bits = value * 255 div (push_bit bits 1 - 1)"

text \<open>The colour channels of one pixel, the body of the loop of \<open>framebuffer_to_xrgb8888\<close>.\<close>

definition pixel_channels :: "u8 list \<Rightarrow> u8 \<Rightarrow> nat \<Rightarrow> (u32 \<times> u32 \<times> u32) res" where
  "pixel_channels fb format idx =
     (if format = GUD_PIXEL_FORMAT_R8 then
        bind_res (nth_res fb idx) (\<lambda>v. Done (ucast v, ucast v, ucast v))
      else if format = GUD_PIXEL_FORMAT_RGB332 then
        bind_res (nth_res fb idx) (\<lambda>v. Done
          (widen (drop_bit 5 (ucast v)) 3, widen (drop_bit 2 (ucast v) AND 0x07) 3, widen (ucast v AND 0x03) 2))
      else if format = GUD_PIXEL_FORMAT_RGB565 then
        bind_res (nth_res fb (2 * idx)) (\<lambda>lo.
        bind_res (nth_res fb (2 * idx + 1)) (\<lambda>hi.
          let pixel = ucast lo OR push_bit 8 (ucast hi) in
          Done (widen (drop_bit 11 pixel) 5, widen (drop_bit 5 pixel AND 0x3f) 6, widen (pixel AND 0x1f) 5)))
      else if format = GUD_PIXEL_FORMAT_RGB888 then
        bind_res (nth_res fb (3 * idx)) (\<lambda>b.
        bind_res (nth_res fb (3 * idx + 1)) (\<lambda>g.
        bind_res (nth_res fb (3 * idx + 2)) (\<lambda>r. Done (ucast r, ucast g, ucast b))))
      else if format = GUD_PIXEL_FORMAT_XRGB8888 \<or> format = GUD_PIXEL_FORMAT_ARGB8888 then
        bind_res (nth_res fb (4 * idx)) (\<lambda>b.
        bind_res (nth_res fb (4 * idx + 1)) (\<lambda>g.
        bind_res (nth_res fb (4 * idx + 2)) (\<lambda>r. Done (ucast r, ucast g, ucast b))))
      else Done (0, 0, 0))"

fun xrgb8888_loop :: "u8 list \<Rightarrow> u8 \<Rightarrow> nat list \<Rightarrow> u32 list res" where
  "xrgb8888_loop fb format [] = Done []"
| "xrgb8888_loop fb format (idx # idxs) =
     bind_res (pixel_channels fb format idx) (\<lambda>(r, g, b).
     bind_res (xrgb8888_loop fb format idxs) (\<lambda>pixels.
       Done ((push_bit 16 r OR push_bit 8 g OR b) # pixels)))"

definition framebuffer_to_xrgb8888 :: "u8 list \<Rightarrow> u8 \<Rightarrow> u32 list res" where
  "framebuffer_to_xrgb8888 fb format = xrgb8888_loop fb format [0..<320 * 240]"

record gud_main =
  frame :: "u8 list"
  window_open :: bool
  shown_on :: bool
  next_stats_ms :: u64
  display_window :: gud_window

text \<open>The picture in the window.\<close>

abbreviation window_image :: "gud_main \<Rightarrow> u32 list option" where
  "window_image m \<equiv> presented (display_window m)"

text \<open>One round of the main loop, without the waiting and the printing.\<close>

definition gud_round :: "gud_main \<Rightarrow> gud \<Rightarrow> (gud_main \<times> gud) res" where
  "gud_round m a =
     (let (now, a) = now_ms a;
          print_stats = (next_stats_ms m \<le> now);
          \<comment> \<open>critical section\<close>
          changed = framebuffer_changed a;
          display_on = (controller_enabled a \<and> display_enabled a);
          format = current_format a;
          (m, a) = (if changed then (m\<lparr>frame := framebuffer a\<rparr>, a\<lparr>framebuffer_changed := False\<rparr>) else (m, a));
          a = (if print_stats then a\<lparr>stats_updates := 0, stats_bytes := 0, stats_errors := 0\<rparr> else a);
          \<comment> \<open>end of the critical section\<close>
          m = (if print_stats then m\<lparr>next_stats_ms := next_stats_ms m + 1000\<rparr> else m)
      in
      if window_open m \<and> (changed \<or> display_on \<noteq> shown_on m) then
        bind_res (framebuffer_to_xrgb8888 (frame m) format) (\<lambda>pixels.
          Done (m\<lparr>display_window := gud_display_window_show (Some pixels) display_on (display_window m),
                  shown_on := display_on\<rparr>, a))
      else Done (m, a))"

definition init_gud_main :: "bool \<Rightarrow> gud_window \<Rightarrow> u64 \<Rightarrow> gud_main" where
  "init_gud_main opened w now =
     \<lparr>frame = replicate 307200 0, window_open = opened, shown_on = False, next_stats_ms = now + 1000,
      display_window = w\<rparr>"

section \<open>Rectangles\<close>

text \<open>
  What an update does to the framebuffer, in terms of rows of 640 bytes: the bytes of the rectangle, from
  its line \<open>l\<close> on, are replaced by those of the pixel data.
\<close>

definition draw_from :: "nat \<Rightarrow> gud_set_buffer_req_t \<Rightarrow> u8 list \<Rightarrow> u8 list \<Rightarrow> u8 list" where
  "draw_from l rect pixels fb =
     map (\<lambda>i. let row = i div 640; col = i mod 640;
                  x = unat (gb_x rect); y = unat (gb_y rect); w = unat (gb_width rect); h = unat (gb_height rect)
              in if y + l \<le> row \<and> row < y + h \<and> 2 * x \<le> col \<and> col < 2 * x + 2 * w
                 then pixels ! ((row - y) * (2 * w) + (col - 2 * x)) else fb ! i)
       [0..<length fb]"

abbreviation draw_rectangle :: "gud_set_buffer_req_t \<Rightarrow> u8 list \<Rightarrow> u8 list \<Rightarrow> u8 list" where
  "draw_rectangle \<equiv> draw_from 0"

lemma length_draw_from [simp]: "length (draw_from l rect pixels fb) = length fb"
  by (simp add: draw_from_def)

lemma draw_from_end: "unat (gb_height rect) \<le> l \<Longrightarrow> draw_from l rect pixels fb = fb"
  by (rule nth_equalityI) (auto simp: draw_from_def Let_def)

lemma inside_bounds:
  assumes "inside req"
  shows "unat (gb_x req) + unat (gb_width req) \<le> 320" "unat (gb_y req) + unat (gb_height req) \<le> 240"
    "0 < unat (gb_width req)" "0 < unat (gb_height req)"
proof -
  have "unat (320 - gb_x req) = 320 - unat (gb_x req)" "unat (240 - gb_y req) = 240 - unat (gb_y req)"
    using assms by (simp_all add: inside_def unat_sub order_less_imp_le)
  then show "unat (gb_x req) + unat (gb_width req) \<le> 320" "unat (gb_y req) + unat (gb_height req) \<le> 240"
    "0 < unat (gb_width req)" "0 < unat (gb_height req)"
    using assms by (auto simp: inside_def word_less_nat_alt word_le_nat_alt)
qed

lemma row_col:
  fixes c r m i :: nat
  assumes "c + m \<le> 640"
  shows "r * 640 + c \<le> i \<and> i < r * 640 + c + m \<longleftrightarrow> i div 640 = r \<and> c \<le> i mod 640 \<and> i mod 640 < c + m"
proof
  assume *: "r * 640 + c \<le> i \<and> i < r * 640 + c + m"
  then have "i div 640 = r" using assms by (intro div_nat_eqI) auto
  moreover from this have "i = r * 640 + i mod 640" using div_mult_mod_eq [of i 640] by simp
  ultimately show "i div 640 = r \<and> c \<le> i mod 640 \<and> i mod 640 < c + m" using * by linarith
next
  assume "i div 640 = r \<and> c \<le> i mod 640 \<and> i mod 640 < c + m"
  then show "r * 640 + c \<le> i \<and> i < r * 640 + c + m" using div_mult_mod_eq [of i 640] by linarith
qed

lemma line_offsets:
  assumes "inside rect" and "l < unat (gb_height rect)"
  shows "unat (of_nat l * (gb_width rect * 2)) = l * (2 * unat (gb_width rect))"
    "unat (gb_width rect * 2) = 2 * unat (gb_width rect)"
    "unat ((gb_y rect + of_nat l) * (DISPLAY_WIDTH * 2) + gb_x rect * 2) =
       (unat (gb_y rect) + l) * 640 + 2 * unat (gb_x rect)"
proof -
  note b = inside_bounds [OF assms(1)]
  let ?x = "unat (gb_x rect)" and ?y = "unat (gb_y rect)" and ?w = "unat (gb_width rect)"
  have l: "l < 240" "?y + l < 240" and w: "?w \<le> 320" and x: "?x \<le> 320" using assms(2) b by auto
  have "l * (2 * ?w) \<le> 240 * (2 * 320)" using l w by (intro mult_le_mono) auto
  have 1: "of_nat (?w * 2) = gb_width rect * 2" and 2: "of_nat (l * (2 * ?w)) = of_nat l * (gb_width rect * 2)"
    and 3: "of_nat ((?y + l) * 640 + 2 * ?x) = (gb_y rect + of_nat l) * (DISPLAY_WIDTH * 2) + gb_x rect * 2"
    by (simp_all add: mult.commute)
  show "unat (gb_width rect * 2) = 2 * ?w" unfolding 1 [symmetric] using w by (subst unat_of_nat_less) auto
  show "unat (of_nat l * (gb_width rect * 2)) = l * (2 * ?w)"
    unfolding 2 [symmetric] using \<open>l * (2 * ?w) \<le> _\<close> by (subst unat_of_nat_less) auto
  show "unat ((gb_y rect + of_nat l) * (DISPLAY_WIDTH * 2) + gb_x rect * 2) = (?y + l) * 640 + 2 * ?x"
    unfolding 3 [symmetric] using l x by (subst unat_of_nat_less) auto
qed

lemma draw_from_step:
  assumes "inside rect" and "l < unat (gb_height rect)" and "length fb = 307200"
    and "2 * unat (gb_width rect) * unat (gb_height rect) \<le> length pixels"
  defines "off \<equiv> (unat (gb_y rect) + l) * 640 + 2 * unat (gb_x rect)"
  defines "bytes \<equiv> segment pixels (l * (2 * unat (gb_width rect))) (2 * unat (gb_width rect))"
  shows "l * (2 * unat (gb_width rect)) + 2 * unat (gb_width rect) \<le> length pixels"
    "length bytes = 2 * unat (gb_width rect)" "off + length bytes \<le> length fb"
    "draw_from (Suc l) rect pixels (overwrite fb off bytes) = draw_from l rect pixels fb"
proof -
  note b = inside_bounds [OF assms(1)]
  let ?w = "unat (gb_width rect)" and ?h = "unat (gb_height rect)" and ?x = "unat (gb_x rect)" and ?y = "unat (gb_y rect)"
  have "Suc l * (2 * ?w) \<le> ?h * (2 * ?w)" using assms(2) by (intro mult_le_mono1) simp
  then show p: "l * (2 * ?w) + 2 * ?w \<le> length pixels" using assms(4) by (simp add: algebra_simps)
  then show len: "length bytes = 2 * ?w" by (simp add: bytes_def)
  then show o: "off + length bytes \<le> length fb" using b assms(2,3) by (simp add: off_def)
  show "draw_from (Suc l) rect pixels (overwrite fb off bytes) = draw_from l rect pixels fb"
  proof (rule nth_equalityI)
    fix i assume "i < length (draw_from (Suc l) rect pixels (overwrite fb off bytes))"
    then have i: "i < length fb" using o by simp
    have at: "off \<le> i \<and> i < off + length bytes \<longleftrightarrow>
        i div 640 = ?y + l \<and> 2 * ?x \<le> i mod 640 \<and> i mod 640 < 2 * ?x + 2 * ?w"
      unfolding len off_def using row_col [of "2 * ?x" "2 * ?w" "?y + l" i] b by simp
    have "bytes ! (i - off) = pixels ! (l * (2 * ?w) + (i mod 640 - 2 * ?x))" if "off \<le> i \<and> i < off + length bytes"
    proof -
      have "i = (?y + l) * 640 + i mod 640" using that at div_mult_mod_eq [of i 640] by simp
      then have "i - off = i mod 640 - 2 * ?x" using that at unfolding off_def by linarith
      moreover have "i mod 640 - 2 * ?x < 2 * ?w" using that at by linarith
      ultimately show ?thesis using p by (simp add: bytes_def)
    qed
    then show "draw_from (Suc l) rect pixels (overwrite fb off bytes) ! i = draw_from l rect pixels fb ! i"
      using i o at assms(2) by (auto simp: draw_from_def Let_def nth_overwrite)
  qed (use o in simp)
qed

lemma store_lines_draws:
  assumes "inside rect" and "2 * unat (gb_width rect) * unat (gb_height rect) \<le> length pixels"
  shows "length fb = 307200 \<Longrightarrow> l \<le> unat (gb_height rect) \<Longrightarrow>
     store_lines rect 2 pixels l fb = Done (draw_from l rect pixels fb)"
proof (induction "unat (gb_height rect) - l" arbitrary: l fb)
  case 0
  then show ?case by (subst store_lines.simps) (simp add: draw_from_end)
next
  case (Suc n)
  then have l: "l < unat (gb_height rect)" by simp
  note s = draw_from_step [OF assms(1) l Suc.prems(1) assms(2)] and o = line_offsets [OF assms(1) l]
  let ?fb = "overwrite fb ((unat (gb_y rect) + l) * 640 + 2 * unat (gb_x rect))
    (segment pixels (l * (2 * unat (gb_width rect))) (2 * unat (gb_width rect)))"
  have "length ?fb = 307200" using s(3) Suc.prems(1) by simp
  then have "store_lines rect 2 pixels (Suc l) ?fb = Done (draw_from (Suc l) rect pixels ?fb)"
    using Suc.hyps l by (intro Suc.hyps(1)) auto
  moreover have "store_lines rect 2 pixels l fb = store_lines rect 2 pixels (Suc l) ?fb"
    by (subst store_lines.simps)
       (simp only: l Let_def o if_True read_mem_Done [OF s(1)] bind_res.simps write_mem_Done [OF s(3)] Suc_eq_plus1)
  ultimately show ?case using s(4) by simp
qed

section \<open>The device contract\<close>

text \<open>
  The invariant: the buffers keep their sizes, the format is the offered one or none, nothing is drawn
  before a format is chosen, and a pending update lies inside the display, in the current format, with less
  data received than announced.
\<close>

definition pending_ok :: "gud \<Rightarrow> bool" where
  "pending_ok a \<longleftrightarrow>
     (let p = pending a; req = pb_req p in
      current_format a = GUD_PIXEL_FORMAT_RGB565 \<and> inside req \<and> gb_compression req = 0 \<and>
      unat (pb_transfer_length p) = 2 * unat (gb_width req) * unat (gb_height req) \<and>
      pb_received p < pb_transfer_length p \<and> unat (pb_transfer_length p) \<le> 65536)"

definition gud_inv :: "gud \<Rightarrow> bool" where
  "gud_inv a \<longleftrightarrow>
     length (transfer_buffer a) = 65536 \<and> length (framebuffer a) = 307200 \<and>
     (current_format a = 0 \<and> framebuffer a = replicate 307200 0 \<or> current_format a = GUD_PIXEL_FORMAT_RGB565) \<and>
     (state_checked a \<longrightarrow> gs_format (checked_state a) = GUD_PIXEL_FORMAT_RGB565) \<and>
     (pb_active (pending a) \<longrightarrow> pending_ok a)"

lemma gud_inv_init: "gud_inv (init_gud c)"
  by (simp add: gud_inv_def init_gud_def)

lemma is_offered_format_iff: "is_offered_format format \<longleftrightarrow> format = GUD_PIXEL_FORMAT_RGB565"
  by (auto simp: is_offered_format_def display_formats_def)

lemma line_length_rgb565:
  assumes "inside req"
  shows "unat (line_length GUD_PIXEL_FORMAT_RGB565 (gb_width req) * gb_height req) =
     2 * unat (gb_width req) * unat (gb_height req)"
proof -
  note b = inside_bounds [OF assms]
  let ?w = "unat (gb_width req)" and ?h = "unat (gb_height req)"
  have w: "?w \<le> 320" and h: "?h \<le> 240" using b by auto
  have "unat (of_nat (?w * 16 + 7) :: u32) = ?w * 16 + 7" using w by (intro unat_of_nat_less) simp
  then have "unat (gb_width req * 16 + 7) = ?w * 16 + 7" by (simp add: mult.commute)
  then have l: "unat (line_length GUD_PIXEL_FORMAT_RGB565 (gb_width req)) = 2 * ?w"
    by (simp add: line_length_def format_bits_per_pixel_def unat_div)
  have "2 * ?w * ?h \<le> 640 * 240" using w h by (intro mult_le_mono) auto
  then show ?thesis using l by (subst unat_mult_lem [THEN iffD1]) auto
qed

text \<open>The requests that \<open>set_buffer\<close> accepts, in terms of numbers.\<close>

definition acceptable :: "gud \<Rightarrow> gud_set_buffer_req_t \<Rightarrow> bool" where
  "acceptable a req \<longleftrightarrow>
     inside req \<and> current_format a = GUD_PIXEL_FORMAT_RGB565 \<and> gb_compression req = 0 \<and>
     unat (gb_length req) = 2 * unat (gb_width req) * unat (gb_height req) \<and> unat (gb_length req) \<le> 65536"

lemma set_buffer_result:
  assumes "gud_inv a" and "25 \<le> length data"
  defines "req \<equiv> gud_set_buffer_req_of (take 25 data)"
  shows "set_buffer data 25 a =
     (if acceptable a req
      then Done (GUD_STATUS_OK, a\<lparr>pending :=
        \<lparr>pb_active = True, pb_req = req, pb_transfer_length = gb_length req, pb_received = 0\<rparr>\<rparr>)
      else Done (GUD_STATUS_INVALID_PARAMETER, a))"
proof (cases "inside req \<and> current_format a = GUD_PIXEL_FORMAT_RGB565")
  case True
  note l = line_length_rgb565 [OF conjunct1 [OF True]] and b = inside_bounds [OF conjunct1 [OF True]]
  have eq: "gb_length req = line_length GUD_PIXEL_FORMAT_RGB565 (gb_width req) * gb_height req \<longleftrightarrow>
      unat (gb_length req) = 2 * unat (gb_width req) * unat (gb_height req)"
    unfolding l [symmetric] by (simp add: word_unat_eq_iff)
  have "unat (gb_length req) \<noteq> 0" if "unat (gb_length req) = 2 * unat (gb_width req) * unat (gb_height req)"
    using that b by auto
  then show ?thesis using True assms(2) eq
    by (auto simp: set_buffer_def Let_def acceptable_def req_def [symmetric] word_less_nat_alt word_le_nat_alt)
next
  case False
  then have "\<not> inside req \<or> current_format a = 0" using assms(1) by (auto simp: gud_inv_def)
  then show ?thesis using False assms(2)
    by (auto simp: set_buffer_def Let_def acceptable_def req_def [symmetric])
qed

lemma check_properties_returns:
  "data_length \<le> length data \<Longrightarrow> (data_length - offset) mod 10 = 0 \<Longrightarrow>
   \<exists>valid. check_properties data data_length offset = Done valid"
proof (induction data data_length offset rule: check_properties.induct)
  case (1 data data_length offset)
  show ?case
  proof (cases "offset < data_length")
    case True
    then have "10 \<le> data_length - offset" using "1.prems"(2)
      by (metis less_imp_le_nat mod_less not_less zero_less_diff less_numeral_extra(3))
    moreover from this have "(data_length - (offset + 10)) mod 10 = 0" using "1.prems"(2)
      by (metis diff_diff_left le_mod_geq)
    ultimately show ?thesis using 1 True
      by (subst check_properties.simps) (auto simp: Let_def)
  qed (subst check_properties.simps, auto)
qed

lemma set_state_check_result:
  assumes "n \<le> length data"
  shows "\<exists>status a'. set_state_check data n a = Done (status, a') \<and>
     (a' = a \<and> status \<noteq> GUD_STATUS_OK \<or>
      a' = a\<lparr>checked_state := gud_state_req_of (take 26 data), state_checked := True\<rparr> \<and> status = GUD_STATUS_OK \<and>
      gs_format (gud_state_req_of (take 26 data)) = GUD_PIXEL_FORMAT_RGB565)"
proof (cases "n < 26 \<or> (n - 26) mod 10 \<noteq> 0")
  case False
  then obtain valid where "check_properties data n 26 = Done valid"
    using check_properties_returns [OF assms, of 26] by auto
  then show ?thesis using False assms by (auto simp: set_state_check_def Let_def is_offered_format_iff)
qed (simp add: set_state_check_def)

lemma set_enable_result:
  "n \<le> length data \<Longrightarrow>
   set_enable data n e = Done (if n \<noteq> 1 then (GUD_STATUS_PROTOCOL_ERROR, e) else (GUD_STATUS_OK, data ! 0 \<noteq> 0))"
  by (auto simp: set_enable_def nth_res_def)

lemma gud_inv_frame [simp]:
  "gud_inv (a\<lparr>last_status := st\<rparr>) = gud_inv a" "gud_inv (a\<lparr>controller_enabled := b\<rparr>) = gud_inv a"
  "gud_inv (a\<lparr>display_enabled := b\<rparr>) = gud_inv a" "gud_inv (a\<lparr>gud_ticks := t\<rparr>) = gud_inv a"
  "gud_inv (a\<lparr>stats_errors := e\<rparr>) = gud_inv a" "gud_inv (a\<lparr>stats_updates := e\<rparr>) = gud_inv a"
  "gud_inv (a\<lparr>stats_bytes := e\<rparr>) = gud_inv a" "gud_inv (a\<lparr>stats_last_rect := r\<rparr>) = gud_inv a"
  "gud_inv (a\<lparr>framebuffer_changed := b\<rparr>) = gud_inv a"
  by (simp_all add: gud_inv_def pending_ok_def Let_def)

lemma set_request_returns:
  assumes "gud_inv a" and "n \<le> length data"
  shows "returns gud_inv (set_request bRequest data n a)"
proof -
  have "returns (\<lambda>(status, a). gud_inv a) (set_buffer data n a)"
  proof (cases "n = 25")
    case True
    have "gud_inv (a\<lparr>pending := \<lparr>pb_active = True, pb_req = req, pb_transfer_length = gb_length req, pb_received = 0\<rparr>\<rparr>)"
      if "acceptable a req" for req
      using that assms(1) inside_bounds [of req]
      by (auto simp: gud_inv_def pending_ok_def acceptable_def Let_def word_less_nat_alt)
    then show ?thesis using True assms by (simp add: set_buffer_result)
  qed (use assms in \<open>simp add: set_buffer_def\<close>)
  moreover have "returns (\<lambda>(status, a). gud_inv a) (set_state_check data n a)"
    using set_state_check_result [OF assms(2), of a] assms(1)
    by (auto simp: gud_inv_def pending_ok_def Let_def)
  moreover have "gud_inv (snd (set_state_commit a))"
    using assms(1) by (auto simp: set_state_commit_def gud_inv_def pending_ok_def Let_def)
  ultimately show ?thesis using assms
    unfolding set_request_def by (auto simp: set_enable_result split_beta returns_iff Let_def)
qed

lemma answer_returns:
  assumes "dev_inv gud_inv d" and "n \<le> length data"
  shows "returns (\<lambda>d'. dev_inv gud_inv d' \<and> app d' = (app d)\<lparr>last_status := GUD_STATUS_OK\<rparr> \<and>
      (\<not> device_stopped d \<longrightarrow> unread d' 0 = take (cut_length n) data)) (answer data n d)"
proof -
  let ?d = "d\<lparr>app := (app d)\<lparr>last_status := GUD_STATUS_OK\<rparr>\<rparr>"
  have "wf_device ?d" "gud_inv (app ?d)" using assms(1) by (simp_all add: dev_inv_def)
  then show ?thesis
    unfolding answer_def Let_def
    by (intro returns_bindI [OF usbip_device_transmit_spec [of ?d]])
       (use assms(2) in \<open>auto simp: dev_inv_def dest: fun_cong [where x = 0]\<close>)
qed

lemma get_request_returns:
  assumes "dev_inv gud_inv d"
  shows "returns (dev_inv gud_inv) (get_request bRequest wValue d)"
proof -
  have a: "returns (dev_inv gud_inv) (answer data n d1)" if "dev_inv gud_inv d1" "n \<le> length data" for data n d1
    by (rule returns_mono [OF answer_returns [OF that]]) simp
  have st: "dev_inv gud_inv (set_status status d)" for status
    using assms by (simp add: set_status_def dev_inv_def)
  have t: "returns (dev_inv gud_inv) (bind_res (usbip_device_transmit 0 [last_status (app d)] 1 d) (\<lambda>(stored, d). Done d))"
    using assms by (intro returns_bindI [OF usbip_device_transmit_spec]) (auto simp: dev_inv_def)
  have now: "dev_inv gud_inv (d\<lparr>app := snd (now_ms (app d))\<rparr>)"
    using assms by (simp add: now_ms_def split_beta dev_inv_def Let_def)
  have "returns (dev_inv gud_inv) (get_connector_request bRequest wValue d)"
    unfolding get_connector_request_def Let_def split_beta
    by (auto intro!: a assms st now)
  then show ?thesis
    unfolding get_request_def using t by (auto intro!: a assms)
qed

lemma gud_control_data_returns:
  assumes "dev_inv gud_inv d" and "n \<le> length data"
  shows "returns (dev_inv gud_inv) (gud_control_data setup data n d)"
proof -
  have "returns gud_inv (set_request (setup ! 1) data n (app d))"
    using set_request_returns assms by (simp add: dev_inv_def)
  then have "returns (dev_inv gud_inv) (bind_res (set_request (setup ! 1) data n (app d)) (\<lambda>a. Done (d\<lparr>app := a\<rparr>)))"
    using assms(1) by (intro returns_bindI) (auto simp: dev_inv_def)
  then show ?thesis using assms(1) get_request_returns [OF assms(1)]
    by (simp add: gud_control_data_def Let_def set_status_def dev_inv_def)
qed

lemma store_rectangle_draws:
  assumes "gud_inv a" and "current_format a = GUD_PIXEL_FORMAT_RGB565" and "inside rect"
    and "2 * unat (gb_width rect) * unat (gb_height rect) \<le> length pixels"
  shows "store_rectangle rect pixels a =
     Done (a\<lparr>framebuffer := draw_rectangle rect pixels (framebuffer a), framebuffer_changed := True\<rparr>)"
proof -
  have "format_bits_per_pixel (current_format a) = 16" using assms(2) by (simp add: format_bits_per_pixel_def)
  then show ?thesis
    using store_lines_draws [OF assms(3,4), of "framebuffer a" 0] assms(1)
    by (simp add: store_rectangle_def Let_def gud_inv_def)
qed

text \<open>The three things that can happen to pixel data.\<close>

lemma endpoint_data_dropped:
  assumes "\<not> pb_active (pending (app d)) \<or>
      n > unat (pb_transfer_length (pending (app d))) - unat (pb_received (pending (app d)))"
    and "gud_inv (app d)"
  shows "gud_endpoint_data ep data n d = Done (d\<lparr>app := (app d)\<lparr>stats_errors := stats_errors (app d) + 1,
     pending := (pending (app d))\<lparr>pb_active := False\<rparr>\<rparr>\<rparr>)"
proof (cases "pb_active (pending (app d))")
  case True
  let ?p = "pending (app d)"
  have "unat (pb_transfer_length ?p - pb_received ?p) = unat (pb_transfer_length ?p) - unat (pb_received ?p)"
    using assms(2) True by (simp add: gud_inv_def pending_ok_def Let_def unat_sub order_less_imp_le)
  then show ?thesis using True assms(1) by (simp add: gud_endpoint_data_def Let_def)
qed (simp add: gud_endpoint_data_def Let_def)

lemma endpoint_data_accepted:
  assumes "pb_active (pending (app d))" and "gud_inv (app d)" and "n \<le> length data"
    and "n \<le> unat (pb_transfer_length (pending (app d))) - unat (pb_received (pending (app d)))"
  defines "p \<equiv> pending (app d)"
  defines "buffer \<equiv> overwrite (transfer_buffer (app d)) (unat (pb_received p)) (take n data)"
  defines "q \<equiv> p\<lparr>pb_received := pb_received p + of_nat n\<rparr>"
  shows "length buffer = 65536"
    "unat (pb_received p) + n < unat (pb_transfer_length p) \<Longrightarrow>
     gud_endpoint_data ep data n d = Done (d\<lparr>app := (app d)\<lparr>transfer_buffer := buffer, pending := q\<rparr>\<rparr>)"
    "unat (pb_received p) + n = unat (pb_transfer_length p) \<Longrightarrow>
     gud_endpoint_data ep data n d = Done (d\<lparr>app := (app d)\<lparr>transfer_buffer := buffer,
       pending := q\<lparr>pb_active := False\<rparr>, framebuffer := draw_rectangle (pb_req p) buffer (framebuffer (app d)),
       framebuffer_changed := True, stats_updates := stats_updates (app d) + 1,
       stats_bytes := stats_bytes (app d) + pb_transfer_length p, stats_last_rect := pb_req p\<rparr>\<rparr>)"
proof -
  let ?a = "(app d)\<lparr>transfer_buffer := buffer, pending := q\<lparr>pb_active := False\<rparr>\<rparr>"
  have ok: "inside (pb_req p)" "gb_compression (pb_req p) = 0" "current_format (app d) = GUD_PIXEL_FORMAT_RGB565"
      "unat (pb_transfer_length p) = 2 * unat (gb_width (pb_req p)) * unat (gb_height (pb_req p))"
      "unat (pb_received p) < unat (pb_transfer_length p)" "unat (pb_transfer_length p) \<le> 65536"
      "length (transfer_buffer (app d)) = 65536"
    using assms(1,2) by (auto simp: gud_inv_def pending_ok_def Let_def p_def word_less_nat_alt)
  have room: "unat (pb_transfer_length p - pb_received p) = unat (pb_transfer_length p) - unat (pb_received p)"
    using ok(5) by (simp add: unat_sub word_le_nat_alt)
  have n: "n \<le> unat (pb_transfer_length p) - unat (pb_received p)" using assms(4) by (simp add: p_def)
  have u: "unat (of_nat (unat (pb_received p) + n) :: u32) = unat (pb_received p) + n"
    using n ok(5,6) by (intro unat_of_nat_less) simp
  have w: "write_mem (transfer_buffer (app d)) (unat (pb_received p)) (take n data) = Done buffer"
    using assms(3) n ok(5-7) by (simp add: buffer_def)
  show len: "length buffer = 65536" using assms(3) n ok(5-7) by (simp add: buffer_def)
  have q: "p\<lparr>pb_received := pb_received p + of_nat n\<rparr> = q" by (simp add: q_def)
  have r: "pb_received q < pb_transfer_length q \<longleftrightarrow> unat (pb_received p) + n < unat (pb_transfer_length p)"
    using u by (simp add: q_def word_less_nat_alt)
  note eq = gud_endpoint_data_def [of ep data n d, unfolded Let_def, folded p_def, unfolded room q]
  show "gud_endpoint_data ep data n d = Done (d\<lparr>app := (app d)\<lparr>transfer_buffer := buffer, pending := q\<rparr>\<rparr>)"
    if "unat (pb_received p) + n < unat (pb_transfer_length p)"
    using that assms(1,3) n r w by (simp add: eq flip: p_def)
  have inv: "gud_inv ?a" using assms(2) len by (simp add: gud_inv_def)
  have "store_rectangle (pb_req p) buffer ?a =
      Done (?a\<lparr>framebuffer := draw_rectangle (pb_req p) buffer (framebuffer (app d)), framebuffer_changed := True\<rparr>)"
    using store_rectangle_draws [OF inv, of "pb_req p" buffer] ok len by simp
  moreover have "pb_req q = pb_req p" "pb_transfer_length q = pb_transfer_length p" by (simp_all add: q_def)
  ultimately show "gud_endpoint_data ep data n d = Done (d\<lparr>app := (app d)\<lparr>transfer_buffer := buffer,
       pending := q\<lparr>pb_active := False\<rparr>, framebuffer := draw_rectangle (pb_req p) buffer (framebuffer (app d)),
       framebuffer_changed := True, stats_updates := stats_updates (app d) + 1,
       stats_bytes := stats_bytes (app d) + pb_transfer_length p, stats_last_rect := pb_req p\<rparr>\<rparr>)"
    if "unat (pb_received p) + n = unat (pb_transfer_length p)"
    using that assms(1,3) n r w ok(2) by (simp add: eq flip: p_def)
qed

lemma received_of_nat:
  assumes "gud_inv a" and "pb_active (pending a)"
    and "unat (pb_received (pending a)) + n \<le> unat (pb_transfer_length (pending a))"
  shows "unat (pb_received (pending a) + of_nat n) = unat (pb_received (pending a)) + n"
proof -
  have "unat (pb_transfer_length (pending a)) \<le> 65536"
    using assms(1,2) by (auto simp only: gud_inv_def pending_ok_def Let_def)
  then have "unat (of_nat (unat (pb_received (pending a)) + n) :: u32) = unat (pb_received (pending a)) + n"
    using assms(3) by (intro unat_of_nat_less) simp
  then show ?thesis by simp
qed

lemma gud_inv_collect:
  assumes "gud_inv a" and "pb_active (pending a)" and "length buffer = 65536"
    and "unat (pb_received (pending a)) + n < unat (pb_transfer_length (pending a))"
  shows "gud_inv (a\<lparr>transfer_buffer := buffer,
     pending := (pending a)\<lparr>pb_received := pb_received (pending a) + of_nat n\<rparr>\<rparr>)"
proof -
  have "pb_received (pending a) + of_nat n < pb_transfer_length (pending a)"
    using assms(4) received_of_nat [OF assms(1,2), of n] by (simp add: word_less_nat_alt)
  with assms(1-3) show ?thesis by (auto simp: gud_inv_def pending_ok_def Let_def)
qed

lemma gud_endpoint_data_returns:
  assumes "dev_inv gud_inv d" and "n \<le> length data"
  shows "returns (dev_inv gud_inv) (gud_endpoint_data ep data n d)"
proof (cases "\<not> pb_active (pending (app d)) \<or>
    n > unat (pb_transfer_length (pending (app d))) - unat (pb_received (pending (app d)))")
  case True
  with assms(1) show ?thesis
    by (simp add: endpoint_data_dropped dev_inv_def) (simp add: gud_inv_def)
next
  case False
  let ?p = "pending (app d)"
  have inv: "wf_device d" "gud_inv (app d)" using assms(1) by (simp_all add: dev_inv_def)
  have ok: "pending_ok (app d)" using False inv(2) by (simp add: gud_inv_def)
  then have lt: "unat (pb_received ?p) < unat (pb_transfer_length ?p)" "unat (pb_transfer_length ?p) \<le> 65536"
    by (auto simp only: pending_ok_def Let_def word_less_nat_alt)
  have n: "n \<le> unat (pb_transfer_length ?p) - unat (pb_received ?p)" and act: "pb_active ?p" using False by auto
  note acc = endpoint_data_accepted [OF act inv(2) assms(2) n]
  show ?thesis
  proof (cases "unat (pb_received ?p) + n < unat (pb_transfer_length ?p)")
    case True
    from gud_inv_collect [OF inv(2) act acc(1) this]
    show ?thesis using inv(1) by (simp add: acc(2) [OF True] dev_inv_def)
  next
    case False
    then have "unat (pb_received ?p) + n = unat (pb_transfer_length ?p)" using n lt by simp
    note fin = acc(3) [OF this]
    show ?thesis unfolding fin using inv ok acc(1) by (simp add: dev_inv_def) (simp add: gud_inv_def pending_ok_def Let_def)
  qed
qed

lemma gud_reset_returns: "dev_inv gud_inv d \<Longrightarrow> returns (dev_inv gud_inv) (gud_reset d)"
  by (simp add: gud_reset_def now_ms_def split_beta Let_def dev_inv_def gud_inv_def)

interpretation gud: served_device gud_display_device gud_inv
proof
  show "wf_descriptors gud_display_device" "wf_config (config_desc gud_display_device)" by code_simp+
next
  fix d :: "gud device" and usb_setup data :: "u8 list" and n
  assume "dev_inv gud_inv d" "n \<le> length data"
  then show "returns (dev_inv gud_inv) (control_data_callback gud_display_device usb_setup data n d)"
    by (simp add: gud_display_device_def gud_control_data_returns)
next
  fix d :: "gud device" and data :: "u8 list" and n callback ep
  assume "dev_inv gud_inv d" "n \<le> length data" "ep_data_callback gud_display_device = Some callback"
  then show "returns (dev_inv gud_inv) (callback ep data n d)"
    using gud_endpoint_data_returns by (auto simp: gud_display_device_def)
next
  fix d :: "gud device" and rcallback
  assume "dev_inv gud_inv d" "reset_callback gud_display_device = Some rcallback"
  then show "returns (dev_inv gud_inv) (rcallback d)"
    using gud_reset_returns by (auto simp: gud_display_device_def)
qed (simp add: gud_display_device_def)

section \<open>Screen updates\<close>

text \<open>The host sends the chunks, each of them with one bulk transfer.\<close>

fun gud_transfers :: "u8 list list \<Rightarrow> gud device \<Rightarrow> gud device res" where
  "gud_transfers [] d = Done d"
| "gud_transfers (chunk # chunks) d =
     bind_res (gud_endpoint_data GUD_EP_DATA_OUT chunk (length chunk) d) (gud_transfers chunks)"

lemma gud_transfers_append:
  "gud_transfers (xs @ ys) d = bind_res (gud_transfers xs d) (gud_transfers ys)"
  by (induction xs arbitrary: d) (auto simp: bind_res_assoc intro!: bind_res_cong)

lemma overwrite_overwrite:
  "off + length xs + length ys \<le> length b \<Longrightarrow>
   overwrite (overwrite b off xs) (off + length xs) ys = overwrite b off (xs @ ys)"
  by (simp add: overwrite_def ac_simps)

text \<open>While less than the announced data has arrived, it only collects in the transfer buffer.\<close>

lemma gud_transfers_collect:
  "gud_inv (app d) \<Longrightarrow> pb_active (pending (app d)) \<Longrightarrow>
   unat (pb_received (pending (app d))) + length (concat chunks) < unat (pb_transfer_length (pending (app d))) \<Longrightarrow>
   gud_transfers chunks d = Done (d\<lparr>app := (app d)
     \<lparr>transfer_buffer := overwrite (transfer_buffer (app d)) (unat (pb_received (pending (app d)))) (concat chunks),
      pending := (pending (app d))\<lparr>pb_received := pb_received (pending (app d)) + of_nat (length (concat chunks))\<rparr>\<rparr>\<rparr>)"
proof (induction chunks arbitrary: d)
  case Nil
  then have "unat (pb_received (pending (app d))) \<le> length (transfer_buffer (app d))"
    by (auto simp only: gud_inv_def pending_ok_def Let_def word_less_nat_alt)
  then show ?case by simp
next
  case (Cons chunk chunks)
  let ?p = "pending (app d)" and ?n = "length chunk"
  have bound: "unat (pb_transfer_length ?p) \<le> 65536" "length (transfer_buffer (app d)) = 65536"
    using Cons.prems(1,2) by (auto simp only: gud_inv_def pending_ok_def Let_def)
  have n: "?n \<le> unat (pb_transfer_length ?p) - unat (pb_received ?p)"
    and lt: "unat (pb_received ?p) + ?n < unat (pb_transfer_length ?p)" using Cons.prems(3) by simp_all
  have u: "unat (pb_received ?p + of_nat ?n) = unat (pb_received ?p) + ?n"
    using received_of_nat [OF Cons.prems(1,2)] lt by simp
  let ?b = "overwrite (transfer_buffer (app d)) (unat (pb_received ?p)) chunk"
  let ?d = "d\<lparr>app := (app d)\<lparr>transfer_buffer := ?b, pending := ?p\<lparr>pb_received := pb_received ?p + of_nat ?n\<rparr>\<rparr>\<rparr>"
  have e: "gud_endpoint_data GUD_EP_DATA_OUT chunk ?n d = Done ?d"
    using endpoint_data_accepted(2) [OF Cons.prems(2,1) order.refl n lt] by simp
  have "length ?b = 65536" using lt bound by simp
  from gud_inv_collect [OF Cons.prems(1,2) this lt] have inv: "gud_inv (app ?d)" by simp
  have "overwrite ?b (unat (pb_received ?p) + ?n) (concat chunks) =
      overwrite (transfer_buffer (app d)) (unat (pb_received ?p)) (chunk @ concat chunks)"
    using Cons.prems(3) bound by (intro overwrite_overwrite) simp
  moreover have "gud_transfers chunks ?d = Done (?d\<lparr>app := (app ?d)
     \<lparr>transfer_buffer := overwrite (transfer_buffer (app ?d)) (unat (pb_received (pending (app ?d)))) (concat chunks),
      pending := (pending (app ?d))\<lparr>pb_received := pb_received (pending (app ?d)) + of_nat (length (concat chunks))\<rparr>\<rparr>\<rparr>)"
    by (rule Cons.IH [OF inv]) (use Cons.prems(2,3) u in simp_all)
  ultimately show ?case
    unfolding gud_transfers.simps e bind_res.simps by (simp add: u add.assoc)
qed

text \<open>Only the announced data is drawn.\<close>

lemma draw_rectangle_cong:
  assumes "inside rect" and "\<And>k. k < 2 * unat (gb_width rect) * unat (gb_height rect) \<Longrightarrow> p ! k = q ! k"
  shows "draw_rectangle rect p fb = draw_rectangle rect q fb"
proof (rule nth_equalityI)
  fix i assume "i < length (draw_rectangle rect p fb)"
  moreover have "(i div 640 - y) * (2 * w) + (i mod 640 - 2 * x) < 2 * w * h"
    if "y \<le> i div 640" "i div 640 < y + h" "2 * x \<le> i mod 640" "i mod 640 < 2 * x + 2 * w" for x y w h
  proof -
    have "i mod 640 - 2 * x < 2 * w" using that by linarith
    then have "(i div 640 - y) * (2 * w) + (i mod 640 - 2 * x) < Suc (i div 640 - y) * (2 * w)"
      by (simp only: mult_Suc add.commute [of "2 * w"] add_less_cancel_left)
    also have "\<dots> \<le> h * (2 * w)" using that by (intro mult_le_mono1) simp
    finally show ?thesis by (simp add: mult.commute mult.left_commute)
  qed
  ultimately show "draw_rectangle rect p fb ! i = draw_rectangle rect q fb ! i"
    using assms(2) by (simp add: draw_from_def Let_def)
qed simp

lemma set_buffer_request:
  assumes "gud_inv (app d)"
  shows "gud_control_data [0x41, GUD_REQ_SET_BUFFER, 0, 0, 0, 0, 25, 0] (gud_set_buffer_req_bytes req) 25 d =
     Done (d\<lparr>app :=
       if acceptable (app d) req
       then (app d)\<lparr>pending := \<lparr>pb_active = True, pb_req = req, pb_transfer_length = gb_length req, pb_received = 0\<rparr>,
         last_status := GUD_STATUS_OK\<rparr>
       else (app d)\<lparr>last_status := GUD_STATUS_INVALID_PARAMETER\<rparr>\<rparr>)"
  using set_buffer_result [OF assms, of "gud_set_buffer_req_bytes req"]
  by (simp add: gud_control_data_def Let_def set_request_def gud_set_buffer_req_of_bytes le16_def)

lemma acceptable_pending:
  "gud_inv a \<Longrightarrow> acceptable a req \<Longrightarrow>
   gud_inv (a\<lparr>pending := \<lparr>pb_active = True, pb_req = req, pb_transfer_length = gb_length req, pb_received = 0\<rparr>,
     last_status := st\<rparr>)"
  using inside_bounds [of req]
  by (auto simp: gud_inv_def pending_ok_def acceptable_def Let_def word_less_nat_alt)

text \<open>
  C28. A screen update: when the host announces an acceptable rectangle with SET_BUFFER and then sends its
  pixels, in one or more transfers of any sizes, exactly the bytes of the rectangle are replaced by the
  pixels, in their order; the update is counted and no error is.
\<close>

theorem gud_update:
  assumes "gud_inv (app d)" and "acceptable (app d) req"
    and "[] \<notin> set chunks" and "length (concat chunks) = unat (gb_length req)"
  shows "\<exists>d'. bind_res (gud_control_data [0x41, GUD_REQ_SET_BUFFER, 0, 0, 0, 0, 25, 0] (gud_set_buffer_req_bytes req) 25 d)
       (gud_transfers chunks) = Done d' \<and>
     framebuffer (app d') = draw_rectangle req (concat chunks) (framebuffer (app d)) \<and>
     framebuffer_changed (app d') \<and> \<not> pb_active (pending (app d')) \<and> last_status (app d') = GUD_STATUS_OK \<and>
     stats_updates (app d') = stats_updates (app d) + 1 \<and>
     stats_bytes (app d') = stats_bytes (app d) + gb_length req \<and>
     stats_errors (app d') = stats_errors (app d) \<and> current_format (app d') = current_format (app d)"
proof -
  let ?T = "unat (gb_length req)"
  let ?d = "d\<lparr>app := (app d)\<lparr>pending := \<lparr>pb_active = True, pb_req = req, pb_transfer_length = gb_length req, pb_received = 0\<rparr>,
      last_status := GUD_STATUS_OK\<rparr>\<rparr>"
  have inv: "gud_inv (app ?d)" using acceptable_pending [OF assms(1,2)] by simp
  have acc: "inside req" "?T = 2 * unat (gb_width req) * unat (gb_height req)" "?T \<le> 65536"
    using assms(2) unfolding acceptable_def by blast+
  have "chunks \<noteq> []" using assms(4) acc(2) inside_bounds [OF acc(1)] by auto
  then obtain cs c where chunks: "chunks = cs @ [c]" by (metis rev_exhaust)
  then have c: "length (concat cs) + length c = ?T" "c \<noteq> []" using assms(3,4) by auto
  then have lt: "length (concat cs) < ?T" by (cases c) auto
  let ?d1 = "?d\<lparr>app := (app ?d)\<lparr>transfer_buffer := overwrite (transfer_buffer (app d)) 0 (concat cs),
      pending := (pending (app ?d))\<lparr>pb_received := of_nat (length (concat cs))\<rparr>\<rparr>\<rparr>"
  have t: "gud_transfers cs ?d = Done ?d1" using gud_transfers_collect [OF inv, of cs] lt by simp
  have tb: "length (transfer_buffer (app d)) = 65536" using assms(1) by (simp add: gud_inv_def)
  have u: "unat (of_nat (length (concat cs)) :: u32) = length (concat cs)"
    using lt acc(3) by (intro unat_of_nat_less) simp
  have "length (overwrite (transfer_buffer (app d)) 0 (concat cs)) = 65536" using tb lt acc(3) by simp
  from gud_inv_collect [OF inv _ this, of "length (concat cs)"] lt have inv1: "gud_inv (app ?d1)" by simp
  have "overwrite (overwrite (transfer_buffer (app d)) 0 (concat cs)) (length (concat cs)) c =
      overwrite (transfer_buffer (app d)) 0 (concat chunks)"
    using overwrite_overwrite [of 0 "concat cs" c "transfer_buffer (app d)"] tb c acc(3) by (simp add: chunks)
  moreover have "draw_rectangle req (overwrite (transfer_buffer (app d)) 0 (concat chunks)) fb =
      draw_rectangle req (concat chunks) fb" for fb
    by (rule draw_rectangle_cong [OF acc(1)]) (use assms(4) acc(2) in \<open>simp add: overwrite_def nth_append\<close>)
  ultimately show ?thesis
    using endpoint_data_accepted(3) [of ?d1 "length c" c] inv1 u c(1)
    by (simp add: set_buffer_request [OF assms(1)] assms(2) chunks gud_transfers_append t)
qed

text \<open>
  C34. A partial or oversized update draws nothing: while less than the announced data has arrived the
  framebuffer keeps its contents, and when a transfer exceeds what was announced the update is given up,
  an error is counted and the framebuffer still keeps its contents.
\<close>

theorem gud_excess:
  assumes "gud_inv (app d)" and "acceptable (app d) req"
    and "length (concat chunks) < unat (gb_length req)" and "length (concat chunks) + length c > unat (gb_length req)"
  shows "\<exists>d1 d2. bind_res (gud_control_data [0x41, GUD_REQ_SET_BUFFER, 0, 0, 0, 0, 25, 0] (gud_set_buffer_req_bytes req) 25 d)
       (gud_transfers chunks) = Done d1 \<and>
     framebuffer (app d1) = framebuffer (app d) \<and> stats_errors (app d1) = stats_errors (app d) \<and>
     gud_transfers [c] d1 = Done d2 \<and>
     framebuffer (app d2) = framebuffer (app d) \<and> \<not> pb_active (pending (app d2)) \<and>
     stats_errors (app d2) = stats_errors (app d) + 1 \<and> stats_updates (app d2) = stats_updates (app d)"
proof -
  let ?d = "d\<lparr>app := (app d)\<lparr>pending := \<lparr>pb_active = True, pb_req = req, pb_transfer_length = gb_length req, pb_received = 0\<rparr>,
      last_status := GUD_STATUS_OK\<rparr>\<rparr>"
  let ?b = "overwrite (transfer_buffer (app d)) 0 (concat chunks)"
  let ?d1 = "?d\<lparr>app := (app ?d)\<lparr>transfer_buffer := ?b,
      pending := (pending (app ?d))\<lparr>pb_received := of_nat (length (concat chunks))\<rparr>\<rparr>\<rparr>"
  have inv: "gud_inv (app ?d)" using acceptable_pending [OF assms(1,2)] by simp
  have le: "unat (gb_length req) \<le> 65536" using assms(2) unfolding acceptable_def by blast
  have t: "gud_transfers chunks ?d = Done ?d1" using gud_transfers_collect [OF inv, of chunks] assms(3) by simp
  have "length ?b = 65536" using assms(1,3) le by (simp add: gud_inv_def)
  from gud_inv_collect [OF inv _ this, of "length (concat chunks)"] assms(3) have inv1: "gud_inv (app ?d1)" by simp
  have "unat (of_nat (length (concat chunks)) :: u32) = length (concat chunks)"
    using assms(3) le by (intro unat_of_nat_less) simp
  then have "gud_endpoint_data GUD_EP_DATA_OUT c (length c) ?d1 = Done (?d1\<lparr>app := (app ?d1)
      \<lparr>stats_errors := stats_errors (app ?d1) + 1, pending := (pending (app ?d1))\<lparr>pb_active := False\<rparr>\<rparr>\<rparr>)"
    using assms(3,4) by (intro endpoint_data_dropped [OF _ inv1]) simp
  then show ?thesis by (simp add: set_buffer_request [OF assms(1)] assms(2) t)
qed

text \<open>GET_STATUS reports the last status and leaves it.\<close>

lemma get_status_reads:
  assumes "wf_device d" and "\<not> device_stopped d"
  shows "returns (\<lambda>d'. unread d' 0 = [last_status (app d)] \<and> app d' = app d)
     (gud_control_data [0xC1, GUD_REQ_GET_STATUS, 0, 0, 0, 0, 1, 0] [] 0 d)"
proof -
  have "returns (\<lambda>(stored, d'). unread d' 0 = [last_status (app d)] \<and> app d' = app d)
      (usbip_device_transmit 0 [last_status (app d)] 1 d)"
    by (rule returns_mono [OF usbip_device_transmit_spec [OF assms(1)]])
       (use assms(2) in \<open>auto simp: take_Cons' dest: fun_cong [where x = 0]\<close>)
  then have "returns (\<lambda>d'. unread d' 0 = [last_status (app d)] \<and> app d' = app d)
      (bind_res (usbip_device_transmit 0 [last_status (app d)] 1 d) (\<lambda>(stored, d). Done d))"
    by (rule returns_bindI) auto
  then show ?thesis by (simp add: gud_control_data_def get_request_def Let_def le16_def)
qed


section \<open>Modes and the connector\<close>

lemma check_properties_bytes:
  "check_properties (pre @ concat (map gud_property_req_bytes ps))
     (length pre + length (concat (map gud_property_req_bytes ps))) (length pre) =
   Done (list_all (\<lambda>p. gp_prop p = GUD_PROPERTY_ROTATION \<longrightarrow> gp_val p = GUD_ROTATION_0) ps)"
proof (induction ps arbitrary: pre)
  case (Cons p ps)
  let ?rest = "concat (map gud_property_req_bytes ps)"
  have "gud_property_req_of (gud_property_req_bytes p) = p" using gud_property_req_of_bytes [of p "[]"] by simp
  moreover have "read_mem (pre @ gud_property_req_bytes p @ ?rest) (length pre) 10 = Done (gud_property_req_bytes p)"
    by (simp add: read_mem_def segment_def)
  moreover from Cons.IH [of "pre @ gud_property_req_bytes p"]
  have "check_properties (pre @ gud_property_req_bytes p @ ?rest) (length pre + (10 + length ?rest)) (length pre + 10) =
      Done (list_all (\<lambda>p. gp_prop p = GUD_PROPERTY_ROTATION \<longrightarrow> gp_val p = GUD_ROTATION_0) ps)"
    by (simp add: ac_simps)
  ultimately show ?case by (subst check_properties.simps) (simp add: Let_def)
qed (subst check_properties.simps, simp)

definition valid_state :: "gud_state_req_t \<Rightarrow> gud_property_req_t list \<Rightarrow> bool" where
  "valid_state st ps \<longleftrightarrow>
     gm_hdisplay (gs_mode st) = 320 \<and> gm_vdisplay (gs_mode st) = 240 \<and>
     gs_format st = GUD_PIXEL_FORMAT_RGB565 \<and> gs_connector st = 0 \<and>
     list_all (\<lambda>p. gp_prop p = GUD_PROPERTY_ROTATION \<longrightarrow> gp_val p = GUD_ROTATION_0) ps"

lemma length_properties: "length (concat (map gud_property_req_bytes ps)) = 10 * length ps"
  by (induction ps) auto

lemma set_state_check_bytes:
  fixes st ps
  defines "data \<equiv> gud_state_req_bytes st @ concat (map gud_property_req_bytes ps)"
  shows "set_state_check data (length data) a =
     Done (if valid_state st ps then (GUD_STATUS_OK, a\<lparr>checked_state := st, state_checked := True\<rparr>)
           else (GUD_STATUS_INVALID_PARAMETER, a))"
proof -
  have "gud_state_req_of (gud_state_req_bytes st) = st" using gud_state_req_of_bytes [of st "[]"] by simp
  then show ?thesis
    using check_properties_bytes [of "gud_state_req_bytes st" ps]
    by (simp add: data_def set_state_check_def length_properties valid_state_def is_offered_format_iff Let_def)
qed

text \<open>
  C36. Setting the mode: the host's state, followed by any properties, is taken over by CHECK and COMMIT if it
  is the only mode and format of the display, for connector 0, and asks for no rotation; the status is
  then OK. Otherwise CHECK refuses it, and a COMMIT with nothing checked is a protocol error that
  leaves the display as it was.
\<close>

theorem gud_mode:
  assumes "\<not> state_checked a"
    and "data = gud_state_req_bytes st @ concat (map gud_property_req_bytes ps)"
  shows "bind_res (set_request GUD_REQ_SET_STATE_CHECK data (length data) a) (set_request GUD_REQ_SET_STATE_COMMIT [] 0) =
     Done (if valid_state st ps
           then a\<lparr>checked_state := st, state_checked := False, current_format := GUD_PIXEL_FORMAT_RGB565,
                 last_status := GUD_STATUS_OK\<rparr>
           else a\<lparr>last_status := GUD_STATUS_PROTOCOL_ERROR\<rparr>)"
  using assms(1) set_state_check_bytes [of st ps a]
  by (simp add: set_request_def assms(2) set_state_commit_def Let_def) (simp add: valid_state_def)

definition clock_ms :: "gud \<Rightarrow> nat \<Rightarrow> u64" where
  "clock_ms a i = (let (tv_sec, tv_nsec) = gud_clock a i in tv_sec * 1000 + tv_nsec div 1000000)"

text \<open>
  The connector: a status request after a reset answers that the connector is connected exactly if at
  least 5000 ms have passed since the reset.
\<close>

theorem gud_connector:
  assumes "dev_inv gud_inv d" and "\<not> device_stopped d"
  shows "returns (\<lambda>d'. unread d' 0 =
       [if 5000 \<le> clock_ms (app d) (gud_ticks (app d) + 1) - clock_ms (app d) (gud_ticks (app d))
        then GUD_CONNECTOR_STATUS_CONNECTED else GUD_CONNECTOR_STATUS_DISCONNECTED])
     (bind_res (gud_reset d) (gud_control_data [0xC1, GUD_REQ_GET_CONNECTOR_STATUS, 0, 0, 0, 0, 1, 0] [] 0))"
proof -
  have "returns (dev_inv gud_inv) (gud_reset d)" by (rule gud_reset_returns [OF assms(1)])
  then obtain d1 where d1: "gud_reset d = Done d1" "dev_inv gud_inv d1" by (auto simp: returns_iff)
  have f: "device_stopped d1 = device_stopped d" "gud_ticks (app d1) = gud_ticks (app d) + 1"
      "gud_clock (app d1) = gud_clock (app d)" "attached_ms (app d1) = clock_ms (app d) (gud_ticks (app d))"
    using d1(1) by (auto simp: gud_reset_def now_ms_def Let_def split_beta clock_ms_def)
  let ?d = "d1\<lparr>app := (app d1)\<lparr>gud_ticks := gud_ticks (app d1) + 1\<rparr>\<rparr>"
  let ?st = "if 5000 \<le> clock_ms (app d) (gud_ticks (app d) + 1) - clock_ms (app d) (gud_ticks (app d))
        then GUD_CONNECTOR_STATUS_CONNECTED else GUD_CONNECTOR_STATUS_DISCONNECTED"
  have "dev_inv gud_inv ?d" using d1(2) by (simp add: dev_inv_def)
  then have "returns (\<lambda>d'. unread d' 0 = [?st]) (answer [?st] 1 ?d)"
    by (rule returns_mono [OF answer_returns]) (use assms(2) f(1) in \<open>auto simp: take_Cons'\<close>)
  moreover have "gud_control_data [0xC1, GUD_REQ_GET_CONNECTOR_STATUS, 0, 0, 0, 0, 1, 0] [] 0 d1 = answer [?st] 1 ?d"
    using f by (simp add: gud_control_data_def get_request_def get_connector_request_def now_ms_def Let_def
        split_beta le16_def clock_ms_def)
  ultimately show ?thesis by (simp add: d1(1))
qed

end
