(* ===== verification/Gud_Window.thy ===== *)
theory Gud_Window
  imports Usb_Gud
begin

text \<open>
  The window of the display example: the conversion of the framebuffer, and the main loop running between
  the callbacks of the device. \<open>gud_step\<close> is one step of either; the main loop copies the framebuffer in
  the critical section, so its rounds and the callbacks exclude each other there.
\<close>

section \<open>Colours\<close>

lemma unat_widen:
  assumes "unat v < 64" and "bits = 5 \<or> bits = 6"
  shows "unat (widen v bits) = unat v * 255 div (2 ^ bits - 1)"
proof -
  have "unat (v * 255) = unat v * 255" using assms(1) by (subst unat_mult_lem [THEN iffD1]) auto
  then show ?thesis using assms(2) by (auto simp: widen_def unat_div push_bit_eq_mult)
qed

lemma widen_exact:
  fixes n :: nat
  shows "n < 32 \<Longrightarrow> n * 255 div 31 < 256 \<and> n * 255 div 31 div 8 = n"
    and "n < 64 \<Longrightarrow> n * 255 div 63 < 256 \<and> n * 255 div 63 div 4 = n"
proof -
  have "n * 255 div 31 = 8 * n + 7 * n div 31" using div_mult_self1 [of 31 "7 * n" "8 * n"] by simp
  moreover have "7 * n div 31 \<le> 7" if "n < 32" using that div_le_mono [of "7 * n" 217 31] by simp
  ultimately show "n < 32 \<Longrightarrow> n * 255 div 31 < 256 \<and> n * 255 div 31 div 8 = n" by simp
  have "n * 255 div 63 = 4 * n + 3 * n div 63" using div_mult_self1 [of 63 "3 * n" "4 * n"] by simp
  moreover have "3 * n div 63 \<le> 3" if "n < 64" using that div_le_mono [of "3 * n" 189 63] by simp
  ultimately show "n < 64 \<Longrightarrow> n * 255 div 63 < 256 \<and> n * 255 div 63 div 4 = n" by simp
qed

lemma widen_channel:
  "unat v < 32 \<Longrightarrow> widen v 5 < 256 \<and> drop_bit 3 (widen v 5) = v"
  "unat v < 64 \<Longrightarrow> widen v 6 < 256 \<and> drop_bit 2 (widen v 6) = v"
  using widen_exact [of "unat v"] unat_widen [of v 5] unat_widen [of v 6]
  by (auto simp: word_less_nat_alt word_unat_eq_iff unsigned_drop_bit_eq drop_bit_eq_div unat_div)

lemma unat_and_mask_less_exp: "unat (x AND mask n :: u32) < 2 ^ n"
  unfolding take_bit_eq_mask [symmetric] unsigned_take_bit_eq by (rule take_bit_nat_less_exp)

lemma rgb565_split:
  "push_bit 11 (drop_bit 11 p) OR push_bit 5 (drop_bit 5 p AND mask 6) OR p AND mask 5 = (p :: u32)" (is "?l = p")
proof (rule bit_word_eqI)
  fix n assume n: "n < LENGTH(32)"
  consider "n < 5" | "5 \<le> n \<and> n < 11" | "11 \<le> n" by linarith
  then show "bit ?l n = bit p n" by cases (use n in \<open>auto simp: bit_simps less_diff_conv2\<close>)
qed

text \<open>
  The colours of a pixel survive the conversion for the window: each channel has 8 bits, and its
  5 or 6 most significant bits are the channel of the RGB565 pixel, so that the pixel can be recovered.
\<close>

theorem rgb565_recovered:
  "\<exists>r g b. pixel_channels [lo, hi] GUD_PIXEL_FORMAT_RGB565 0 = Done (r, g, b) \<and>
     r < 256 \<and> g < 256 \<and> b < 256 \<and>
     push_bit 11 (drop_bit 3 r) OR push_bit 5 (drop_bit 2 g) OR drop_bit 3 b = ucast lo OR push_bit 8 (ucast hi)"
proof -
  let ?p = "ucast lo OR push_bit 8 (ucast hi) :: u32"
  have m: "0x3f = (mask 6 :: u32)" "0x1f = (mask 5 :: u32)" by (simp_all add: mask_eq_exp_minus_1)
  have "drop_bit 11 ?p = drop_bit 11 ?p AND mask 5"
    by (rule bit_word_eqI) (auto simp: bit_simps dest: bit_imp_le_length)
  then have "unat (drop_bit 11 ?p) < 2 ^ 5" using unat_and_mask_less_exp by metis
  moreover have "unat (drop_bit 5 ?p AND 0x3f) < 2 ^ 6" "unat (?p AND 0x1f) < 2 ^ 5"
    unfolding m by (rule unat_and_mask_less_exp)+
  ultimately have b: "unat (drop_bit 11 ?p) < 32" "unat (drop_bit 5 ?p AND 0x3f) < 64" "unat (?p AND 0x1f) < 32"
    by simp_all
  have "push_bit 11 (drop_bit 11 ?p) OR push_bit 5 (drop_bit 5 ?p AND 0x3f) OR ?p AND 0x1f = ?p"
    unfolding m by (rule rgb565_split)
  then have split: "push_bit 11 (drop_bit 3 (widen (drop_bit 11 ?p) 5)) OR push_bit 5 (drop_bit 2 (widen (drop_bit 5 ?p AND 0x3f) 6)) OR
      drop_bit 3 (widen (?p AND 0x1f) 5) = ?p"
    by (simp only: widen_channel(1) [OF b(1)] widen_channel(2) [OF b(2)] widen_channel(1) [OF b(3)])
  have "pixel_channels [lo, hi] GUD_PIXEL_FORMAT_RGB565 0 =
      Done (widen (drop_bit 11 ?p) 5, widen (drop_bit 5 ?p AND 0x3f) 6, widen (?p AND 0x1f) 5)"
    by (simp add: pixel_channels_def Let_def)
  with split widen_channel(1) [OF b(1)] widen_channel(2) [OF b(2)] widen_channel(1) [OF b(3)]
  show ?thesis by blast
qed

section \<open>The conversion of a frame\<close>

definition rgb565_pixel :: "u8 list \<Rightarrow> nat \<Rightarrow> u32" where
  "rgb565_pixel fb idx =
     (let pixel = ucast (fb ! (2 * idx)) OR push_bit 8 (ucast (fb ! (2 * idx + 1))) in
      push_bit 16 (widen (drop_bit 11 pixel) 5) OR push_bit 8 (widen (drop_bit 5 pixel AND 0x3f) 6) OR
      widen (pixel AND 0x1f) 5)"

lemma xrgb8888_loop_rgb565:
  "\<forall>idx\<in>set idxs. 2 * idx + 1 < length fb \<Longrightarrow>
   xrgb8888_loop fb GUD_PIXEL_FORMAT_RGB565 idxs = Done (map (rgb565_pixel fb) idxs)"
  by (induction idxs) (simp_all add: pixel_channels_def rgb565_pixel_def Let_def)

lemma xrgb8888_loop_none: "xrgb8888_loop fb 0 idxs = Done (map (\<lambda>_. 0) idxs)"
  by (induction idxs) (simp_all add: pixel_channels_def)

definition display_pixels :: "u8 list \<Rightarrow> u32 list" where
  "display_pixels fb = map (rgb565_pixel fb) [0..<320 * 240]"

lemma rgb565_pixel_black: "2 * idx + 1 < n \<Longrightarrow> rgb565_pixel (replicate n 0) idx = 0"
  by (simp add: rgb565_pixel_def widen_def)

text \<open>Before a format is committed the framebuffer is black, in which case the format makes no difference.\<close>

lemma framebuffer_to_xrgb8888_pixels:
  assumes "gud_inv a"
  shows "framebuffer_to_xrgb8888 (framebuffer a) (current_format a) = Done (display_pixels (framebuffer a))"
proof (cases "current_format a = GUD_PIXEL_FORMAT_RGB565")
  case True
  have "\<forall>idx\<in>set [0..<320 * 240]. 2 * idx + 1 < length (framebuffer a)"
    using assms unfolding set_upt by (simp add: gud_inv_def)
  then show ?thesis unfolding framebuffer_to_xrgb8888_def display_pixels_def True by (rule xrgb8888_loop_rgb565)
next
  case False
  then have z: "current_format a = 0" "framebuffer a = replicate 307200 0" using assms by (auto simp: gud_inv_def)
  have "map (\<lambda>_. 0) [0..<320 * 240] = display_pixels (framebuffer a)"
    unfolding z(2) display_pixels_def by (rule map_cong [OF refl], unfold set_upt) (simp add: rgb565_pixel_black)
  then show ?thesis unfolding framebuffer_to_xrgb8888_def z(1) xrgb8888_loop_none by simp
qed

section \<open>The main loop between the callbacks\<close>

inductive gud_step :: "gud_main \<times> gud device \<Rightarrow> gud_main \<times> gud device \<Rightarrow> bool" where
  control: "gud_control_data usb_setup data n d = Done d' \<Longrightarrow> n \<le> length data \<Longrightarrow> gud_step (m, d) (m, d')"
| pixels: "gud_endpoint_data ep data n d = Done d' \<Longrightarrow> n \<le> length data \<Longrightarrow> gud_step (m, d) (m, d')"
| reset: "gud_reset d = Done d' \<Longrightarrow> gud_step (m, d) (m, d')"
| round: "gud_round m (app d) = Done (m', a) \<Longrightarrow> gud_step (m, d) (m', d\<lparr>app := a\<rparr>)"

inductive gud_reachable :: "(nat \<Rightarrow> u64 \<times> u64) \<Rightarrow> sdl_results \<Rightarrow> gud_main \<times> gud device \<Rightarrow> bool" for c results where
  start: "gud_display_window_open results 320 240 init_window = (opened, w) \<Longrightarrow>
    gud_reachable c results (init_gud_main opened w now, init_device (init_gud c))"
| step: "gud_reachable c results s \<Longrightarrow> gud_step s s' \<Longrightarrow> gud_reachable c results s'"

text \<open>What \<open>main\<close> knows about its window.\<close>

definition window_held :: "gud_main \<Rightarrow> bool" where
  "window_held m \<longleftrightarrow>
     (if window_open m then window_opened 320 240 (display_window m) else window_closed (display_window m))"

definition gud_view :: "gud_main \<times> gud device \<Rightarrow> bool" where
  "gud_view s \<longleftrightarrow>
     (case s of (m, d) \<Rightarrow> dev_inv gud_inv d \<and>
        (\<not> framebuffer_changed (app d) \<longrightarrow> frame m = framebuffer (app d)) \<and>
        window_image m = (if shown_on m then Some (display_pixels (frame m)) else None) \<and>
        (\<not> window_open m \<longrightarrow> \<not> shown_on m) \<and> window_held m)"

text \<open>A callback that changes the framebuffer says so.\<close>

definition marked :: "gud \<Rightarrow> gud \<Rightarrow> bool" where
  "marked a a' \<longleftrightarrow> (\<not> framebuffer_changed a' \<longrightarrow> \<not> framebuffer_changed a \<and> framebuffer a' = framebuffer a)"

lemma marked_refl [simp]: "marked a a"
  by (simp add: marked_def)

lemma transmit_app:
  assumes "wf_device d" and "cut_length n \<le> length data"
  shows "returns (\<lambda>d'. app d' = app d) (bind_res (usbip_device_transmit ep data n d) (\<lambda>(stored, d). Done d))"
  by (rule returns_bindI [OF usbip_device_transmit_spec [OF assms]]) auto

lemma set_request_same:
  assumes "set_request bRequest data n a = Done a'"
  shows "framebuffer a' = framebuffer a \<and> framebuffer_changed a' = framebuffer_changed a"
proof -
  have "set_buffer data n a = Done (st, a1) \<Longrightarrow>
      framebuffer a1 = framebuffer a \<and> framebuffer_changed a1 = framebuffer_changed a"
    and "set_state_check data n a = Done (st, a1) \<Longrightarrow>
      framebuffer a1 = framebuffer a \<and> framebuffer_changed a1 = framebuffer_changed a"
    and "set_state_commit a = (st, a1) \<Longrightarrow>
      framebuffer a1 = framebuffer a \<and> framebuffer_changed a1 = framebuffer_changed a" for st a1
    by (auto simp: set_buffer_def set_state_check_def set_state_commit_def Let_def bind_res_Done_iff split: if_splits)
  then show ?thesis using assms
    by (auto simp: set_request_def bind_res_Done_iff Let_def split: if_splits prod.splits)
qed

lemma answer_same:
  assumes "dev_inv gud_inv d" and "n \<le> length data" and "answer data n d = Done d'"
  shows "framebuffer (app d') = framebuffer (app d) \<and> framebuffer_changed (app d') = framebuffer_changed (app d)"
  using answer_returns [OF assms(1,2)] by (simp add: assms(3))

lemma get_request_same:
  assumes "dev_inv gud_inv d" and "get_request bRequest wValue d = Done d'"
  shows "framebuffer (app d') = framebuffer (app d) \<and> framebuffer_changed (app d') = framebuffer_changed (app d)"
proof -
  have t: "app d1 = app d" if "bind_res (usbip_device_transmit 0 [last_status (app d)] 1 d) (\<lambda>(stored, d). Done d) = Done d1" for d1
    using transmit_app [of d 1 "[last_status (app d)]" 0] assms(1) that by (simp add: dev_inv_def)
  have "dev_inv gud_inv (d\<lparr>app := snd (now_ms (app d))\<rparr>)" "framebuffer (snd (now_ms (app d))) = framebuffer (app d)"
      "framebuffer_changed (snd (now_ms (app d))) = framebuffer_changed (app d)"
    using assms(1) by (simp_all add: now_ms_def split_beta dev_inv_def Let_def)
  note now = answer_same [OF this(1)] this(2,3)
  have "framebuffer (app d1) = framebuffer (app d) \<and> framebuffer_changed (app d1) = framebuffer_changed (app d)"
    if "get_connector_request bRequest wValue d = Done d1" for d1
    using that unfolding get_connector_request_def Let_def split_beta
    by (auto simp: set_status_def now(2,3) split: if_splits dest: answer_same [OF assms(1), rotated] now(1) [rotated])
  then show ?thesis
    using assms(2) unfolding get_request_def
    by (auto split: if_splits dest: answer_same [OF assms(1), rotated] t [simplified])
qed

lemma gud_control_data_marked:
  assumes "dev_inv gud_inv d" and "gud_control_data usb_setup data n d = Done d'"
  shows "marked (app d) (app d')"
  using assms get_request_same [OF assms(1), of "usb_setup ! 1" _ d'] set_request_same [of "usb_setup ! 1" data n "app d"]
  by (auto simp: gud_control_data_def marked_def Let_def set_status_def bind_res_Done_iff split: if_splits)

lemma gud_endpoint_data_marked:
  assumes "gud_inv (app d)" and "n \<le> length data" and "gud_endpoint_data ep data n d = Done d'"
  shows "marked (app d) (app d')"
proof -
  let ?p = "pending (app d)"
  consider (drop) "\<not> pb_active ?p \<or> n > unat (pb_transfer_length ?p) - unat (pb_received ?p)"
    | (some) "pb_active ?p" "n \<le> unat (pb_transfer_length ?p) - unat (pb_received ?p)"
        "unat (pb_received ?p) + n < unat (pb_transfer_length ?p)"
    | (all) "pb_active ?p" "n \<le> unat (pb_transfer_length ?p) - unat (pb_received ?p)"
        "unat (pb_received ?p) + n \<ge> unat (pb_transfer_length ?p)" by linarith
  then show ?thesis
  proof cases
    case drop
    then show ?thesis using endpoint_data_dropped [OF drop assms(1), of ep data] assms(3) by (auto simp: marked_def)
  next
    case some
    then show ?thesis using endpoint_data_accepted(2) [OF some(1) assms(1,2) some(2,3), of ep] assms(3)
      by (auto simp: marked_def)
  next
    case all
    have "unat (pb_received ?p) < unat (pb_transfer_length ?p)"
      using all(1) assms(1) by (auto simp only: gud_inv_def pending_ok_def Let_def word_less_nat_alt)
    then have "unat (pb_received ?p) + n = unat (pb_transfer_length ?p)" using all by simp
    then show ?thesis using endpoint_data_accepted(3) [OF all(1) assms(1,2) all(2), of ep] assms(3)
      by (auto simp: marked_def)
  qed
qed

lemma gud_reset_marked: "gud_reset d = Done d' \<Longrightarrow> marked (app d) (app d')"
  by (auto simp: gud_reset_def marked_def Let_def split_beta)

lemma gud_round_result:
  assumes "gud_view (m, d)" and "a = app d" and "on \<longleftrightarrow> controller_enabled a \<and> display_enabled a"
  shows "\<exists>m' a'. gud_round m a = Done (m', a') \<and> window_open m' = window_open m \<and>
     gud_view (m', d\<lparr>app := a'\<rparr>) \<and> framebuffer a' = framebuffer a \<and> current_format a' = current_format a \<and>
     controller_enabled a' = controller_enabled a \<and> display_enabled a' = display_enabled a \<and>
     (window_open m \<longrightarrow> window_image m' = (if on then Some (display_pixels (framebuffer a)) else None))"
proof -
  have inv: "wf_device d" "gud_inv a" using assms(1,2) by (simp_all add: gud_view_def dev_inv_def)
  note conv = framebuffer_to_xrgb8888_pixels [OF inv(2)]
  have fr: "\<not> framebuffer_changed a \<Longrightarrow> frame m = framebuffer a" using assms(1,2) by (simp add: gud_view_def)
  have shown: "window_opened 320 240 (gud_display_window_show (Some (display_pixels fb)) on w)"
      "presented (gud_display_window_show (Some (display_pixels fb)) on w) = (if on then Some (display_pixels fb) else None)"
    if "window_opened 320 240 w" for fb on w
    using window_show_opened [OF that] by (simp_all add: display_pixels_def)
  show ?thesis
    using assms(1) fr inv conv
    by (cases "framebuffer_changed a"; cases "window_open m")
       (auto simp: gud_round_def now_ms_def Let_def split_beta gud_view_def window_held_def dev_inv_def shown assms(3))
qed

lemma gud_step_view:
  assumes "gud_step s s'" and "gud_view s"
  shows "gud_view s'"
  using assms
proof (induction rule: gud_step.induct)
  case (control usb_setup data n d d' m)
  have d: "dev_inv gud_inv d" using control.prems by (simp add: gud_view_def)
  have "dev_inv gud_inv d'" using gud_control_data_returns [OF d control.hyps(2), of usb_setup] control.hyps(1) by simp
  with gud_control_data_marked [OF d control.hyps(1)] control.prems show ?case by (auto simp: gud_view_def marked_def)
next
  case (pixels ep data n d d' m)
  have d: "dev_inv gud_inv d" using pixels.prems by (simp add: gud_view_def)
  have "dev_inv gud_inv d'" using gud_endpoint_data_returns [OF d pixels.hyps(2), of ep] pixels.hyps(1) by simp
  moreover have "gud_inv (app d)" using d by (simp add: dev_inv_def)
  ultimately show ?case
    using gud_endpoint_data_marked [OF _ pixels.hyps(2,1)] pixels.prems by (auto simp: gud_view_def marked_def)
next
  case (reset d d' m)
  have d: "dev_inv gud_inv d" using reset.prems by (simp add: gud_view_def)
  have "dev_inv gud_inv d'" using gud_reset_returns [OF d] reset.hyps by simp
  with gud_reset_marked [OF reset.hyps] reset.prems show ?case by (auto simp: gud_view_def marked_def)
next
  case (round m d m' a)
  then show ?case using gud_round_result [OF round.prems refl refl] by auto
qed

lemma gud_view_start:
  assumes "gud_display_window_open results 320 240 init_window = (opened, w)"
  shows "gud_view (init_gud_main opened w now, init_device (init_gud c))"
proof -
  have "dev_inv gud_inv (init_device (init_gud c))" using gud_inv_init by (simp add: dev_inv_def)
  moreover have "presented w = None" "window_held (init_gud_main opened w now)"
    using window_open_result [OF window_closed_init assms]
    by (auto simp: window_held_def init_gud_main_def window_closed_def split: if_splits)
  ultimately show ?thesis by (simp add: gud_view_def init_gud_main_def) (simp add: init_gud_def)
qed

lemma gud_reachable_view: "gud_reachable c results s \<Longrightarrow> gud_view s"
  by (induction rule: gud_reachable.induct) (use gud_view_start gud_step_view in blast)+

text \<open>
  C29. The window never shows an old picture: however the rounds of the main loop and the callbacks of the
  device alternate, a round always completes, and after it the window shows the framebuffer as it is,
  converted, if controller and display are enabled, and is black otherwise.
\<close>

theorem gud_window_current:
  assumes "gud_reachable c results (m, d)" and "window_open m"
  shows "\<exists>m' a pixels. gud_round m (app d) = Done (m', a) \<and>
     framebuffer_to_xrgb8888 (framebuffer (app d)) (current_format (app d)) = Done pixels \<and>
     framebuffer a = framebuffer (app d) \<and>
     window_image m' = (if controller_enabled (app d) \<and> display_enabled (app d) then Some pixels else None)"
proof -
  have view: "gud_view (m, d)" by (rule gud_reachable_view [OF assms(1)])
  then have "gud_inv (app d)" by (simp add: gud_view_def dev_inv_def)
  from framebuffer_to_xrgb8888_pixels [OF this] gud_round_result [OF view(1) refl refl] assms(2)
  show ?thesis by blast
qed

theorem gud_window_current_witness:
  "\<exists>w m' a pixels. gud_round (init_gud_main True w 0) (init_gud (\<lambda>_. (7, 0))) = Done (m', a) \<and>
     framebuffer_to_xrgb8888 (framebuffer (init_gud (\<lambda>_. (7, 0)))) 0 = Done pixels \<and> window_image m' = None"
proof -
  let ?r = "\<lparr>sdl_init = True, sdl_create_window = Some 1, sdl_create_renderer = Some 2, sdl_create_texture = Some 3\<rparr>"
  obtain opened w where w: "gud_display_window_open ?r 320 240 init_window = (opened, w)" by fastforce
  then have opened using window_open_result [OF window_closed_init w] by simp
  then have r: "gud_reachable (\<lambda>_. (7, 0)) ?r (init_gud_main True w 0, init_device (init_gud (\<lambda>_. (7, 0))))"
    using gud_reachable.start [OF w] by simp
  have s: "current_format (init_gud (\<lambda>_. (7, 0))) = 0" "controller_enabled (init_gud (\<lambda>_. (7, 0))) = False"
    "window_open (init_gud_main True w 0)"
    by (simp_all add: init_gud_def init_gud_main_def)
  from gud_window_current [OF r s(3)] show ?thesis unfolding init_device_simps s by auto
qed

section \<open>Witnesses\<close>

text \<open>The display with the format committed, and an update of two pixels.\<close>

definition lit_gud :: gud where
  "lit_gud = (init_gud (\<lambda>i. (of_nat i * 6, 0)))\<lparr>current_format := GUD_PIXEL_FORMAT_RGB565\<rparr>"

definition two_pixels :: gud_set_buffer_req_t where
  "two_pixels = \<lparr>gb_x = 10, gb_y = 20, gb_width = 2, gb_height = 1, gb_length = 4, gb_compression = 0,
     gb_compressed_length = 0\<rparr>"

lemma gud_inv_lit: "gud_inv lit_gud"
  by (simp add: lit_gud_def init_gud_def gud_inv_def)

lemma acceptable_two_pixels: "acceptable lit_gud two_pixels"
  by (simp add: acceptable_def two_pixels_def lit_gud_def inside_def)

lemma lit_gud_simps [simp]:
  "framebuffer lit_gud = replicate 307200 0" "stats_errors lit_gud = 0" "stats_updates lit_gud = 0"
  "state_checked lit_gud = False" "gud_ticks lit_gud = 0" "gb_length two_pixels = 4"
  by (simp_all add: lit_gud_def init_gud_def two_pixels_def)

theorem gud_update_witness:
  "\<exists>d'. bind_res (gud_control_data [0x41, 0x60, 0, 0, 0, 0, 25, 0] (gud_set_buffer_req_bytes two_pixels) 25
         (init_device lit_gud)) (gud_transfers [[1, 2, 3], [4]]) = Done d' \<and>
     framebuffer (app d') = draw_rectangle two_pixels [1, 2, 3, 4] (replicate 307200 0) \<and>
     stats_updates (app d') = 1"
  using gud_update [of "init_device lit_gud" two_pixels "[[1, 2, 3], [4]]"] gud_inv_lit acceptable_two_pixels
  by auto

theorem gud_excess_witness:
  "\<exists>d1 d2. bind_res (gud_control_data [0x41, 0x60, 0, 0, 0, 0, 25, 0] (gud_set_buffer_req_bytes two_pixels) 25
         (init_device lit_gud)) (gud_transfers [[1, 2, 3]]) = Done d1 \<and>
     gud_transfers [[4, 5]] d1 = Done d2 \<and> framebuffer (app d2) = replicate 307200 0 \<and> stats_errors (app d2) = 1"
  using gud_excess [of "init_device lit_gud" two_pixels "[[1, 2, 3]]" "[4, 5]"] gud_inv_lit acceptable_two_pixels
  by auto


theorem gud_mode_witness:
  "valid_state \<lparr>gs_mode = display_mode, gs_format = 0x40, gs_connector = 0\<rparr> [\<lparr>gp_prop = 50, gp_val = 1\<rparr>] \<and>
   (\<exists>a. bind_res (set_request 0x61 (gud_state_req_bytes \<lparr>gs_mode = display_mode, gs_format = 0x40, gs_connector = 0\<rparr> @
         gud_property_req_bytes \<lparr>gp_prop = 50, gp_val = 1\<rparr>) 36 lit_gud) (set_request 0x62 [] 0) = Done a \<and>
      current_format a = 0x40 \<and> last_status a = 0)"
  using gud_mode [of lit_gud _ "\<lparr>gs_mode = display_mode, gs_format = 0x40, gs_connector = 0\<rparr>" "[\<lparr>gp_prop = 50, gp_val = 1\<rparr>]"]
  by (simp add: valid_state_def display_mode_def)

theorem gud_connector_witness:
  "returns (\<lambda>d'. unread d' 0 = [1])
     (bind_res (gud_reset (init_device lit_gud)) (gud_control_data [0xC1, 0x54, 0, 0, 0, 0, 1, 0] [] 0))"
proof -
  have "clock_ms lit_gud 1 - clock_ms lit_gud 0 = 6000"
    by (simp add: clock_ms_def lit_gud_def init_gud_def)
  then show ?thesis
    using gud_connector [of "init_device lit_gud"] gud_inv_lit by (simp add: dev_inv_def)
qed

end
