(* ===== verification/Mains.thy ===== *)
theory Mains
  imports Programs Usb_Bulk Usb_Cdc Usb_Mouse Usb_Keyboard Usb_Audio Gud_Window
begin

text \<open>
  The \<open>main\<close> functions of the six programs. The position of the main thread between two steps is a value of
  the program's datatype, together with the local variables; a step ends where another thread may see what
  it did: at the end of a critical section, at a call of \<open>usbip_device_transmit\<close> and at a test of
  \<open>usbip_server_interrupted\<close>. Printing and sleeping are left out. Each loop is shown to keep to the contract
  \<open>main_program\<close>.
\<close>

section \<open>The bulk device\<close>

datatype bulk_pc = Bulk_head | Bulk_reply sending

fun bulk_main :: "(bulk_pc, bulk) body" where
  "bulk_main interrupted Bulk_head d =
     (if interrupted then Done (Leave Bulk_head, d)
      else bind_res (bulk_take_input (app d)) (\<lambda>(printed, reply, a).
        Done (Stay (if reply then Bulk_reply (Sending 1 (bulk_answer (bk_msg_counter a)) None) else Bulk_head),
              d\<lparr>app := a\<rparr>)))"
| "bulk_main interrupted (Bulk_reply c) d = send_step Bulk_reply Bulk_head c d"

definition bulk_countable :: "bulk \<Rightarrow> bool" where
  "bulk_countable a \<longleftrightarrow> bk_msg_counter a < 2147483647"

lemma bulk_take_input_inv: "bulk_inv a \<Longrightarrow> bulk_take_input a = Done (printed, reply, a') \<Longrightarrow> bulk_inv a'"
  by (auto simp: bulk_take_input_def bulk_inv_def bind_res_Done_iff split: if_splits)

lemma bulk_take_input_returns: "bulk_inv a \<Longrightarrow> bulk_countable a \<Longrightarrow> returns (\<lambda>_. True) (bulk_take_input a)"
  by (auto simp: bulk_take_input_def bulk_inv_def bulk_countable_def read_mem_def)

fun bulk_left :: "bulk_pc \<Rightarrow> nat" where
  "bulk_left Bulk_head = 0"
| "bulk_left (Bulk_reply c) = 1"

interpretation bulk_program: main_program bulk_device bulk_inv bulk_main "\<lambda>_. True" "\<lambda>_. True" bulk_countable bulk_left
proof
  fix m d r d' interrupted
  assume "dev_inv bulk_inv d" "bulk_main interrupted m d = Done (r, d')"
  then show "dev_inv bulk_inv d' \<and> (device_stopped d \<longrightarrow> device_stopped d') \<and> (case r of Stay m' \<Rightarrow> True | Leave m' \<Rightarrow> True)"
    using send_step_Done [of Bulk_reply Bulk_head _ d r d' bulk_inv]
    by (cases m) (auto simp: bind_res_Done_iff dev_inv_def dest: bulk_take_input_inv split: if_splits loop_result.splits)
next
  fix m d interrupted
  assume "dev_inv bulk_inv d" "bulk_countable (app d)"
  then show "returns (\<lambda>_. True) (bulk_main interrupted m d)"
    by (cases m) (auto simp: dev_inv_def intro: returns_bindI [OF bulk_take_input_returns] send_step_completes)
next
  fix m d
  assume "dev_inv bulk_inv d" "device_stopped d"
  then show "returns (\<lambda>(r, d'). case r of Stay m' \<Rightarrow> bulk_left m' < bulk_left m | Leave m' \<Rightarrow> True) (bulk_main True m d)"
    by (cases m) (auto intro: send_step_stopped)
qed

section \<open>The serial port\<close>

datatype cdc_pc = Cdc_head | Cdc_tick sending | Cdc_input

fun cdc_main :: "(cdc_pc, cdc) body" where
  "cdc_main interrupted Cdc_head d =
     (if interrupted then Done (Leave Cdc_head, d)
      else case cdc_tick (app d) of (text, a) \<Rightarrow>
        Done (Stay (case text of None \<Rightarrow> Cdc_input | Some bytes \<Rightarrow> Cdc_tick (Sending 1 bytes None)), d\<lparr>app := a\<rparr>))"
| "cdc_main interrupted (Cdc_tick c) d = send_step Cdc_tick Cdc_input c d"
| "cdc_main interrupted Cdc_input d =
     bind_res (cdc_take_input (app d)) (\<lambda>(printed, a). Done (Stay Cdc_head, d\<lparr>app := a\<rparr>))"

fun cdc_left :: "cdc_pc \<Rightarrow> nat" where
  "cdc_left Cdc_head = 0"
| "cdc_left (Cdc_tick c) = 2"
| "cdc_left Cdc_input = 1"

lemma cdc_take_input_returns: "cdc_inv a \<Longrightarrow> returns (\<lambda>(printed, a'). cdc_inv a') (cdc_take_input a)"
  by (auto simp: cdc_take_input_def cdc_inv_def read_mem_def)

lemma cdc_tick_inv: "cdc_inv (snd (cdc_tick a)) = cdc_inv a"
  by (simp add: cdc_tick_def cdc_inv_def)

interpretation cdc_program: main_program cdc_device cdc_inv cdc_main "\<lambda>_. True" "\<lambda>_. True" "\<lambda>_. True" cdc_left
proof
  fix m d r d' interrupted
  assume "dev_inv cdc_inv d" "cdc_main interrupted m d = Done (r, d')"
  then show "dev_inv cdc_inv d' \<and> (device_stopped d \<longrightarrow> device_stopped d') \<and> (case r of Stay m' \<Rightarrow> True | Leave m' \<Rightarrow> True)"
    using send_step_Done [of Cdc_tick Cdc_input _ d r d' cdc_inv] cdc_take_input_returns [of "app d"] cdc_tick_inv [of "app d"]
    by (cases m) (auto simp: bind_res_Done_iff dev_inv_def split: if_splits loop_result.splits prod.splits)
next
  fix m d interrupted
  assume "dev_inv cdc_inv d"
  then show "returns (\<lambda>_. True) (cdc_main interrupted m d)"
    by (cases m) (auto simp: dev_inv_def intro: returns_bindI [OF cdc_take_input_returns] send_step_completes split: prod.split)
next
  fix m d
  assume "dev_inv cdc_inv d" "device_stopped d"
  then show "returns (\<lambda>(r, d'). case r of Stay m' \<Rightarrow> cdc_left m' < cdc_left m | Leave m' \<Rightarrow> True) (cdc_main True m d)"
    by (cases m) (auto simp: dev_inv_def intro: returns_bindI [OF cdc_take_input_returns] send_step_stopped)
qed

section \<open>The mouse\<close>

datatype mouse_pc = Mouse_head u16 | Mouse_report u16 sending

fun mouse_main :: "'f double_ops \<Rightarrow> (mouse_pc, unit) body" where
  "mouse_main D interrupted (Mouse_head step_counter) d =
     (if interrupted then Done (Leave (Mouse_head step_counter), d)
      else case mouse_step (mouse_position D) step_counter of (out_buffer, step_counter) \<Rightarrow>
        Done (Stay (Mouse_report step_counter (Sending USB_MOUSE_HID_EP_DATA_IN out_buffer None)), d))"
| "mouse_main D interrupted (Mouse_report step_counter c) d =
     send_step (Mouse_report step_counter) (Mouse_head step_counter) c d"

fun mouse_left :: "mouse_pc \<Rightarrow> nat" where
  "mouse_left (Mouse_head i) = 0"
| "mouse_left (Mouse_report i c) = 1"

interpretation mouse_program: main_program mouse_device "\<lambda>_. True" "mouse_main D" "\<lambda>_. True" "\<lambda>_. True" "\<lambda>_. True" mouse_left for D
proof
  fix m d r d' interrupted
  assume "dev_inv (\<lambda>_. True) d" "mouse_main D interrupted m d = Done (r, d')"
  then show "dev_inv (\<lambda>_. True) d' \<and> (device_stopped d \<longrightarrow> device_stopped d') \<and> (case r of Stay m' \<Rightarrow> True | Leave m' \<Rightarrow> True)"
    using send_step_Done [of _ _ _ d r d' "\<lambda>_. True"]
    by (cases m) (auto split: if_splits loop_result.splits prod.splits)
next
  fix m interrupted and d :: "unit device"
  assume "dev_inv (\<lambda>_. True) d"
  then show "returns (\<lambda>_. True) (mouse_main D interrupted m d)"
    by (cases m) (auto intro: send_step_completes split: prod.split)
next
  fix m and d :: "unit device"
  assume "dev_inv (\<lambda>_. True) d" "device_stopped d"
  then show "returns (\<lambda>(r, d'). case r of Stay m' \<Rightarrow> mouse_left m' < mouse_left m | Leave m' \<Rightarrow> True) (mouse_main D True m d)"
    by (cases m) (auto intro: send_step_stopped)
qed

section \<open>The keyboard\<close>

text \<open>
  \<open>Kb_wait\<close> is the head of the loop that waits for the configuration, \<open>Kb_for i\<close> the head of the loop over
  the characters, \<open>Kb_down i\<close> and \<open>Kb_up i\<close> the calls that send the two reports of a character.
\<close>

datatype keyboard_pc = Kb_head | Kb_wait | Kb_for nat | Kb_down nat sending | Kb_up nat sending

fun keyboard_main :: "(keyboard_pc, keyboard) body" where
  "keyboard_main interrupted Kb_head d = Done (if interrupted then Leave Kb_head else Stay Kb_wait, d)"
| "keyboard_main interrupted Kb_wait d =
     (if interrupted then Done (Stay (Kb_for 0), d)
      else case keyboard_take_configuration (app d) of (is_configuration_active, a) \<Rightarrow>
        Done (Stay (if is_configuration_active then Kb_for 0 else Kb_wait), d\<lparr>app := a\<rparr>))"
| "keyboard_main interrupted (Kb_for string_idx) d =
     Done (Stay (if string_idx < length typing_string \<and> \<not> interrupted
                 then Kb_down string_idx
                   (Sending USB_KEYBOARD_HID_EP_DATA_IN (keyboard_type (typing_string ! string_idx) ! 0) None)
                 else Kb_head), d)"
| "keyboard_main interrupted (Kb_down string_idx c) d =
     send_step (Kb_down string_idx)
       (Kb_up string_idx (Sending USB_KEYBOARD_HID_EP_DATA_IN (keyboard_type (typing_string ! string_idx) ! 1) None)) c d"
| "keyboard_main interrupted (Kb_up string_idx c) d = send_step (Kb_up string_idx) (Kb_for (string_idx + 1)) c d"

fun keyboard_left :: "keyboard_pc \<Rightarrow> nat" where
  "keyboard_left Kb_head = 0"
| "keyboard_left Kb_wait = 2"
| "keyboard_left (Kb_for i) = 1"
| "keyboard_left (Kb_down i c) = 3"
| "keyboard_left (Kb_up i c) = 2"

interpretation keyboard_program: main_program keyboard_device "\<lambda>_. True" keyboard_main "\<lambda>_. True" "\<lambda>_. True" "\<lambda>_. True" keyboard_left
proof
  fix m d r d' interrupted
  assume "dev_inv (\<lambda>_. True) d" "keyboard_main interrupted m d = Done (r, d')"
  then show "dev_inv (\<lambda>_. True) d' \<and> (device_stopped d \<longrightarrow> device_stopped d') \<and> (case r of Stay m' \<Rightarrow> True | Leave m' \<Rightarrow> True)"
    using send_step_Done [of _ _ _ d r d' "\<lambda>_. True"]
    by (cases m) (auto simp: dev_inv_def split: if_splits loop_result.splits prod.splits)
next
  fix m interrupted and d :: "keyboard device"
  assume "dev_inv (\<lambda>_. True) d"
  then show "returns (\<lambda>_. True) (keyboard_main interrupted m d)"
    by (cases m) (auto intro: send_step_completes split: prod.split)
next
  fix m and d :: "keyboard device"
  assume "dev_inv (\<lambda>_. True) d" "device_stopped d"
  then show "returns (\<lambda>(r, d'). case r of Stay m' \<Rightarrow> keyboard_left m' < keyboard_left m | Leave m' \<Rightarrow> True) (keyboard_main True m d)"
    by (cases m) (auto intro: send_step_stopped)
qed

section \<open>The microphone\<close>

definition audio_main :: "(unit, 'f audio) body" where
  "audio_main interrupted m d = Done (if interrupted then Leave m else Stay m, d)"

interpretation audio_program: main_program "audio_device (F :: 'f float_ops)" audio_inv audio_main "\<lambda>_. True" "\<lambda>_. True"
    "\<lambda>_. True" "\<lambda>_. 0" for F
  by unfold_locales (auto simp: audio_main_def split: loop_result.splits)

section \<open>The display\<close>

text \<open>
  \<open>results\<close> is what SDL returns, \<open>quit\<close> the value of \<open>SDL_EVENT_QUIT\<close> and \<open>events k\<close> the events of the \<open>k\<close>th
  call of \<open>gud_display_window_handle_events\<close>. Closing the window ends the loop as an interrupt does.
\<close>

datatype gud_pc = Gud_open | Gud_head gud_main nat | Gud_frame gud_main nat | Gud_close gud_main | Gud_done gud_window

fun gud_display_main :: "sdl_results \<Rightarrow> u32 \<Rightarrow> (nat \<Rightarrow> u32 list) \<Rightarrow> (gud_pc, gud) body" where
  "gud_display_main results quit events interrupted Gud_open d =
     (case gud_display_window_open results 320 240 init_window of (opened, w) \<Rightarrow>
      case now_ms (app d) of (now, a) \<Rightarrow> Done (Stay (Gud_head (init_gud_main opened w now) 0), d\<lparr>app := a\<rparr>))"
| "gud_display_main results quit events interrupted (Gud_head m k) d =
     Done (Stay (if interrupted then Gud_close m
                 else if window_open m
                 then (if \<not> gud_display_window_handle_events quit (events k) then Gud_close m else Gud_frame m (k + 1))
                 else Gud_frame m k), d)"
| "gud_display_main results quit events interrupted (Gud_frame m k) d =
     bind_res (gud_round m (app d)) (\<lambda>(m, a). Done (Stay (Gud_head m k), d\<lparr>app := a\<rparr>))"
| "gud_display_main results quit events interrupted (Gud_close m) d =
     Done (Leave (Gud_done (if window_open m then gud_display_window_close (display_window m) else display_window m)), d)"
| "gud_display_main results quit events interrupted (Gud_done w) d = Done (Leave (Gud_done w), d)"

fun gud_left :: "gud_pc \<Rightarrow> nat" where
  "gud_left Gud_open = 3"
| "gud_left (Gud_head m k) = 2"
| "gud_left (Gud_frame m k) = 3"
| "gud_left (Gud_close m) = 1"
| "gud_left (Gud_done w) = 0"

definition gud_main_ok :: "gud_main \<Rightarrow> bool" where
  "gud_main_ok m \<longleftrightarrow> window_held m \<and> length (frame m) = 307200"

fun gud_loop_inv :: "gud_pc \<Rightarrow> bool" where
  "gud_loop_inv Gud_open = True"
| "gud_loop_inv (Gud_head m k) = gud_main_ok m"
| "gud_loop_inv (Gud_frame m k) = gud_main_ok m"
| "gud_loop_inv (Gud_close m) = gud_main_ok m"
| "gud_loop_inv (Gud_done w) = window_closed w"

text \<open>After the loop the window is gone.\<close>

definition gud_released :: "gud_pc \<Rightarrow> bool" where
  "gud_released m \<longleftrightarrow> (\<exists>w. m = Gud_done w \<and> window_closed w)"

lemma framebuffer_to_xrgb8888_returns:
  assumes "length fb = 307200" and "format = 0 \<or> format = GUD_PIXEL_FORMAT_RGB565"
  shows "returns (\<lambda>pixels. length pixels = 76800) (framebuffer_to_xrgb8888 fb format)"
proof -
  have "\<forall>idx\<in>set [0..<320 * 240]. 2 * idx + 1 < length fb" using assms(1) unfolding set_upt by simp
  from xrgb8888_loop_rgb565 [OF this] show ?thesis
    using assms(2) by (auto simp: framebuffer_to_xrgb8888_def xrgb8888_loop_none)
qed

lemma gud_round_returns:
  assumes "gud_inv a" and "gud_main_ok m"
  shows "returns (\<lambda>(m', a'). gud_inv a' \<and> gud_main_ok m') (gud_round m a)"
proof -
  have f: "current_format a = 0 \<or> current_format a = GUD_PIXEL_FORMAT_RGB565" "length (framebuffer a) = 307200"
    using assms(1) by (auto simp: gud_inv_def)
  obtain px py where
    p: "framebuffer_to_xrgb8888 (framebuffer a) (current_format a) = Done px" "length px = 76800"
      "framebuffer_to_xrgb8888 (frame m) (current_format a) = Done py" "length py = 76800"
    using framebuffer_to_xrgb8888_returns [OF f(2,1)] framebuffer_to_xrgb8888_returns [OF _ f(1), of "frame m"] assms(2)
    by (auto simp: returns_iff gud_main_ok_def)
  have shown: "window_opened 320 240 (gud_display_window_show (Some ps) on w)"
    if "window_opened 320 240 w" "length ps = 76800" for ps on w
    using window_show_opened [OF that(1), of ps] that(2) by simp
  show ?thesis
    using assms p shown
    by (cases "framebuffer_changed a"; cases "window_open m")
       (auto simp: gud_round_def now_ms_def Let_def split_beta window_held_def gud_main_ok_def f(2) returns_iff)
qed

lemma gud_round_Done:
  "gud_round m a = Done (m', a') \<Longrightarrow> gud_inv a \<Longrightarrow> gud_main_ok m \<Longrightarrow> gud_inv a' \<and> gud_main_ok m'"
  using gud_round_returns [of a m] by simp

lemma gud_main_ok_closed:
  "gud_main_ok m \<Longrightarrow> window_open m \<Longrightarrow> window_closed (gud_display_window_close (display_window m))"
  "gud_main_ok m \<Longrightarrow> \<not> window_open m \<Longrightarrow> window_closed (display_window m)"
  by (auto simp: gud_main_ok_def window_held_def intro: window_close_opened)

lemma now_ms_inv: "gud_inv (snd (now_ms a)) = gud_inv a"
  by (simp add: now_ms_def split_beta Let_def)

lemma gud_main_ok_init:
  assumes "gud_display_window_open results 320 240 init_window = (opened, w)"
  shows "gud_main_ok (init_gud_main opened w now)"
  using gud_view_start [OF assms] by (simp add: gud_view_def gud_main_ok_def) (simp add: init_gud_main_def)

interpretation gud_program: main_program gud_display_device gud_inv "gud_display_main results quit events" gud_loop_inv gud_released
    "\<lambda>_. True" gud_left for results quit events
proof
  fix m d r d' interrupted
  assume "gud_loop_inv m" "dev_inv gud_inv d" "gud_display_main results quit events interrupted m d = Done (r, d')"
  then show "dev_inv gud_inv d' \<and> (device_stopped d \<longrightarrow> device_stopped d') \<and>
      (case r of Stay m' \<Rightarrow> gud_loop_inv m' | Leave m' \<Rightarrow> gud_released m')"
    using now_ms_inv [of "app d"]
    by (cases m) (auto simp: bind_res_Done_iff dev_inv_def gud_released_def gud_main_ok_closed split: prod.splits if_splits
        dest: gud_round_Done gud_main_ok_init)
next
  fix m d interrupted
  assume "gud_loop_inv m" "dev_inv gud_inv d"
  then show "returns (\<lambda>_. True) (gud_display_main results quit events interrupted m d)"
    by (cases m) (auto simp: dev_inv_def intro: returns_bindI [OF gud_round_returns] split: prod.split)
next
  fix m d
  assume "gud_loop_inv m" "dev_inv gud_inv d" "device_stopped d"
  then show "returns (\<lambda>(r, d'). case r of Stay m' \<Rightarrow> gud_left m' < gud_left m | Leave m' \<Rightarrow> True)
      (gud_display_main results quit events True m d)"
    by (cases m) (auto simp: dev_inv_def intro: returns_bindI [OF gud_round_returns] split: prod.split)
qed

section \<open>Properties\<close>



text \<open>
  C25. The end of a program: a program returns only after its worker has ended, with the device stopped and
  the listening socket closed, and it returns \<open>EXIT_SUCCESS\<close>; it returns \<open>EXIT_FAILURE\<close> exactly if the server
  did not start, and then before there is a worker.
\<close>

theorem program_exit:
  assumes "main_program ud I body J K fits left" and "wf_srv I p" and "\<not> device_imported p" and "pend p = []" and "J m"
  shows "(program_start m event_fd r err p = Inr EXIT_FAILURE \<longleftrightarrow> \<not> fst (usbip_server_start event_fd r err p)) \<and>
     (\<forall>c m' result s. program_start m event_fd r err p = Inl c \<longrightarrow> program_reachable ud body c (Returned m' result, s) \<longrightarrow>
        result = EXIT_SUCCESS \<and> K m' \<and> worker s = Finished \<and> device_stopped (dev (proto s)) \<and> server_socket (net (proto s)) < 0)"
proof (intro conjI allI impI)
  show "program_start m event_fd r err p = Inr EXIT_FAILURE \<longleftrightarrow> \<not> fst (usbip_server_start event_fd r err p)"
    by (simp add: program_start_def split: prod.split)
next
  fix c m' result s
  assume "program_start m event_fd r err p = Inl c" and "program_reachable ud body c (Returned m' result, s)"
  then have "program_inv I J K (Returned m' result, s)"
    by (rule main_program.started_inv [OF assms(1), OF assms(2-5)])
  then show "result = EXIT_SUCCESS" "K m'" "worker s = Finished" "device_stopped (dev (proto s))" "server_socket (net (proto s)) < 0"
    by (simp_all add: program_inv_def server_inv_def)
qed

text \<open>The window of the display program at a position of its main thread.\<close>

fun gud_pc_window :: "gud_pc \<Rightarrow> gud_window" where
  "gud_pc_window Gud_open = init_window"
| "gud_pc_window (Gud_head m k) = display_window m"
| "gud_pc_window (Gud_frame m k) = display_window m"
| "gud_pc_window (Gud_close m) = display_window m"
| "gud_pc_window (Gud_done w) = w"

text \<open>
  C27. The display program and SDL: whether SDL gives it a window or not, and however the window's events, the
  host and Ctrl-C come, no call uses a window, renderer or texture that does not exist or copies a frame
  smaller than the texture, nothing is destroyed twice, and when the program returns everything it created
  is destroyed and SDL is shut down.
\<close>

theorem gud_window_calls:
  assumes "wf_srv gud_inv p" and "\<not> device_imported p" and "pend p = []"
    and "program_start Gud_open event_fd r err p = Inl c"
    and "program_reachable gud_display_device (gud_display_main results quit events) c (t, s)"
  shows "(\<exists>state. sdl_run (sdl_calls (gud_pc_window (locals t))) sdl_nothing = Some state) \<and>
     (\<forall>m result. t = Returned m result \<longrightarrow> sdl_run (sdl_calls (gud_pc_window m)) sdl_nothing = Some sdl_nothing)"
proof -
  have "program_inv gud_inv gud_loop_inv gud_released (t, s)"
    by (rule gud_program.started_inv [OF assms(1-3) _ assms(4,5)]) simp
  then have "gud_loop_inv (locals t) \<or> gud_released (locals t)" "t = Returned m result \<Longrightarrow> gud_released m" for m result
    by (cases t; simp add: program_inv_def)+
  moreover have "sdl_after (gud_pc_window m) \<noteq> None" if "gud_loop_inv m" for m
    using that by (cases m) (auto simp: gud_main_ok_def window_held_def window_opened_def window_closed_def
        init_window_def sdl_after_def split: if_splits)
  moreover have "sdl_after (gud_pc_window m) = Some sdl_nothing" if "gud_released m" for m
    using that by (auto simp: gud_released_def window_closed_def)
  ultimately show ?thesis unfolding sdl_after_def by (metis not_None_eq)
qed

section \<open>Witnesses\<close>

text \<open>A server that starts, for a host that connects and sends nothing.\<close>

definition open_succeeds :: open_results where
  "open_succeeds = \<lparr>or_socket = 3, or_inet_pton = 1, or_bind = 0, or_listen = 0\<rparr>"

definition silent_host :: "'d \<Rightarrow> 'd srv" where
  "silent_host a = init_srv (Replies.connected []) (init_device a) (\<lambda>_. (0, 0))"

definition listening :: "'d \<Rightarrow> 'd server" where
  "listening a = init_server ((silent_host a)\<lparr>net := (Replies.connected [])\<lparr>server_socket := 3\<rparr>\<rparr>)"

lemma silent_host_facts:
  "I a \<Longrightarrow> wf_srv I (silent_host a)" "\<not> device_imported (silent_host a)" "pend (silent_host a) = []"
  by (auto simp: silent_host_def dev_inv_def intro!: wf_init_srv) (simp_all add: init_srv_def pend_def)

lemma program_start_listening: "program_start m 5 open_succeeds 0 (silent_host a) = Inl (Loop m, listening a)"
  by (simp add: program_start_def usbip_server_start_def tcpip_server_open_def open_succeeds_def listening_def Let_def)
    (simp add: silent_host_def init_srv_def Replies.connected_def)

definition third_ctrl_c :: "'d server \<Rightarrow> 'd server" where
  "third_ctrl_c s = int_handler (int_handler (int_handler s))"

lemma running_listening:
  "running (Loop m, listening a)" "running (Loop m, int_handler (listening a))"
  "running (Loop m, int_handler (int_handler (listening a)))" "usbip_server_interrupted (third_ctrl_c (listening a))"
  by (simp_all add: running_def listening_def init_server_def int_handler_def third_ctrl_c_def
      usbip_server_interrupted_def Let_def)

lemma program_reachable_interrupted: "program_reachable ud body (Loop m, listening a) (Loop m, third_ctrl_c (listening a))"
  unfolding third_ctrl_c_def
  by (rule program_reachable.step [OF program_reachable.step [OF program_reachable.step [OF program_reachable.start]]])
    (rule program_step.interrupt, rule running_listening)+



theorem program_exit_witness:
  "program_start Bulk_head (- 1) open_succeeds 0 (silent_host init_bulk) = Inr 1"
  using program_exit [OF bulk_program.main_program_axioms silent_host_facts(1) [of bulk_inv, OF bulk_inv_init(1)]
      silent_host_facts(2,3) TrueI, of Bulk_head "- 1" open_succeeds 0] by (simp add: usbip_server_start_def)

text \<open>The main thread of the display has opened its window.\<close>

definition sdl_works :: sdl_results where
  "sdl_works = \<lparr>sdl_init = True, sdl_create_window = Some 1, sdl_create_renderer = Some 2, sdl_create_texture = Some 3\<rparr>"

theorem gud_window_calls_witness:
  "\<exists>m s state. main_step (gud_display_main sdl_works 256 (\<lambda>_. [])) (Loop Gud_open, listening (init_gud (\<lambda>_. (7, 0)))) =
       Done (Loop (Gud_head m 0), s) \<and> window_open m \<and>
     sdl_run (sdl_calls (display_window m)) sdl_nothing = Some state"
proof -
  let ?c = "(Loop Gud_open, listening (init_gud (\<lambda>_. (7, 0))))" and ?body = "gud_display_main sdl_works 256 (\<lambda>_. [])"
  obtain opened w where w: "gud_display_window_open sdl_works 320 240 init_window = (opened, w)" by fastforce
  have opened using window_open_result [OF window_closed_init w] by (simp add: sdl_works_def)
  then obtain m s where m: "main_step ?body ?c = Done (Loop (Gud_head m 0), s)" "window_open m"
    using w by (auto simp: main_step_def init_gud_main_def Let_def split_beta)
  have "program_reachable gud_display_device ?body ?c (Loop (Gud_head m 0), s)"
    by (rule program_reachable.step [OF program_reachable.start program_step.main [OF running_listening(1) m(1)]])
  from gud_window_calls [OF silent_host_facts(1) [of gud_inv, OF gud_inv_init] silent_host_facts(2,3) program_start_listening this] m
  show ?thesis by auto
qed

end
