(* ===== verification/Keyboard_Typing.thy ===== *)
theory Keyboard_Typing
  imports Mains
begin

text \<open>
  The keyboard's main thread and a host that polls its endpoint, taking turns in any order: the reports of
  the text pass through the endpoint of the device library one by one, none is lost, repeated or reordered,
  and the host reads the text.
\<close>

section \<open>The main thread and the host\<close>

type_synonym typing = "keyboard_pc \<times> keyboard device \<times> u8 list list"

text \<open>A turn of the main thread, which is not interrupted, or of the host, which keeps the reports it gets.\<close>

fun keyboard_turn :: "bool \<Rightarrow> typing \<Rightarrow> typing res" where
  "keyboard_turn True (pc, d, got) =
     bind_res (keyboard_main False pc d) (\<lambda>(r, d). Done (case r of Stay pc \<Rightarrow> pc | Leave pc \<Rightarrow> pc, d, got))"
| "keyboard_turn False (pc, d, got) =
     bind_res (usbip_device_fetch_ep_data USB_KEYBOARD_HID_EP_DATA_IN (replicate 512 0) 8 d) (\<lambda>(len, buffer, d).
       Done (pc, d, if len = 0 then got else got @ [take len buffer]))"

fun keyboard_turns :: "bool list \<Rightarrow> typing \<Rightarrow> typing res" where
  "keyboard_turns [] x = Done x"
| "keyboard_turns (t # ts) x = bind_res (keyboard_turn t x) (keyboard_turns ts)"

section \<open>Reports on their way\<close>

text \<open>The reports from character \<open>i\<close> on, and those the main thread has not yet handed over.\<close>

definition reports :: "nat \<Rightarrow> u8 list list" where
  "reports i = concat (map keyboard_type (drop i typing_string))"

fun remaining :: "keyboard_pc \<Rightarrow> u8 list list" where
  "remaining (Kb_for i) = reports i"
| "remaining (Kb_down i c) = reports i"
| "remaining (Kb_up i c) = tl (reports i)"
| "remaining Kb_head = []"
| "remaining Kb_wait = []"

fun turns_left :: "keyboard_pc \<Rightarrow> nat" where
  "turns_left (Kb_for i) = 3 * (16 - i)"
| "turns_left (Kb_down i c) = 3 * (16 - i) - 1"
| "turns_left (Kb_up i c) = 3 * (16 - i) - 2"
| "turns_left Kb_head = 0"
| "turns_left Kb_wait = 0"

text \<open>A call that sends \<open>report\<close>, started since the last reset.\<close>

definition sends :: "sending \<Rightarrow> u8 list \<Rightarrow> u32 \<Rightarrow> bool" where
  "sends c report g \<longleftrightarrow> (\<exists>started. c = Sending USB_KEYBOARD_HID_EP_DATA_IN report started \<and> (started = None \<or> started = Some g))"

fun position_ok :: "keyboard_pc \<Rightarrow> u32 \<Rightarrow> bool" where
  "position_ok (Kb_for i) g = (i \<le> 16)"
| "position_ok (Kb_down i c) g = (i < 16 \<and> sends c (keyboard_type (typing_string ! i) ! 0) g)"
| "position_ok (Kb_up i c) g = (i < 16 \<and> sends c (keyboard_type (typing_string ! i) ! 1) g)"
| "position_ok Kb_head g = True"
| "position_ok Kb_wait g = True"

definition waiting_reports :: "'d device \<Rightarrow> u8 list list" where
  "waiting_reports d = (if unread d 1 = [] then [] else [unread d 1])"

definition typing_inv :: "typing \<Rightarrow> bool" where
  "typing_inv x \<longleftrightarrow>
     (case x of (pc, d, got) \<Rightarrow> wf_device d \<and> \<not> device_stopped d \<and> \<not> kb_configuration_active (app d) \<and>
        length (unread d 1) \<le> 8 \<and> position_ok pc (reset_generation d) \<and>
        got @ waiting_reports d @ remaining pc = reports 0)"

lemma length_typing_string [simp]: "length typing_string = 16"
  by (simp add: typing_string_def)

lemma keyboard_type_reports:
  "length (keyboard_type c ! 0) = 8" "length (keyboard_type c ! 1) = 8"
  "keyboard_type c = [keyboard_type c ! 0, keyboard_type c ! 1]"
  by (simp_all add: keyboard_type_def Let_def)

lemma reports_step:
  "i < 16 \<Longrightarrow> reports i = keyboard_type (typing_string ! i) ! 0 # keyboard_type (typing_string ! i) ! 1 # reports (i + 1)"
  using keyboard_type_reports(3) [of "typing_string ! i"] by (simp add: reports_def Cons_nth_drop_Suc [symmetric])

lemma reports_end: "16 \<le> i \<Longrightarrow> reports i = []"
  by (simp add: reports_def)

lemma ep_index_keyboard: "ep_index USB_KEYBOARD_HID_EP_DATA_IN = 1"
  by simp

lemma transmit_finish_unread:
  "unread (snd (transmit_finish ep r d)) = unread d" "reset_generation (snd (transmit_finish ep r d)) = reset_generation d"
  by (simp_all add: transmit_finish_def event_write_def unread_def Let_def fun_eq_iff)

text \<open>A report is handed over if the endpoint is empty, otherwise the call waits.\<close>

lemma send_report:
  assumes "wf_device d" and "\<not> device_stopped d" and "sends c report (reset_generation d)" and "length report = 8"
  shows "unread d 1 \<noteq> [] \<Longrightarrow> \<exists>c'. send_step w a c d = Done (Stay (w c'), d) \<and> sends c' report (reset_generation d)"
    and "unread d 1 = [] \<Longrightarrow> \<exists>d'. send_step w a c d = Done (Stay a, d') \<and> wf_device d' \<and> \<not> device_stopped d' \<and>
      app d' = app d \<and> reset_generation d' = reset_generation d \<and> unread d' 1 = report"
proof -
  obtain started where c: "c = Sending USB_KEYBOARD_HID_EP_DATA_IN report started"
    and g: "(case started of None \<Rightarrow> reset_generation d | Some g \<Rightarrow> g) = reset_generation d"
    using assms(3) by (auto simp: sends_def)
  have l: "cut_length (length report) \<le> length report" by simp
  note attempt = transmit_attempt_cases [OF assms(1) l ep_index_keyboard [symmetric]]
  show "\<exists>c'. send_step w a c d = Done (Stay (w c'), d) \<and> sends c' report (reset_generation d)" if "unread d 1 \<noteq> []"
    using attempt(1) [of True "reset_generation d"] that assms(2)
    by (intro exI [of _ "Sending USB_KEYBOARD_HID_EP_DATA_IN report (Some (reset_generation d))"]) (simp add: send_step_def c g sends_def)
  show "\<exists>d'. send_step w a c d = Done (Stay a, d') \<and> wf_device d' \<and> \<not> device_stopped d' \<and>
      app d' = app d \<and> reset_generation d' = reset_generation d \<and> unread d' 1 = report" if "unread d 1 = []"
  proof -
    obtain d' where d': "transmit_store 1 report (length report) d = Done (Tr_return True, d')" "wf_device d'"
      "unread d' = (unread d)(1 := take (length report) report)" "device_stopped d' = device_stopped d"
      "reset_generation d' = reset_generation d" "app d' = app d"
      using transmit_store_spec [OF assms(1), of 1 "length report" report] assms(4) by auto
    then show ?thesis
      using attempt(3) [of "reset_generation d" True] that assms(2,4)
      by (simp add: send_step_def c g transmit_finish_frame transmit_finish_unread)
  qed
qed

text \<open>A turn inside a call for the report that is next: it waits, or it hands the report over.\<close>

lemma send_turn:
  assumes "typing_inv (pc, d, got)" and "keyboard_main False pc d = send_step w a c d"
    and "sends c report (reset_generation d)" and "length report = 8" and "remaining pc = report # remaining a"
    and "position_ok a (reset_generation d)" and "turns_left a = turns_left pc - 1"
    and "\<And>c'. sends c' report (reset_generation d) \<Longrightarrow> position_ok (w c') (reset_generation d) \<and> remaining (w c') = remaining pc"
  shows "\<exists>pc' d'. keyboard_turn True (pc, d, got) = Done (pc', d', got) \<and> typing_inv (pc', d', got) \<and>
     (unread d 1 = [] \<longrightarrow> turns_left pc' = turns_left pc - 1)"
proof -
  have d: "wf_device d" "\<not> device_stopped d" using assms(1) by (simp_all add: typing_inv_def)
  show ?thesis
  proof (cases "unread d 1 = []")
    case True
    obtain d' where d': "send_step w a c d = Done (Stay a, d')" "wf_device d'" "\<not> device_stopped d'" "app d' = app d"
      "reset_generation d' = reset_generation d" "unread d' 1 = report" 
      using send_report(2) [OF d assms(3,4) True, of w a] by (elim exE conjE) (rule that)
    have "report \<noteq> []" using assms(4) by auto
    then have "waiting_reports d' = [report]" "waiting_reports d = []" using d'(6) True by (simp_all add: waiting_reports_def)
    then have "typing_inv (a, d', got)"
      using assms(1,4-6) d'(2-6) by (simp add: typing_inv_def)
    moreover have "keyboard_turn True (pc, d, got) = Done (a, d', got)" using d'(1) assms(2) by simp
    ultimately show ?thesis using assms(7) by (intro exI [of _ a] exI [of _ d'] conjI impI)
  next
    case False
    obtain c' where c': "send_step w a c d = Done (Stay (w c'), d)" "sends c' report (reset_generation d)"
      using send_report(1) [OF d assms(3,4) False, of w a] by (elim exE conjE) (rule that)
    then have "keyboard_turn True (pc, d, got) = Done (w c', d, got)" using assms(2) by simp
    moreover have "typing_inv (w c', d, got)" using assms(1) assms(8) [OF c'(2)] by (simp add: typing_inv_def)
    ultimately show ?thesis using False by (intro exI [of _ "w c'"] exI [of _ d]) (simp only: simp_thms)
  qed
qed

lemma down_turn:
  assumes "typing_inv (Kb_down i c, d, got)"
  shows "\<exists>pc' d'. keyboard_turn True (Kb_down i c, d, got) = Done (pc', d', got) \<and> typing_inv (pc', d', got) \<and>
     (unread d 1 = [] \<longrightarrow> turns_left pc' = turns_left (Kb_down i c) - 1)"
proof -
  let ?r = "\<lambda>k. keyboard_type (typing_string ! i) ! k"
  have c: "i < 16" "sends c (?r 0) (reset_generation d)" using assms by (simp_all add: typing_inv_def)
  note r = reports_step [OF c(1)]
  show ?thesis
  proof (rule send_turn [OF assms _ c(2) keyboard_type_reports(1)])
    show "keyboard_main False (Kb_down i c) d =
        send_step (Kb_down i) (Kb_up i (Sending USB_KEYBOARD_HID_EP_DATA_IN (?r 1) None)) c d" by simp
    show "remaining (Kb_down i c) = ?r 0 # remaining (Kb_up i (Sending USB_KEYBOARD_HID_EP_DATA_IN (?r 1) None))"
      using r by simp
  qed (use c in \<open>auto simp: sends_def\<close>)
qed

lemma up_turn:
  assumes "typing_inv (Kb_up i c, d, got)"
  shows "\<exists>pc' d'. keyboard_turn True (Kb_up i c, d, got) = Done (pc', d', got) \<and> typing_inv (pc', d', got) \<and>
     (unread d 1 = [] \<longrightarrow> turns_left pc' = turns_left (Kb_up i c) - 1)"
proof -
  let ?r = "\<lambda>k. keyboard_type (typing_string ! i) ! k"
  have c: "i < 16" "sends c (?r 1) (reset_generation d)" using assms by (simp_all add: typing_inv_def)
  note r = reports_step [OF c(1)]
  show ?thesis
  proof (rule send_turn [OF assms _ c(2) keyboard_type_reports(2)])
    show "keyboard_main False (Kb_up i c) d = send_step (Kb_up i) (Kb_for (i + 1)) c d" by simp
    show "remaining (Kb_up i c) = ?r 1 # remaining (Kb_for (i + 1))" using r by simp
  qed (use c in auto)
qed

lemma main_turn:
  assumes "typing_inv (pc, d, got)"
  shows "\<exists>pc' d'. keyboard_turn True (pc, d, got) = Done (pc', d', got) \<and> typing_inv (pc', d', got) \<and>
     (unread d 1 = [] \<longrightarrow> turns_left pc' = turns_left pc - 1)"
proof (cases pc)
  case (Kb_down i c)
  then show ?thesis using down_turn [of i c d got] assms by simp
next
  case (Kb_up i c)
  then show ?thesis using up_turn [of i c d got] assms by simp
next
  case (Kb_for i)
  let ?pc = "if i < 16 then Kb_down i (Sending USB_KEYBOARD_HID_EP_DATA_IN (keyboard_type (typing_string ! i) ! 0) None) else Kb_head"
  have "keyboard_turn True (pc, d, got) = Done (?pc, d, got)" using Kb_for by simp
  moreover have "typing_inv (?pc, d, got)" using assms Kb_for by (cases "i < 16") (simp_all add: typing_inv_def sends_def reports_end)
  moreover have "turns_left ?pc = turns_left pc - 1" using Kb_for by simp
  ultimately show ?thesis by blast
next
  case Kb_head
  have "keyboard_turn True (pc, d, got) = Done (Kb_wait, d, got)" "typing_inv (Kb_wait, d, got)"
    using assms Kb_head by (simp_all add: typing_inv_def)
  moreover have "turns_left Kb_wait = turns_left pc - 1" using Kb_head by simp
  ultimately show ?thesis by blast
next
  case Kb_wait
  let ?d = "d\<lparr>app := (app d)\<lparr>kb_configuration_active := False\<rparr>\<rparr>"
  have "keyboard_turn True (pc, d, got) = Done (Kb_wait, ?d, got)"
    using assms Kb_wait by (simp add: typing_inv_def keyboard_take_configuration_def)
  moreover have "typing_inv (Kb_wait, ?d, got)"
    using assms Kb_wait by (simp add: typing_inv_def waiting_reports_def split: if_splits)
  moreover have "turns_left Kb_wait = turns_left pc - 1" using Kb_wait by simp
  ultimately show ?thesis by blast
qed

lemma host_turn:
  assumes "typing_inv (pc, d, got)"
  shows "\<exists>d' got'. keyboard_turn False (pc, d, got) = Done (pc, d', got') \<and> typing_inv (pc, d', got') \<and> unread d' 1 = []"
proof -
  have d: "wf_device d" "length (unread d 1) \<le> 8" using assms by (simp_all add: typing_inv_def)
  then have b: "min 8 (length (unread d (ep_index USB_KEYBOARD_HID_EP_DATA_IN))) \<le> length (replicate 512 (0 :: u8))" by simp
  obtain buffer d' where f: "usbip_device_fetch_ep_data USB_KEYBOARD_HID_EP_DATA_IN (replicate 512 0) 8 d =
      Done (length (unread d 1), buffer, d')" "take (length (unread d 1)) buffer = unread d 1" "wf_device d'" "unread d' 1 = []"
    "device_stopped d' = device_stopped d" "reset_generation d' = reset_generation d" "app d' = app d"
    using usbip_device_fetch_ep_data_spec [OF d(1) b] d(2) by (auto simp: returns_iff min_def)
  let ?got = "got @ waiting_reports d"
  have "keyboard_turn False (pc, d, got) = Done (pc, d', ?got)" using f(1,2) by (simp add: waiting_reports_def)
  moreover have "typing_inv (pc, d', ?got)" using assms f by (simp add: typing_inv_def) (simp add: waiting_reports_def)
  ultimately show ?thesis using f(4) by blast
qed

lemma keyboard_turns_inv: "typing_inv x \<Longrightarrow> \<exists>x'. keyboard_turns ts x = Done x' \<and> typing_inv x'"
proof (induction ts arbitrary: x)
  case (Cons t ts)
  obtain pc d got where x: "x = (pc, d, got)" by (cases x)
  obtain x' where "keyboard_turn t x = Done x'" "typing_inv x'"
    using main_turn [of pc d got] host_turn [of pc d got] Cons.prems by (cases t) (auto simp: x)
  then show ?case using Cons.IH by simp
qed simp

lemma keyboard_turns_finish:
  assumes "typing_inv (pc, d, got)" and "unread d 1 = []"
  shows "\<exists>pc' d' got'. keyboard_turns (concat (replicate n [True, False])) (pc, d, got) = Done (pc', d', got') \<and>
     typing_inv (pc', d', got') \<and> unread d' 1 = [] \<and> turns_left pc' = turns_left pc - n"
  using assms
proof (induction n arbitrary: pc d got)
  case (Suc n)
  obtain pc1 d1 where 1: "keyboard_turn True (pc, d, got) = Done (pc1, d1, got)" "typing_inv (pc1, d1, got)"
    "turns_left pc1 = turns_left pc - 1" using main_turn [OF Suc.prems(1)] Suc.prems(2) by blast
  obtain d2 got2 where 2: "keyboard_turn False (pc1, d1, got) = Done (pc1, d2, got2)" "typing_inv (pc1, d2, got2)"
    "unread d2 1 = []" using host_turn [OF 1(2)] by blast
  from Suc.IH [OF 2(2,3)] 1 2 show ?case by auto
qed simp

lemma turns_left_0:
  assumes "typing_inv (pc, d, got)" and "unread d 1 = []" and "turns_left pc = 0"
  shows "got = reports 0"
proof -
  have "remaining pc = []" using assms(1,3) by (cases pc) (auto simp: typing_inv_def reports_end)
  then show ?thesis using assms(1,2) by (simp add: typing_inv_def waiting_reports_def)
qed

text \<open>
  C26. The text of the keyboard arrives: from the start of the text on, however the main thread and a polling
  host take turns, the reports the host has read are the first reports of the text, in order, and none is
  lost or repeated. If they alternate, the host has read the whole text after 48 turns of each.
\<close>

theorem keyboard_text_arrives:
  assumes "wf_device d" and "\<not> device_stopped d" and "unread d 1 = []" and "\<not> kb_configuration_active (app d)"
  shows "(\<exists>pc d' got rest. keyboard_turns turns (Kb_for 0, d, []) = Done (pc, d', got) \<and>
       got @ rest = concat (map keyboard_type typing_string)) \<and>
     (\<exists>pc d' got. keyboard_turns (concat (replicate 48 [True, False])) (Kb_for 0, d, []) = Done (pc, d', got) \<and>
       typed 0 got = map Some ''Who is typing...'')"
proof -
  have inv: "typing_inv (Kb_for 0, d, [])" using assms by (simp add: typing_inv_def waiting_reports_def)
  have r: "reports 0 = concat (map keyboard_type typing_string)" by (simp add: reports_def)
  obtain pc1 d1 got1 where 1: "keyboard_turns turns (Kb_for 0, d, []) = Done (pc1, d1, got1)" "typing_inv (pc1, d1, got1)"
    using keyboard_turns_inv [OF inv, of turns] by (metis prod_cases3)
  then have 1: "keyboard_turns turns (Kb_for 0, d, []) = Done (pc1, d1, got1)"
    "got1 @ (waiting_reports d1 @ remaining pc1) = concat (map keyboard_type typing_string)"
    by (simp_all add: typing_inv_def r)
  obtain pc2 d2 got2 where 2: "keyboard_turns (concat (replicate 48 [True, False])) (Kb_for 0, d, []) = Done (pc2, d2, got2)"
    "typing_inv (pc2, d2, got2)" "unread d2 1 = []" "turns_left pc2 = turns_left (Kb_for 0) - 48"
    using keyboard_turns_finish [OF inv assms(3), of 48] by (elim exE conjE) (rule that)
  have "turns_left pc2 = 0" using 2(4) by simp
  then have "got2 = concat (map keyboard_type typing_string)" using turns_left_0 [OF 2(2,3)] r by simp
  moreover have "list_all typable typing_string" by code_simp
  ultimately have "typed 0 got2 = map Some ''Who is typing...''"
    using typed_keyboard_type [of typing_string] by (simp only: typing_string_def)
  with 1 2(1) show ?thesis by (intro conjI exI)
qed

theorem keyboard_text_arrives_witness:
  "\<exists>pc d' got. keyboard_turns (concat (replicate 48 [True, False])) (Kb_for 0, init_device init_keyboard, []) = Done (pc, d', got) \<and>
     typed 0 got = map Some ''Who is typing...''"
proof -
  have "wf_device (init_device init_keyboard)" "\<not> device_stopped (init_device init_keyboard)"
    "unread (init_device init_keyboard) 1 = []" "\<not> kb_configuration_active (app (init_device init_keyboard))"
    by (simp_all add: init_keyboard_def)
  from keyboard_text_arrives [OF this] show ?thesis by blast
qed

end
