(* ===== verification/Spec2Isabelle.thy ===== *)
theory Spec2Isabelle
  imports Sessions Simulation Endpoint_Table Iso_Submit Keyboard_Typing
begin

text \<open>
  A verification of usbip-server: a library (\<open>src/lib\<close>, \<open>include\<close>) that offers a USB device in user space to
  a USB/IP client, and the six device programs that use it (\<open>src/usb_bulk\<close>, \<open>src/usb_cdc\<close>, \<open>src/usb_mouse\<close>,
  \<open>src/usb_keyboard\<close>, \<open>src/usb_audio_input\<close>, \<open>src/usb_gud_display\<close>).

  \<^bold>\<open>The program.\<close> A device program fills in a \<open>usbip_device_t\<close> with its descriptors and callbacks and calls
  \<open>usbip_server_start\<close>. The server thread (\<open>usbip_server.c\<close>) accepts one client at a time on a TCP socket
  (\<open>tcpip_server.c\<close>). A client may list the device or import it; after an import it submits transfers
  (\<open>usbip_protocol.c\<close>). Control transfers are answered at once (\<open>usbip_device.c\<close>), OUT data goes to the
  program's callback, IN transfers wait in a queue until the program transmits data on their endpoint.
  \<open>usbip_device_transmit\<close> is called by the program's own threads, waits while the endpoint holds data the
  host has not fetched, and wakes the server thread through an event descriptor. The program's main loop
  works in rounds, most of it in a critical section that excludes the callbacks. Three times Ctrl-C, or
  \<open>usbip_server_stop\<close>, ends the server.

  \<^bold>\<open>Conventions\<close> (\<open>Prelude\<close>). A C function is a HOL function on the state it uses. The static variables of
  a file are a record, and the layers nest: \<open>server\<close> (\<open>usbip_server.c\<close>) holds \<open>srv\<close> (\<open>usbip_protocol.c\<close>), which
  holds \<open>net\<close> (\<open>tcpip_server.c\<close>) and \<open>device\<close> (\<open>usbip_device.c\<close>), which holds the variables of the device
  program. Integers have the width of the source; \<open>size_t\<close> and \<open>int\<close> counters that cannot wrap are \<open>nat\<close> or
  \<open>int\<close>. A call that can fail to return, or can leave an object, has the result type \<open>res\<close>: \<open>Done\<close>, \<open>NoReturn\<close>,
  \<open>Fault\<close>; every access through an index is checked, so a proof that a function does not fault is a proof
  that it stays inside its buffers. \<open>safe\<close>, \<open>returns\<close> and \<open>runs\<close> are the three ways to say so. The
  operating system is data: \<open>net\<close> has scripts of what \<open>recv\<close>, \<open>send\<close>, \<open>ppoll\<close>, \<open>select\<close> and \<open>accept\<close> will
  return, the clock is a function of the number of readings. Callbacks are function fields of the device.

  \<^bold>\<open>The theories, and what they show.\<close>

  \<^item> \<open>Wire\<close>: \<open>usbip_protocol_definitions.h\<close>, the packed structures as records with their bytes; reading and
    writing them are inverse.

  \<^item> \<open>Tcpip\<close>: \<open>tcpip_server.c\<close>. A read returns exactly the next bytes of the stream however they arrive, a
    write sends a prefix, all of it when it reports success. These laws are the locale \<open>transport\<close>.

  \<^item> \<open>Device\<close>: \<open>usbip_device.c\<close>. One call of \<open>usbip_device_transmit\<close> is \<open>transmit_attempt\<close>, one stretch
    under the mutex, and \<open>transmit_finish\<close>. Endpoint data is a stream cut at 512 bytes; \<open>GET_DESCRIPTOR\<close>
    follows its specification \<open>std_descriptor\<close>, the converted other speed configuration included. The locale
    \<open>device_program\<close> is the contract of a program: well formed descriptors, and callbacks that stay inside
    the data they get and keep an invariant.

  \<^item> \<open>Protocol\<close>: \<open>usbip_protocol.c\<close>, one definition per function, loops as recursive functions.
    \<open>Urb_Queue\<close>: the array of pending transfers refines a list (locale \<open>pending_queue\<close>). \<open>Protocol_Safe\<close>:
    whatever a client sends, no function of the file faults, each keeps the invariant \<open>wf_srv\<close> and returns.
    \<open>Replies\<close>: the bytes of every reply, and unlinking. \<open>Completion\<close>: the loop of \<open>complete_pending_urbs\<close>:
    replies in queue order, the stream of each endpoint, polling intervals, and that nothing that is due is
    left. \<open>Import\<close>: the walk over the configuration and the replies before an import; the locale
    \<open>served_device\<close> adds to \<open>device_program\<close> that the configuration can be listed. \<open>Attach\<close>: what each
    request of a client is answered. \<open>Endpoint_Table\<close>: \<open>load_endpoints\<close> equals a lookup in the list of
    descriptors, and the times computed from the table do not wrap around. \<open>Submit\<close> and \<open>Iso_Submit\<close>: the
    transfers of a host from the bytes of their messages to their replies or their place in the queue:
    control transfers, with \<open>GET_DESCRIPTOR\<close> as a special case, bulk and interrupt transfers, and
    isochronous IN transfers with the time at which they complete.

  \<^item> \<open>Server\<close>: \<open>usbip_server.c\<close>. \<open>worker_step\<close> is the server thread cut at its calls, \<open>server_step\<close> interleaves
    it with Ctrl-C, \<open>usbip_server_stop\<close> and the application. Safety over the whole life of the server,
    separation of sessions, and the end of the server. \<open>Sessions\<close> applies this to the bulk device.

  \<^item> \<open>Concurrency\<close>: any number of threads inside \<open>usbip_device_transmit\<close> and in critical sections, around the
    server thread, as the step relation \<open>sys_step\<close>; a step is one stretch under \<open>ep_access_mutex\<close> or one access
    to the event descriptor. No broadcast and no wakeup is lost, endpoints stay streams, data of one host
    never reaches the next, the holder of \<open>receive_lock\<close> never waits, and a stop releases every thread.
    \<open>Simulation\<close>: the passes of the server's own code are runs of these steps.

  \<^item> \<open>Examples\<close>: what the programs share: \<open>descriptor_utils.h\<close>, decimal output, and the locales
    \<open>input_collector\<close> (a callback that collects whole transfers in a buffer) and \<open>report_device\<close> (a HID
    device that answers its report descriptor).

  \<^item> \<open>Usb_Bulk\<close>, \<open>Usb_Cdc\<close>, \<open>Usb_Mouse\<close>, \<open>Usb_Keyboard\<close>, \<open>Usb_Audio\<close>, \<open>Usb_Gud\<close>: each with its descriptors,
    callbacks and the work of a round of its main loop, and an interpretation of \<open>served_device\<close>, so that all
    that is proved of the library holds for it. Beyond that: what the bulk and serial programs print and
    answer, that the pointer follows the circle, that the keyboard's reports type the text, what a recording
    contains, and that the display shows exactly the accepted updates. \<open>Gud_Protocol\<close> has the structures of
    the display protocol, \<open>Gud_Window\<close> the conversion of the framebuffer and the main loop of the display
    running between its callbacks (\<open>gud_step\<close>). \<open>Gud_Display_Window\<close>: \<open>gud_display_window.c\<close>, every function
    with the calls of SDL it makes, which keep to the rules of SDL (\<open>sdl_run\<close>).

  \<^item> \<open>Programs\<close>: a process, which is the main thread of a program, the worker and Ctrl-C (\<open>program_step\<close>). The
    locale \<open>main_program\<close> is what a main loop has to keep to. \<open>Mains\<close>: the \<open>main\<close> functions of the six
    programs, each an interpretation of the locale, with the consequences: a process is safe, the third Ctrl-C
    ends it even while the main thread waits for a host that never reads, it returns only after the worker has
    ended, and the display leaves no window behind. \<open>Keyboard_Typing\<close>: the keyboard's main thread and a polling
    host in any order of turns; the text arrives whole and in order.

  \<^bold>\<open>Bounds.\<close> No definition has fuel; \<open>run_main\<close> and \<open>keyboard_turns\<close> take the number or order of the steps they
  make, and their theorems give a number that is enough. The loops are structural or have a termination proof, with one
  exception: \<open>next_interface_loop\<close> does not end on a descriptor of length 0, it is a partial function with
  \<open>None\<close> for not returning, and returns on the configurations of \<open>wf_config\<close>, which all six devices have.
  A read of the connection does not return while the client is silent in the middle of a message
  (\<open>NoReturn\<close>); every theorem that a call returns has the condition that the connection ends, is stopped, or
  has the bytes. \<open>reset_generation\<close> wraps after \<open>2 ^ 32\<close> resets: the theorem on stale data says so.

  \<^bold>\<open>Parameters.\<close> The arithmetic of \<open>float\<close> and \<open>double\<close> and the functions \<open>sin\<close>, \<open>cos\<close>, \<open>sinf\<close> of the C library
  are records of functions (\<open>float_ops\<close>, \<open>double_ops\<close>), with hypotheses only where a theorem needs them:
  that the silent part of the signal is the sample 0, and that a position is accurate to one unit; both
  are shown to hold for the real numbers. What SDL returns, the events of the window and the value of
  \<open>SDL_EVENT_QUIT\<close> are arguments without hypotheses.

  \<^bold>\<open>Not modelled.\<close> Messages on standard output and error, and the options of the sockets, which the code does
  not look at again. The pauses of the main loops. A step of the main thread is atomic in \<open>Programs\<close>, as is a
  step of the worker; \<open>Concurrency\<close> is where the stretches under the mutex and inside critical sections
  interleave. In \<open>Concurrency\<close> the commands of a client are reduced to what they do to the shared
  data (a transfer is queued or removed, a control request begins and is answered); their full effect on
  the server thread's own data is in \<open>Protocol\<close>. The scripts under \<open>tools\<close> run on the host and are not
  part of the server.
\<close>

end
